(* ===== verification/Xv6_Prelude.thy ===== *)
theory Xv6_Prelude
  imports Main "HOL-Library.Word"
begin

text \<open>
  The prelude of the development: the machine-word type names of \<^verbatim>\<open>kernel/types.h\<close>,
  the outcome of a kernel routine (it returns, it panics, it gives up the CPU, it spins on a
  lock), the state-and-outcome monad in which the kernel's routines are written, the weakest
  precondition calculus over it, and generic lemmas on lists and words that the components
  share.
\<close>

unbundle bit_operations_syntax

section \<open>Integer types (kernel/types.h)\<close>

type_synonym uint8 = "8 word"
type_synonym uint16 = "16 word"
type_synonym uint32 = "32 word"
type_synonym uint64 = "64 word"
type_synonym uchar = uint8
type_synonym ushort = uint16
type_synonym uint = uint32
type_synonym int32 = "32 word"   \<comment> \<open>read with \<^verbatim>\<open>sint\<close>\<close>
type_synonym pde_t = uint64

section \<open>Outcomes of kernel routines\<close>

text \<open>
  Sleep channels. In C a channel is the address of some object; the model names the object.
\<close>

datatype chan =
    ChProc nat            \<comment> \<open>a \<^verbatim>\<open>struct proc\<close>, in \<^verbatim>\<open>wait()\<close>\<close>
  | ChBufLock nat         \<comment> \<open>the sleep-lock of buffer \<open>i\<close>\<close>
  | ChInodeLock nat       \<comment> \<open>the sleep-lock of inode-table entry \<open>i\<close>\<close>
  | ChBuf nat             \<comment> \<open>a \<^verbatim>\<open>struct buf\<close> waiting for the disk\<close>
  | ChLog                 \<comment> \<open>\<^verbatim>\<open>&log\<close>\<close>
  | ChPipeRead uint64     \<comment> \<open>\<^verbatim>\<open>&pi->nread\<close> of the pipe at this address\<close>
  | ChPipeWrite uint64    \<comment> \<open>\<^verbatim>\<open>&pi->nwrite\<close>\<close>
  | ChTicks               \<comment> \<open>\<^verbatim>\<open>&ticks\<close>\<close>
  | ChCons                \<comment> \<open>\<^verbatim>\<open>&cons.r\<close>\<close>
  | ChUart                \<comment> \<open>\<^verbatim>\<open>&uart_tx_r\<close>\<close>
  | ChDiskFree            \<comment> \<open>\<^verbatim>\<open>&disk.free[0]\<close>\<close>

text \<open>
  A routine returns a value in a new state, calls \<^verbatim>\<open>panic(msg)\<close> (which never returns),
  gives up the CPU inside \<^verbatim>\<open>sched()\<close> (to sleep, to yield or to exit: the process table
  says which), or spins on a lock that is held by somebody else or on a device that is not
  ready.  After \<open>Sched\<close> the process goes on from there when it is scheduled again; a loop
  that sleeps is therefore split into the part up to the sleep and the part after it.
\<close>

datatype ('a, 's) outcome =
    Ok 'a 's
  | Panic string
  | Sched 's
  | Spin

type_synonym ('s, 'a) kmon = "'s \<Rightarrow> ('a, 's) outcome"

definition ret :: "'a \<Rightarrow> ('s, 'a) kmon" where
  "ret x = (\<lambda>s. Ok x s)"

definition bnd :: "('s, 'a) kmon \<Rightarrow> ('a \<Rightarrow> ('s, 'b) kmon) \<Rightarrow> ('s, 'b) kmon" where
  "bnd m f = (\<lambda>s. case m s of
      Ok x s' \<Rightarrow> f x s'
    | Panic e \<Rightarrow> Panic e
    | Sched s' \<Rightarrow> Sched s'
    | Spin \<Rightarrow> Spin)"

definition panic :: "string \<Rightarrow> ('s, 'a) kmon" where
  "panic msg = (\<lambda>s. Panic msg)"

definition gets :: "('s \<Rightarrow> 'a) \<Rightarrow> ('s, 'a) kmon" where
  "gets f = (\<lambda>s. Ok (f s) s)"

definition modify :: "('s \<Rightarrow> 's) \<Rightarrow> ('s, unit) kmon" where
  "modify f = (\<lambda>s. Ok () (f s))"

definition assert_or :: "bool \<Rightarrow> string \<Rightarrow> ('s, unit) kmon" where
  \<comment> \<open>\<^verbatim>\<open>if(!b) panic(msg)\<close>\<close>
  "assert_or b msg = (if b then ret () else panic msg)"

definition whenk :: "bool \<Rightarrow> ('s, unit) kmon \<Rightarrow> ('s, unit) kmon" where
  "whenk b m = (if b then m else ret ())"

definition ub :: "('s, 'a) kmon" where
  \<comment> \<open>undefined behaviour of C, such as an access outside an array: the model stops\<close>
  "ub = panic ''undefined behaviour''"

fun foreach :: "'b list \<Rightarrow> ('b \<Rightarrow> ('s, unit) kmon) \<Rightarrow> ('s, unit) kmon" where
  "foreach [] f = ret ()"
| "foreach (x # xs) f = bnd (f x) (\<lambda>_. foreach xs f)"

lemma ret_app [simp]: "ret x s = Ok x s" by (simp add: ret_def)
lemma panic_app [simp]: "panic e s = Panic e" by (simp add: panic_def)
lemma gets_app [simp]: "gets f s = Ok (f s) s" by (simp add: gets_def)
lemma modify_app [simp]: "modify f s = Ok () (f s)" by (simp add: modify_def)

lemma assert_or_app [simp]:
  "assert_or b e s = (if b then Ok () s else Panic e)"
  by (simp add: assert_or_def)

lemma whenk_app [simp]: "whenk b m s = (if b then m s else Ok () s)"
  by (simp add: whenk_def)

lemma bnd_app [simp]:
  "bnd m f s = (case m s of
      Ok x t \<Rightarrow> f x t | Panic e \<Rightarrow> Panic e | Sched t \<Rightarrow> Sched t | Spin \<Rightarrow> Spin)"
  by (simp add: bnd_def)

lemma case_outcome_if [simp]:
  "case_outcome f g h k (if b then x else y) =
    (if b then case_outcome f g h k x else case_outcome f g h k y)"
  by simp

lemma kmon_if [simp]: "(if b then (m :: ('s, 'a) kmon) else n) s = (if b then m s else n s)"
  by simp

lemma bnd_ret [simp]: "bnd (ret x) f = f x"
  by (simp add: bnd_def ret_def)

lemma bnd_ret_right: "bnd m ret = m"
  by (rule ext) (simp add: bnd_def ret_def split: outcome.split)

lemma bnd_assoc: "bnd (bnd m f) g = bnd m (\<lambda>x. bnd (f x) g)"
  by (rule ext) (simp add: bnd_def split: outcome.split)

lemma bnd_Ok_iff:
  "bnd m f s = Ok y u \<longleftrightarrow> (\<exists>x t. m s = Ok x t \<and> f x t = Ok y u)"
  by (simp add: bnd_def split: outcome.split)

section \<open>Weakest preconditions\<close>

text \<open>
  \<open>wp m Q s\<close>: started in \<open>s\<close>, the routine \<open>m\<close> returns (it neither panics, sleeps
  nor spins) with a value and a state that satisfy \<open>Q\<close>.  This is total correctness.
\<close>

definition wp :: "('s, 'a) kmon \<Rightarrow> ('a \<Rightarrow> 's \<Rightarrow> bool) \<Rightarrow> 's \<Rightarrow> bool" where
  "wp m Q s = (case m s of Ok x s' \<Rightarrow> Q x s' | _ \<Rightarrow> False)"

lemma wp_ret [simp]: "wp (ret x) Q s = Q x s" by (simp add: wp_def)
lemma wp_Ok [simp]: "wp (Ok x) Q s = Q x s" by (simp add: wp_def)
lemma wp_panic [simp]: "wp (panic e) Q s = False" by (simp add: wp_def)
lemma wp_gets [simp]: "wp (gets f) Q s = Q (f s) s" by (simp add: wp_def)
lemma wp_modify [simp]: "wp (modify f) Q s = Q () (f s)" by (simp add: wp_def)
lemma wp_assert [simp]: "wp (assert_or b e) Q s = (b \<and> Q () s)" by (simp add: wp_def)

lemma wp_bnd [simp]: "wp (bnd m f) Q s = wp m (\<lambda>x. wp (f x) Q) s"
  by (simp add: wp_def bnd_def split: outcome.split)

lemma wp_whenk [simp]: "wp (whenk b m) Q s = (if b then wp m Q s else Q () s)"
  by (simp add: whenk_def)

lemma wp_if [simp]: "wp (if b then m else n) Q s = (if b then wp m Q s else wp n Q s)"
  by simp

lemma wp_let [simp]: "wp (let x = v in f x) Q s = (let x = v in wp (f x) Q s)"
  by (simp add: Let_def)

lemma wp_iff: "wp m Q s \<longleftrightarrow> (\<exists>x t. m s = Ok x t \<and> Q x t)"
  by (simp add: wp_def split: outcome.split)

lemma wp_mono: "wp m P s \<Longrightarrow> (\<And>x t. P x t \<Longrightarrow> Q x t) \<Longrightarrow> wp m Q s"
  by (auto simp: wp_iff)

lemma wpI: "m s = Ok x t \<Longrightarrow> Q x t \<Longrightarrow> wp m Q s"
  by (simp add: wp_def)

section \<open>Words\<close>

lemma word64_eq_iff: "(a :: uint64) = b \<longleftrightarrow> (\<forall>n. bit a n = bit b n)"
  by (auto intro: bit_eqI)

lemma unat_lt64: "unat (a :: uint64) < 2 ^ 64"
  using unsigned_less [of a] by simp

lemma unat_lt32: "unat (a :: uint32) < 2 ^ 32"
  using unsigned_less [of a] by simp

lemma unat_lt16: "unat (a :: uint16) < 2 ^ 16"
  using unsigned_less [of a] by simp

lemma unat_lt8: "unat (a :: uint8) < 256"
  using unsigned_less [of a] by simp

lemma unat_of_nat64 [simp]: "k < 2 ^ 64 \<Longrightarrow> unat (of_nat k :: uint64) = k"
  by (simp add: unat_of_nat take_bit_nat_eq_self)

lemma unat_of_nat32 [simp]: "k < 2 ^ 32 \<Longrightarrow> unat (of_nat k :: uint32) = k"
  by (simp add: unat_of_nat take_bit_nat_eq_self)

lemma unat_minus1_64 [simp]: "unat (- 1 :: uint64) = 18446744073709551615"
  by (simp add: unsigned_minus_1_eq_mask mask_eq_exp_minus_1)

lemma offset_iff:
  assumes "k < 2 ^ 64"
  shows "x = d + of_nat k \<longleftrightarrow> unat (x - d :: uint64) = k"
proof -
  have "x = d + of_nat k \<longleftrightarrow> x - d = of_nat k" by (auto simp: algebra_simps)
  also have "\<dots> \<longleftrightarrow> unat (x - d) = unat (of_nat k :: uint64)" by (rule word_unat_eq_iff)
  finally show ?thesis using assms by simp
qed

end
