(* ===== verification/Machine.thy ===== *)
theory Machine
  imports Xv6_Prelude
begin

text \<open>
  The constants and macros of \<^verbatim>\<open>kernel/param.h\<close>, \<^verbatim>\<open>kernel/memlayout.h\<close> and the paging part
  of \<^verbatim>\<open>kernel/riscv.h\<close>, at their widths, with the arithmetic facts the memory components
  rest on: rounding to pages, the packing of a physical address into a page-table entry,
  and the split of a virtual address into its three 9-bit indices.
\<close>

section \<open>kernel/param.h\<close>

definition NPROC :: nat where "NPROC = 64"
definition NCPU :: nat where "NCPU = 8"
definition NOFILE :: nat where "NOFILE = 16"
definition NFILE :: nat where "NFILE = 100"
definition NINODE :: nat where "NINODE = 50"
definition NDEV :: nat where "NDEV = 10"
definition ROOTDEV :: uint where "ROOTDEV = 1"
definition MAXARG :: nat where "MAXARG = 32"
definition MAXOPBLOCKS :: nat where "MAXOPBLOCKS = 10"
definition LOGSIZE :: nat where "LOGSIZE = MAXOPBLOCKS * 3"
definition NBUF :: nat where "NBUF = MAXOPBLOCKS * 3"
definition FSSIZE :: nat where "FSSIZE = 1000"
definition MAXPATH :: nat where "MAXPATH = 128"

section \<open>kernel/riscv.h: pages, page-table entries, virtual addresses\<close>

definition PGSIZE :: uint64 where "PGSIZE = 4096"
definition PGSHIFT :: nat where "PGSHIFT = 12"

definition PGROUNDUP :: "uint64 \<Rightarrow> uint64" where
  "PGROUNDUP sz = (sz + PGSIZE - 1) AND NOT (PGSIZE - 1)"

definition PGROUNDDOWN :: "uint64 \<Rightarrow> uint64" where
  "PGROUNDDOWN a = a AND NOT (PGSIZE - 1)"

definition PTE_V :: uint64 where "PTE_V = push_bit 0 1"
definition PTE_R :: uint64 where "PTE_R = push_bit 1 1"
definition PTE_W :: uint64 where "PTE_W = push_bit 2 1"
definition PTE_X :: uint64 where "PTE_X = push_bit 3 1"
definition PTE_U :: uint64 where "PTE_U = push_bit 4 1"

definition PA2PTE :: "uint64 \<Rightarrow> uint64" where
  "PA2PTE pa = push_bit 10 (drop_bit 12 pa)"

definition PTE2PA :: "uint64 \<Rightarrow> uint64" where
  "PTE2PA pte = push_bit 12 (drop_bit 10 pte)"

definition PTE_FLAGS :: "uint64 \<Rightarrow> uint64" where
  "PTE_FLAGS pte = pte AND 0x3FF"

definition PXMASK :: uint64 where "PXMASK = 0x1FF"

definition PXSHIFT :: "nat \<Rightarrow> nat" where
  "PXSHIFT level = PGSHIFT + 9 * level"

definition PX :: "nat \<Rightarrow> uint64 \<Rightarrow> uint64" where
  "PX level va = drop_bit (PXSHIFT level) va AND PXMASK"

definition MAXVA :: uint64 where "MAXVA = push_bit (9 + 9 + 9 + 12 - 1) 1"

definition SATP_SV39 :: uint64 where "SATP_SV39 = push_bit 60 8"

definition MAKE_SATP :: "uint64 \<Rightarrow> uint64" where
  "MAKE_SATP pagetable = SATP_SV39 OR drop_bit 12 pagetable"

section \<open>kernel/memlayout.h\<close>

definition UART0 :: uint64 where "UART0 = 0x10000000"
definition UART0_IRQ :: nat where "UART0_IRQ = 10"
definition VIRTIO0 :: uint64 where "VIRTIO0 = 0x10001000"
definition VIRTIO0_IRQ :: nat where "VIRTIO0_IRQ = 1"
definition CLINT :: uint64 where "CLINT = 0x2000000"
definition CLINT_MTIMECMP :: "uint64 \<Rightarrow> uint64" where
  "CLINT_MTIMECMP hartid = CLINT + 0x4000 + 8 * hartid"
definition CLINT_MTIME :: uint64 where "CLINT_MTIME = CLINT + 0xBFF8"
definition PLIC :: uint64 where "PLIC = 0x0c000000"
definition PLIC_SENABLE :: "uint64 \<Rightarrow> uint64" where
  "PLIC_SENABLE hart = PLIC + 0x2080 + hart * 0x100"
definition PLIC_SPRIORITY :: "uint64 \<Rightarrow> uint64" where
  "PLIC_SPRIORITY hart = PLIC + 0x201000 + hart * 0x2000"
definition PLIC_SCLAIM :: "uint64 \<Rightarrow> uint64" where
  "PLIC_SCLAIM hart = PLIC + 0x201004 + hart * 0x2000"
definition KERNBASE :: uint64 where "KERNBASE = 0x80000000"
definition PHYSTOP :: uint64 where "PHYSTOP = KERNBASE + 128 * 1024 * 1024"
definition TRAMPOLINE :: uint64 where "TRAMPOLINE = MAXVA - PGSIZE"
definition KSTACK :: "uint64 \<Rightarrow> uint64" where
  "KSTACK p = TRAMPOLINE - (p + 1) * 2 * PGSIZE"
definition TRAPFRAME :: uint64 where "TRAPFRAME = TRAMPOLINE - PGSIZE"

lemmas const_defs =
  PGSIZE_def PGSHIFT_def MAXVA_def KERNBASE_def PHYSTOP_def TRAMPOLINE_def TRAPFRAME_def
  PTE_V_def PTE_R_def PTE_W_def PTE_X_def PTE_U_def

section \<open>Pages\<close>

text \<open>
  A range of \<open>n\<close> bytes at \<open>a\<close> holds the addresses whose distance from \<open>a\<close> (modulo the
  width of the address space) is less than \<open>n\<close>.
\<close>

definition in_range :: "uint64 \<Rightarrow> nat \<Rightarrow> uint64 \<Rightarrow> bool" where
  "in_range a n x \<longleftrightarrow> unat (x - a) < n"

lemma in_range_next:
  assumes "n < 2 ^ 64"
  shows "in_range (d + 1) n x \<longleftrightarrow> x \<noteq> d \<and> in_range d (Suc n) x"
proof (cases "x = d")
  case True
  with assms show ?thesis by (simp add: in_range_def)
next
  case False
  then have nz: "x - d \<noteq> 0" by simp
  then have "unat (x - (d + 1)) = unat (x - d) - 1"
    using unat_minus_one [of "x - d"] by (simp add: algebra_simps)
  moreover have "0 < unat (x - d)" using nz by (simp add: unat_gt_0)
  ultimately show ?thesis using False by (auto simp: in_range_def)
qed

lemma in_range_nowrap:
  assumes "unat a + n \<le> 2 ^ 64"
  shows "in_range a n x \<longleftrightarrow> unat a \<le> unat x \<and> unat x < unat a + n"
  using assms unat_lt64 [of x]
  by (auto simp: in_range_def unat_sub_if_size word_size word_le_nat_alt)

lemma in_range_mono: "in_range a m x \<Longrightarrow> m \<le> n \<Longrightarrow> in_range a n x"
  by (simp add: in_range_def)

lemma in_range_offset: "i < n \<Longrightarrow> i < 2 ^ 64 \<Longrightarrow> in_range a n (a + of_nat i)"
  by (simp add: in_range_def)

lemma in_range_self [simp]: "in_range p n p \<longleftrightarrow> 0 < n"
  by (simp add: in_range_def)

definition page_aligned :: "uint64 \<Rightarrow> bool" where
  "page_aligned a \<longleftrightarrow> a mod PGSIZE = 0"

lemma not_pgmask: "NOT (PGSIZE - 1) = (push_bit 12 (mask 52) :: uint64)"
  by (simp add: PGSIZE_def mask_eq_exp_minus_1)

lemma PGROUNDDOWN_bits: "bit (PGROUNDDOWN a) n \<longleftrightarrow> 12 \<le> n \<and> bit a n"
  by (auto simp: PGROUNDDOWN_def not_pgmask bit_simps dest: bit_imp_le_length)

lemma PGROUNDDOWN_shift: "PGROUNDDOWN a = push_bit 12 (drop_bit 12 a)"
  by (rule bit_eqI) (auto simp: PGROUNDDOWN_bits bit_simps)

lemma unat_PGROUNDDOWN: "unat (PGROUNDDOWN a) = 4096 * (unat a div 4096)"
proof -
  have "unat (PGROUNDDOWN a) = take_bit 64 (unat (drop_bit 12 a) * 2 ^ 12)"
    by (simp add: PGROUNDDOWN_shift push_bit_eq_mult unat_word_ariths take_bit_eq_mod mult.commute)
  moreover have "unat (drop_bit 12 a) = unat a div 4096"
    by (simp only: unat_drop_bit_eq) (simp add: drop_bit_eq_div)
  moreover have "unat a div 4096 * 4096 < 2 ^ 64"
    using unat_lt64 [of a] by (simp add: algebra_simps)
  ultimately show ?thesis by (simp add: take_bit_eq_mod)
qed

lemma page_aligned_iff: "page_aligned a \<longleftrightarrow> 4096 dvd unat a"
proof -
  have "a mod PGSIZE = 0 \<longleftrightarrow> unat (a mod PGSIZE) = 0" by (simp add: unat_0_iff)
  then show ?thesis
    by (simp add: page_aligned_def PGSIZE_def unat_mod dvd_eq_mod_eq_0)
qed

lemma page_aligned_bits: "page_aligned a \<longleftrightarrow> (\<forall>n<12. \<not> bit a n)"
proof -
  have "page_aligned a \<longleftrightarrow> take_bit 12 a = 0"
    by (simp add: page_aligned_def PGSIZE_def take_bit_eq_mod)
  also have "\<dots> \<longleftrightarrow> (\<forall>n<12. \<not> bit a n)"
    by (auto simp: bit_eq_iff bit_simps)
  finally show ?thesis .
qed

lemma PGROUNDDOWN_aligned [simp]: "page_aligned (PGROUNDDOWN a)"
  by (simp add: page_aligned_bits PGROUNDDOWN_bits)

lemma PGROUNDDOWN_id [simp]: "page_aligned a \<Longrightarrow> PGROUNDDOWN a = a"
  by (rule bit_eqI) (use not_le in \<open>auto simp: page_aligned_bits PGROUNDDOWN_bits\<close>)

lemma PGROUNDDOWN_le: "PGROUNDDOWN a \<le> a"
  by (simp add: word_le_nat_alt unat_PGROUNDDOWN)

lemma unat_PGROUNDUP:
  assumes "unat sz \<le> 2 ^ 64 - 4096"
  shows "unat (PGROUNDUP sz) = 4096 * ((unat sz + 4095) div 4096)"
proof -
  have "PGROUNDUP sz = PGROUNDDOWN (sz + 4095)"
    by (simp add: PGROUNDUP_def PGROUNDDOWN_def PGSIZE_def algebra_simps)
  moreover have "unat (sz + 4095) = unat sz + 4095"
    using assms by (simp add: unat_word_ariths)
  ultimately show ?thesis by (simp add: unat_PGROUNDDOWN)
qed

lemma PGROUNDUP_aligned [simp]: "page_aligned (PGROUNDUP a)"
  by (simp add: PGROUNDUP_def flip: PGROUNDDOWN_def)

text \<open>The bytes of an aligned page are those that round down to it.\<close>

lemma in_page_iff:
  assumes "page_aligned p"
  shows "in_range p 4096 x \<longleftrightarrow> PGROUNDDOWN x = p"
proof
  assume "in_range p 4096 x"
  then have lt: "unat (x - p) < 4096" by (simp add: in_range_def)
  obtain k where k: "unat p = 4096 * k"
    using assms by (auto simp: page_aligned_iff elim: dvdE)
  have "unat x = (unat (x - p) + unat p) mod 2 ^ 64"
    using unat_word_ariths(1) [of "x - p" p] by simp
  also have "\<dots> = unat (x - p) + unat p"
    using lt k unat_lt64 [of p] by simp
  finally have "unat (PGROUNDDOWN x) = unat p"
    using lt k by (simp add: unat_PGROUNDDOWN)
  then show "PGROUNDDOWN x = p" by (simp add: word_unat_eq_iff)
next
  assume "PGROUNDDOWN x = p"
  then have "unat p = 4096 * (unat x div 4096)" by (auto simp: unat_PGROUNDDOWN)
  then have "unat p \<le> unat x" "unat x - unat p < 4096" by auto
  then show "in_range p 4096 x"
    by (simp add: in_range_def unat_sub word_le_nat_alt)
qed

lemma pages_disjoint:
  "page_aligned p \<Longrightarrow> page_aligned q \<Longrightarrow> in_range p 4096 x \<Longrightarrow> in_range q 4096 x \<Longrightarrow> p = q"
  by (simp add: in_page_iff)

section \<open>Page-table entries\<close>

lemma PTE2PA_bits: "bit (PTE2PA pte) n \<longleftrightarrow> 12 \<le> n \<and> n < 64 \<and> bit pte (n - 2)"
  by (auto simp: PTE2PA_def bit_simps intro: arg_cong [where f = "bit pte"])

lemma PA2PTE_bits: "bit (PA2PTE pa) n \<longleftrightarrow> 10 \<le> n \<and> n < 62 \<and> bit pa (n + 2)"
  by (auto simp: PA2PTE_def bit_simps dest: bit_imp_le_length)


lemma PTE_FLAGS_bits: "bit (PTE_FLAGS pte) n \<longleftrightarrow> n < 10 \<and> bit pte n"
proof -
  have "(0x3FF :: uint64) = mask 10" by (simp add: mask_eq_exp_minus_1)
  then show ?thesis
    unfolding PTE_FLAGS_def by (auto simp only: bit_simps possible_bit_word dest: bit_imp_le_length)
qed

lemma flag_exp:
  "PTE_V = 2 ^ 0" "PTE_R = 2 ^ 1" "PTE_W = 2 ^ 2" "PTE_X = 2 ^ 3" "PTE_U = 2 ^ 4"
  by (simp_all add: PTE_V_def PTE_R_def PTE_W_def PTE_X_def PTE_U_def)

lemma flag_bits:
  "bit PTE_V n \<longleftrightarrow> n = 0" "bit PTE_R n \<longleftrightarrow> n = 1" "bit PTE_W n \<longleftrightarrow> n = 2"
  "bit PTE_X n \<longleftrightarrow> n = 3" "bit PTE_U n \<longleftrightarrow> n = 4"
  unfolding flag_exp bit_exp_iff by auto

lemma and_flag_iff:
  "pte AND PTE_V \<noteq> 0 \<longleftrightarrow> bit pte 0" "pte AND PTE_R \<noteq> 0 \<longleftrightarrow> bit pte 1"
  "pte AND PTE_W \<noteq> 0 \<longleftrightarrow> bit pte 2" "pte AND PTE_X \<noteq> 0 \<longleftrightarrow> bit pte 3"
  "pte AND PTE_U \<noteq> 0 \<longleftrightarrow> bit pte 4"
  unfolding flag_exp and_exp_eq_0_iff_not_bit by simp_all

text \<open>\<open>flags_only f\<close>: a permission argument sets flag bits only.\<close>

definition flags_only :: "uint64 \<Rightarrow> bool" where
  "flags_only f \<longleftrightarrow> PTE_FLAGS f = f"

lemma flags_only_bits: "flags_only f \<longleftrightarrow> (\<forall>n. bit f n \<longrightarrow> n < 10)"
  by (auto simp: flags_only_def word64_eq_iff PTE_FLAGS_bits)

lemma flags_only_or [simp]: "flags_only a \<Longrightarrow> flags_only b \<Longrightarrow> flags_only (a OR b)"
  by (auto simp: flags_only_bits bit_or_iff)

lemma flags_only_consts [simp]:
  "flags_only PTE_V" "flags_only PTE_R" "flags_only PTE_W" "flags_only PTE_X" "flags_only PTE_U"
  by (auto simp: flags_only_bits flag_bits)

lemma PTE2PA_aligned [simp]: "page_aligned (PTE2PA pte)"
  by (simp add: page_aligned_bits PTE2PA_bits)

lemma PTE2PA_or_flags:
  assumes "page_aligned pa" "flags_only f"
  shows "PTE2PA (PA2PTE pa OR f) = pa"
proof (rule bit_eqI)
  fix n
  show "bit (PTE2PA (PA2PTE pa OR f)) n = bit pa n"
  proof (cases "n < 12")
    case True
    then show ?thesis using assms(1) by (simp add: PTE2PA_bits page_aligned_bits)
  next
    case False
    then have "\<not> bit f (n - 2)" using assms(2) by (auto simp: flags_only_bits)
    moreover obtain m where "n = 12 + m" using False by (metis le_Suc_ex not_less)
    ultimately show ?thesis
      by (auto simp: PTE2PA_bits PA2PTE_bits bit_or_iff dest: bit_imp_le_length)
  qed
qed

lemma PTE_FLAGS_or_flags: "flags_only f \<Longrightarrow> PTE_FLAGS (PA2PTE pa OR f) = f"
  by (rule bit_eqI) (auto simp: PTE_FLAGS_bits PA2PTE_bits bit_or_iff flags_only_bits)

section \<open>Virtual addresses\<close>

lemma PX_bits: "bit (PX l va) n \<longleftrightarrow> n < 9 \<and> bit va (12 + 9 * l + n)"
proof -
  have "(0x1FF :: uint64) = mask 9" by (simp add: mask_eq_exp_minus_1)
  then show ?thesis
    unfolding PX_def PXMASK_def PXSHIFT_def PGSHIFT_def
    by (auto simp only: bit_simps o_def possible_bit_word dest: bit_imp_le_length)
qed

lemma PX_less: "unat (PX l va) < 512"
proof -
  have "PX l va = take_bit 9 (PX l va)"
    by (rule bit_eqI) (auto simp: PX_bits bit_simps)
  then have "unat (PX l va) = unat (take_bit 9 (PX l va))" by simp
  also have "\<dots> < 512" by (simp only: unsigned_take_bit_eq) (simp add: take_bit_eq_mod)
  finally show ?thesis .
qed

lemma PX_PGROUNDDOWN [simp]: "PX l (PGROUNDDOWN va) = PX l va"
  by (rule bit_eqI) (auto simp: PX_bits PGROUNDDOWN_bits)

lemma MAXVA_bits: "va < MAXVA \<longleftrightarrow> (\<forall>n\<ge>38. \<not> bit va n)"
proof -
  have "va < MAXVA \<longleftrightarrow> unat va < 2 ^ 38"
    by (simp add: MAXVA_def word_less_nat_alt)
  also have "\<dots> \<longleftrightarrow> take_bit 38 (unat va) = unat va"
    by (simp add: take_bit_nat_eq_self_iff)
  also have "\<dots> \<longleftrightarrow> take_bit 38 va = va"
    by (simp add: word_unat_eq_iff unsigned_take_bit_eq)
  also have "\<dots> \<longleftrightarrow> (\<forall>n\<ge>38. \<not> bit va n)"
    by (simp only: word64_eq_iff bit_take_bit_iff) (metis not_less)
  finally show ?thesis .
qed

text \<open>
  The three indices determine the page: below \<open>MAXVA\<close>, two addresses with the same
  indices at all three levels lie in the same page.
\<close>

lemma PX_split_unique:
  assumes "va < MAXVA" "va' < MAXVA"
    and "PX 2 va = PX 2 va'" "PX 1 va = PX 1 va'" "PX 0 va = PX 0 va'"
  shows "PGROUNDDOWN va = PGROUNDDOWN va'"
proof (rule bit_eqI)
  fix n
  have px: "\<And>l k. l < 3 \<Longrightarrow> k < 9 \<Longrightarrow> bit va (12 + 9 * l + k) = bit va' (12 + 9 * l + k)"
  proof -
    fix l k :: nat
    assume lk: "l < 3" "k < 9"
    then consider "l = 0" | "l = 1" | "l = 2" by linarith
    then have "PX l va = PX l va'" using assms(3-5) by cases auto
    then have "bit (PX l va) k = bit (PX l va') k" by simp
    with lk show "bit va (12 + 9 * l + k) = bit va' (12 + 9 * l + k)" by (simp add: PX_bits)
  qed
  show "bit (PGROUNDDOWN va) n = bit (PGROUNDDOWN va') n"
  proof (cases "12 \<le> n \<and> n < 38")
    case True
    define l k where "l = (n - 12) div 9" and "k = (n - 12) mod 9"
    have "n = 12 + 9 * l + k" "l < 3" "k < 9" using True by (auto simp: l_def k_def)
    with px [of l k] show ?thesis by (simp add: PGROUNDDOWN_bits)
  next
    case False
    with assms(1,2) show ?thesis by (auto simp: PGROUNDDOWN_bits MAXVA_bits)
  qed
qed

end
