(* ===== verification/Bytes.thy ===== *)
theory Bytes
  imports Machine
begin

text \<open>
  Byte-addressed memory, and the little-endian layout of integers in it.  The kernel is
  compiled for RV64, which is little-endian; structures on disk, page-table entries and the
  free list are integers inside arrays of bytes.
\<close>

type_synonym mem = "uint64 \<Rightarrow> uint8"

section \<open>Little-endian integers\<close>

fun le_join :: "uint8 list \<Rightarrow> 'a::len word" where
  "le_join [] = 0"
| "le_join (b # bs) = ucast b OR push_bit 8 (le_join bs)"

fun le_split :: "nat \<Rightarrow> 'a::len word \<Rightarrow> uint8 list" where
  "le_split 0 w = []"
| "le_split (Suc n) w = ucast w # le_split n (drop_bit 8 w)"

lemma length_le_split [simp]: "length (le_split n w) = n"
  by (induction n arbitrary: w) auto

lemma le_join_split: "le_join (le_split n w) = take_bit (8 * n) (w :: 'a::len word)"
proof (induction n arbitrary: w)
  case 0
  then show ?case by simp
next
  case (Suc n)
  show ?case
  proof (rule bit_eqI)
    fix k
    assume "possible_bit TYPE('a word) k"
    then show "bit (le_join (le_split (Suc n) w) :: 'a word) k = bit (take_bit (8 * Suc n) w) k"
      by (cases "k < 8") (auto simp: Suc.IH bit_simps)
  qed
qed

lemma le_join_split_full:
  "8 * n = LENGTH('a) \<Longrightarrow> le_join (le_split n (w :: 'a::len word)) = w"
  by (simp add: le_join_split)

lemma le_join_bits: "bit (le_join bs :: 'a::len word) k \<Longrightarrow> k < 8 * length bs"
proof (induction bs arbitrary: k)
  case Nil
  then show ?case by simp
next
  case (Cons b bs)
  from Cons.prems show ?case
    by (cases "k < 8") (auto simp: bit_simps dest!: Cons.IH dest: bit_imp_le_length)
qed

lemma le_split_join:
  "8 * length bs \<le> LENGTH('a) \<Longrightarrow> le_split (length bs) (le_join bs :: 'a::len word) = bs"
proof (induction bs)
  case Nil
  then show ?case by simp
next
  case (Cons b bs)
  let ?w = "le_join bs :: 'a word"
  have small: "8 < LENGTH('a) \<or> bs = []" using Cons.prems by (cases bs) auto
  have hd: "(ucast (le_join (b # bs) :: 'a word) :: uint8) = b"
  proof (rule bit_eqI)
    fix k
    assume "possible_bit TYPE(8 word) k"
    then have "k < 8" by simp
    with Cons.prems show "bit (ucast (le_join (b # bs) :: 'a word) :: uint8) k = bit b k"
      by (auto simp: bit_simps)
  qed
  have tl: "drop_bit 8 (le_join (b # bs) :: 'a word) = ?w"
  proof (rule bit_eqI)
    fix k
    show "bit (drop_bit 8 (le_join (b # bs) :: 'a word)) k = bit ?w k"
      using Cons.prems le_join_bits [of bs k, where 'a = 'a]
      by (auto simp: bit_simps dest: bit_imp_le_length)
  qed
  from Cons show ?case by (simp only: list.size le_split.simps hd tl add_Suc_right) simp
qed

section \<open>Memory\<close>

definition load_bytes :: "mem \<Rightarrow> uint64 \<Rightarrow> nat \<Rightarrow> uint8 list" where
  "load_bytes m a n = map (\<lambda>i. m (a + of_nat i)) [0..<n]"

definition store_bytes :: "mem \<Rightarrow> uint64 \<Rightarrow> uint8 list \<Rightarrow> mem" where
  "store_bytes m a bs = (\<lambda>x. if in_range a (length bs) x then bs ! unat (x - a) else m x)"

definition load64 :: "mem \<Rightarrow> uint64 \<Rightarrow> uint64" where
  "load64 m a = le_join (load_bytes m a 8)"

definition store64 :: "mem \<Rightarrow> uint64 \<Rightarrow> uint64 \<Rightarrow> mem" where
  "store64 m a v = store_bytes m a (le_split 8 v)"

lemma length_load_bytes [simp]: "length (load_bytes m a n) = n"
  by (simp add: load_bytes_def)

lemma load_store_bytes:
  assumes "length bs \<le> 2 ^ 64"
  shows "load_bytes (store_bytes m a bs) a (length bs) = bs"
  using assms
  by (intro nth_equalityI) (auto simp: load_bytes_def store_bytes_def in_range_def unat_of_nat take_bit_nat_eq_self)

lemma load_bytes_cong:
  "(\<And>i. i < n \<Longrightarrow> m (a + of_nat i) = m' (a + of_nat i)) \<Longrightarrow> load_bytes m a n = load_bytes m' a n"
  by (simp add: load_bytes_def)

lemma load_store_bytes_disjoint:
  "(\<And>x. in_range a n x \<Longrightarrow> \<not> in_range b (length bs) x) \<Longrightarrow> n \<le> 2 ^ 64 \<Longrightarrow>
    load_bytes (store_bytes m b bs) a n = load_bytes m a n"
  by (rule load_bytes_cong)
     (simp add: store_bytes_def in_range_def unat_of_nat take_bit_nat_eq_self)

lemma load64_store64 [simp]: "load64 (store64 m a v) a = v"
  using load_store_bytes [of "le_split 8 v" m a]
  by (simp add: load64_def store64_def le_join_split_full)

lemma load64_cong:
  "(\<And>x. in_range a 8 x \<Longrightarrow> m x = m' x) \<Longrightarrow> load64 m a = load64 m' a"
  by (simp add: load64_def)
     (intro arg_cong [where f = le_join] load_bytes_cong, simp add: in_range_def unat_of_nat take_bit_nat_eq_self)

lemma store64_outside: "\<not> in_range a 8 x \<Longrightarrow> store64 m a v x = m x"
  by (simp add: store64_def store_bytes_def)

text \<open>Words at distinct 8-aligned addresses do not overlap.\<close>

lemma aligned8_disjoint:
  assumes "unat a mod 8 = 0" "unat b mod 8 = 0" "a \<noteq> b" "in_range a 8 x"
  shows "\<not> in_range b 8 x"
proof
  assume "in_range b 8 x"
  have eq: "\<And>c. unat c mod 8 = 0 \<Longrightarrow> in_range c 8 x \<Longrightarrow> unat c = 8 * (unat x div 8)"
  proof -
    fix c
    assume c: "unat c mod 8 = 0" "in_range c 8 x"
    obtain k where k: "unat c = 8 * k" using c(1) by (auto elim: dvdE simp: mod_eq_0_iff_dvd)
    have "unat x = (unat (x - c) + unat c) mod 2 ^ 64"
      using unat_word_ariths(1) [of "x - c" c] by simp
    also have "\<dots> = unat (x - c) + unat c"
      using c(2) k unat_lt64 [of c] by (simp add: in_range_def)
    finally show "unat c = 8 * (unat x div 8)"
      using c(2) k by (simp add: in_range_def)
  qed
  from eq [OF assms(1,4)] eq [OF assms(2) \<open>in_range b 8 x\<close>] assms(3)
  show False by (simp add: word_unat_eq_iff)
qed

lemma load64_store64_other:
  assumes "unat a mod 8 = 0" "unat b mod 8 = 0" "a \<noteq> b"
  shows "load64 (store64 m a v) b = load64 m b"
  by (rule load64_cong) (use aligned8_disjoint [OF assms] in \<open>auto intro: store64_outside\<close>)

end
