(* ===== verification/Cstring.thy ===== *)
theory Cstring
  imports Bytes
begin

text \<open>
  \<^verbatim>\<open>kernel/string.c\<close>: the kernel's memory and string routines, as loops over byte memory,
  and their closed forms.  A counter \<^verbatim>\<open>n\<close> of type \<^verbatim>\<open>uint\<close> or \<^verbatim>\<open>int\<close> is the number of
  iterations left, a natural number; pointers are 64-bit and wrap around.
\<close>

section \<open>The routines\<close>

fun memset_loop :: "mem \<Rightarrow> uint64 \<Rightarrow> uint8 \<Rightarrow> nat \<Rightarrow> nat \<Rightarrow> mem" where
  \<comment> \<open>\<^verbatim>\<open>for(i = 0; i < n; i++) cdst[i] = c;\<close> with \<open>k = n - i\<close> iterations to go\<close>
  "memset_loop m cdst c i 0 = m"
| "memset_loop m cdst c i (Suc k) = memset_loop (m(cdst + of_nat i := c)) cdst c (Suc i) k"

definition memset :: "mem \<Rightarrow> uint64 \<Rightarrow> int \<Rightarrow> nat \<Rightarrow> mem" where
  "memset m dst c n = memset_loop m dst (word_of_int c) 0 n"

fun memcmp :: "mem \<Rightarrow> uint64 \<Rightarrow> uint64 \<Rightarrow> nat \<Rightarrow> int" where
  "memcmp m s1 s2 0 = 0"
| "memcmp m s1 s2 (Suc n) =
     (if m s1 \<noteq> m s2 then int (unat (m s1)) - int (unat (m s2))
      else memcmp m (s1 + 1) (s2 + 1) n)"

fun copy_up :: "mem \<Rightarrow> uint64 \<Rightarrow> uint64 \<Rightarrow> nat \<Rightarrow> mem" where
  \<comment> \<open>\<^verbatim>\<open>while(n-- > 0) *d++ = *s++;\<close>\<close>
  "copy_up m d s 0 = m"
| "copy_up m d s (Suc n) = copy_up (m(d := m s)) (d + 1) (s + 1) n"

fun copy_down :: "mem \<Rightarrow> uint64 \<Rightarrow> uint64 \<Rightarrow> nat \<Rightarrow> mem" where
  \<comment> \<open>\<^verbatim>\<open>while(n-- > 0) *--d = *--s;\<close>\<close>
  "copy_down m d s 0 = m"
| "copy_down m d s (Suc n) = copy_down (m(d - 1 := m (s - 1))) (d - 1) (s - 1) n"

definition memmove :: "mem \<Rightarrow> uint64 \<Rightarrow> uint64 \<Rightarrow> nat \<Rightarrow> mem" where
  "memmove m dst src n =
     (if src < dst \<and> src + of_nat n > dst
      then copy_down m (dst + of_nat n) (src + of_nat n) n
      else copy_up m dst src n)"

definition memcpy :: "mem \<Rightarrow> uint64 \<Rightarrow> uint64 \<Rightarrow> nat \<Rightarrow> mem" where
  "memcpy m dst src n = memmove m dst src n"

fun strncmp :: "mem \<Rightarrow> uint64 \<Rightarrow> uint64 \<Rightarrow> nat \<Rightarrow> int" where
  "strncmp m p q 0 = 0"
| "strncmp m p q (Suc n) =
     (if m p \<noteq> 0 \<and> m p = m q then strncmp m (p + 1) (q + 1) n
      else int (unat (m p)) - int (unat (m q)))"

fun strncpy_pad :: "mem \<Rightarrow> uint64 \<Rightarrow> nat \<Rightarrow> mem" where
  \<comment> \<open>\<^verbatim>\<open>while(n-- > 0) *s++ = 0;\<close>\<close>
  "strncpy_pad m s 0 = m"
| "strncpy_pad m s (Suc n) = strncpy_pad (m(s := 0)) (s + 1) n"

fun strncpy_copy :: "mem \<Rightarrow> uint64 \<Rightarrow> uint64 \<Rightarrow> nat \<Rightarrow> mem" where
  \<comment> \<open>\<^verbatim>\<open>while(n-- > 0 && (*s++ = *t++) != 0);\<close> then the padding loop\<close>
  "strncpy_copy m s t 0 = m"
| "strncpy_copy m s t (Suc n) =
     (if m t \<noteq> 0 then strncpy_copy (m(s := m t)) (s + 1) (t + 1) n
      else strncpy_pad (m(s := m t)) (s + 1) n)"

definition strncpy :: "mem \<Rightarrow> uint64 \<Rightarrow> uint64 \<Rightarrow> int \<Rightarrow> mem" where
  "strncpy m s t n = strncpy_copy m s t (nat n)"

fun safestrcpy_loop :: "mem \<Rightarrow> uint64 \<Rightarrow> uint64 \<Rightarrow> nat \<Rightarrow> mem" where
  \<comment> \<open>\<^verbatim>\<open>while(--n > 0 && (*s++ = *t++) != 0); *s = 0;\<close> with \<open>n - 1\<close> copies allowed\<close>
  "safestrcpy_loop m s t 0 = m(s := 0)"
| "safestrcpy_loop m s t (Suc k) =
     (if m t \<noteq> 0 then safestrcpy_loop (m(s := m t)) (s + 1) (t + 1) k
      else (m(s := m t))(s + 1 := 0))"

definition safestrcpy :: "mem \<Rightarrow> uint64 \<Rightarrow> uint64 \<Rightarrow> int \<Rightarrow> mem" where
  "safestrcpy m s t n = (if n \<le> 0 then m else safestrcpy_loop m s t (nat (n - 1)))"

partial_function (option) strlen_from :: "mem \<Rightarrow> uint64 \<Rightarrow> nat \<Rightarrow> nat option" where
  \<comment> \<open>\<^verbatim>\<open>for(n = 0; s[n]; n++);\<close> -- no NUL anywhere is a loop that does not return\<close>
  "strlen_from m s n = (if m (s + of_nat n) = 0 then Some n else strlen_from m s (Suc n))"

definition strlen :: "mem \<Rightarrow> uint64 \<Rightarrow> nat option" where
  "strlen m s = strlen_from m s 0"

section \<open>Closed forms of the memory routines\<close>

lemma memset_loop_eq:
  "i + k \<le> 2 ^ 64 \<Longrightarrow>
    memset_loop m d c i k x = (if i \<le> unat (x - d) \<and> unat (x - d) < i + k then c else m x)"
proof (induction k arbitrary: m i)
  case 0
  then show ?case by auto
next
  case (Suc k)
  have "x = d + of_nat i \<longleftrightarrow> unat (x - d) = i"
    using Suc.prems by (intro offset_iff) simp
  with Suc show ?case by (auto simp: not_less_eq_eq)
qed

lemma memset_eq:
  "n \<le> 2 ^ 64 \<Longrightarrow> memset m d c n = (\<lambda>x. if in_range d n x then word_of_int c else m x)"
  by (auto simp: memset_def memset_loop_eq in_range_def)

text \<open>
  Copying upwards reads each byte before it is overwritten when the destination is not
  inside the source from its second byte on; downwards, when the source is not inside the
  destination.
\<close>

lemma copy_up_eq:
  assumes "n \<le> 2 ^ 64" "d = s \<or> n \<le> unat (d - s)"
  shows "copy_up m d s n = (\<lambda>x. if in_range d n x then m (s + (x - d)) else m x)"
  using assms
proof (induction n arbitrary: m d s)
  case 0
  then show ?case by (simp add: in_range_def)
next
  case (Suc n)
  have IH: "copy_up (m(d := m s)) (d + 1) (s + 1) n =
      (\<lambda>x. if in_range (d + 1) n x then (m(d := m s)) (s + 1 + (x - (d + 1))) else (m(d := m s)) x)"
    using Suc.prems by (intro Suc.IH) auto
  show ?case
  proof (rule ext)
    fix x
    have rng: "in_range (d + 1) n x \<longleftrightarrow> x \<noteq> d \<and> in_range d (Suc n) x"
      using Suc.prems by (intro in_range_next) simp
    have "s + (x - d) \<noteq> d" if "x \<noteq> d" "in_range d (Suc n) x"
    proof
      assume "s + (x - d) = d"
      then have "d - s = x - d" by (simp add: algebra_simps)
      with that Suc.prems(2) show False by (auto simp: in_range_def)
    qed
    with rng show "copy_up m d s (Suc n) x = (if in_range d (Suc n) x then m (s + (x - d)) else m x)"
      by (cases "x = d") (simp_all add: IH)
  qed
qed

lemma copy_down_eq:
  assumes "n \<le> 2 ^ 64" "s = d \<or> n \<le> unat (s - d)"
  shows "copy_down m (d + of_nat n) (s + of_nat n) n =
    (\<lambda>x. if in_range d n x then m (s + (x - d)) else m x)"
  using assms
proof (induction n arbitrary: m)
  case 0
  then show ?case by (simp add: in_range_def)
next
  case (Suc n)
  let ?m = "m(d + of_nat n := m (s + of_nat n))"
  have n: "unat (of_nat n :: uint64) = n"
    using Suc.prems by simp
  have step: "copy_down m (d + of_nat (Suc n)) (s + of_nat (Suc n)) (Suc n) =
      copy_down ?m (d + of_nat n) (s + of_nat n) n"
    by (simp add: algebra_simps)
  have IH: "copy_down ?m (d + of_nat n) (s + of_nat n) n =
      (\<lambda>x. if in_range d n x then ?m (s + (x - d)) else ?m x)"
    using Suc.prems by (intro Suc.IH) auto
  show ?case
  proof (rule ext)
    fix x
    have at_n: "x = d + of_nat n \<longleftrightarrow> unat (x - d) = n"
      using Suc.prems by (intro offset_iff) simp
    have "s + (x - d) \<noteq> d + of_nat n" if "in_range d n x"
    proof
      assume eq: "s + (x - d) = d + of_nat n"
      then have "s - d = of_nat n - (x - d)" by (simp add: algebra_simps)
      moreover have "x - d \<le> of_nat n"
        using that n by (simp add: in_range_def word_le_nat_alt)
      ultimately have "unat (s - d) = n - unat (x - d)" by (simp only: unat_sub n)
      with Suc.prems(2) have "s = d" by auto
      with eq have "x = d + of_nat n" by (simp add: algebra_simps)
      with that at_n show False by (simp add: in_range_def)
    qed
    then show "copy_down m (d + of_nat (Suc n)) (s + of_nat (Suc n)) (Suc n) x =
        (if in_range d (Suc n) x then m (s + (x - d)) else m x)"
      unfolding step IH using at_n by (auto simp: in_range_def less_Suc_eq)
  qed
qed

lemma memmove_eq:
  assumes "n < 2 ^ 32" "unat src + n < 2 ^ 64"
  shows "memmove m dst src n = (\<lambda>x. if in_range dst n x then m (src + (x - dst)) else m x)"
proof -
  have n: "unat (of_nat n :: uint64) = n"
    using assms(1) by simp
  have sn: "unat (src + of_nat n) = unat src + n"
    using assms(2) n by (simp add: unat_word_ariths)
  show ?thesis
  proof (cases "src < dst \<and> src + of_nat n > dst")
    case True
    then have lt: "unat src < unat dst" "unat dst < unat src + n"
      by (simp_all add: word_less_nat_alt sn)
    have "unat (src - dst) = unat src + 2 ^ 64 - unat dst"
      using lt(1) by (simp add: unat_sub_if_size word_size)
    then have "n \<le> unat (src - dst)"
      using lt assms(1) unat_lt64 [of dst] by simp
    with True assms(1) show ?thesis
      by (simp add: memmove_def copy_down_eq)
  next
    case False
    have "dst = src \<or> n \<le> unat (dst - src)"
    proof (cases "dst \<le> src")
      case True
      show ?thesis
      proof (cases "dst = src")
        case False
        with True have "unat (dst - src) = unat dst + 2 ^ 64 - unat src"
          by (simp add: unat_sub_if_size word_size word_le_nat_alt word_unat_eq_iff)
        with assms(2) show ?thesis by linarith
      qed simp
    next
      case nle: False
      with False have "unat src + n \<le> unat dst"
        by (simp add: sn word_less_nat_alt word_le_nat_alt)
      with nle have "n \<le> unat (dst - src)" by (simp add: unat_sub word_le_nat_alt)
      then show ?thesis ..
    qed
    moreover have "memmove m dst src n = copy_up m dst src n"
      unfolding memmove_def by (rule if_not_P [OF False])
    ultimately show ?thesis using assms(1) by (simp add: copy_up_eq)
  qed
qed

text \<open>The hypotheses hold at an overlapping copy one byte up.\<close>

text \<open>
  C33.  \<^verbatim>\<open>memmove\<close> is a simultaneous copy: whatever the overlap of the two ranges, byte
  \<open>i\<close> of the destination ends up holding the old byte \<open>i\<close> of the source, and nothing else
  changes.  (The count is a 32-bit integer, and the source range does not reach the end of
  the address space, so that the test \<^verbatim>\<open>s + n > d\<close> does not wrap.)
\<close>

theorem memmove_simultaneous:
  assumes "n < 2 ^ 32" "unat src + n < 2 ^ 64"
  shows "memmove m dst src n = (\<lambda>x. if in_range dst n x then m (src + (x - dst)) else m x)"
  using assms by (rule memmove_eq)

theorem memmove_simultaneous_witness:
  "memmove (\<lambda>x. ucast x) 101 100 4 103 = 102 \<and> memmove (\<lambda>x. ucast x) 101 100 4 101 = 100"
  using memmove_simultaneous [of 4 100 "\<lambda>x. ucast x" 101] by (simp add: in_range_def)

section \<open>Strings\<close>

text \<open>
  \<open>bstr m p n\<close> is the string that an \<open>n\<close>-byte field at \<open>p\<close> holds: its bytes up to the
  first NUL, or all of them when there is none (a directory entry's name is such a field).
\<close>

definition bstr :: "mem \<Rightarrow> uint64 \<Rightarrow> nat \<Rightarrow> uint8 list" where
  "bstr m p n = takeWhile (\<lambda>c. c \<noteq> 0) (load_bytes m p n)"

lemma load_bytes_Suc: "load_bytes m p (Suc n) = m p # load_bytes m (p + 1) n"
proof -
  have "[0..<Suc n] = 0 # map Suc [0..<n]" by (simp add: map_Suc_upt upt_conv_Cons del: upt_Suc)
  then show ?thesis by (simp add: load_bytes_def o_def add.assoc del: upt_Suc)
qed

lemma bstr_0 [simp]: "bstr m p 0 = []"
  by (simp add: bstr_def load_bytes_def)

lemma bstr_Suc: "bstr m p (Suc n) = (if m p = 0 then [] else m p # bstr m (p + 1) n)"
  by (simp add: bstr_def load_bytes_Suc)

lemma strncmp_eq0: "strncmp m p q n = 0 \<longleftrightarrow> bstr m p n = bstr m q n"
  by (induction n arbitrary: p q) (auto simp: bstr_Suc word_uint_eq_iff)

text \<open>
  C40.  \<^verbatim>\<open>strncmp(p, q, n)\<close> returns 0 exactly when the two \<open>n\<close>-byte fields hold the same
  string (so \<^verbatim>\<open>namecmp\<close> decides equality of directory names).
\<close>

theorem strncmp_zero_iff: "strncmp m p q n = 0 \<longleftrightarrow> bstr m p n = bstr m q n"
  by (rule strncmp_eq0)

lemma memcmp_zero_iff: "memcmp m p q n = 0 \<longleftrightarrow> load_bytes m p n = load_bytes m q n"
proof (induction n arbitrary: p q)
  case 0
  then show ?case by (simp add: load_bytes_def)
next
  case (Suc n)
  then show ?case by (auto simp: load_bytes_Suc word_uint_eq_iff)
qed

lemma strlen_from_bound:
  "m (s + of_nat (i + k)) = 0 \<Longrightarrow> (\<And>j. i \<le> j \<Longrightarrow> j < i + k \<Longrightarrow> m (s + of_nat j) \<noteq> 0) \<Longrightarrow>
    strlen_from m s i = Some (i + k)"
proof (induction k arbitrary: i)
  case 0
  then show ?case by (simp add: strlen_from.simps)
next
  case (Suc k)
  have "strlen_from m s (Suc i) = Some (Suc i + k)"
    using Suc.prems by (intro Suc.IH) auto
  moreover have "m (s + of_nat i) \<noteq> 0" using Suc.prems(2) [of i] by simp
  ultimately show ?case by (subst strlen_from.simps) simp
qed

text \<open>A NUL-terminated string \<open>xs\<close> at \<open>s\<close>.\<close>

definition cstr :: "mem \<Rightarrow> uint64 \<Rightarrow> uint8 list \<Rightarrow> bool" where
  "cstr m s xs \<longleftrightarrow> 0 \<notin> set xs \<and> load_bytes m s (length xs) = xs \<and> m (s + of_nat (length xs)) = 0"

lemma strlen_cstr: "cstr m s xs \<Longrightarrow> strlen m s = Some (length xs)"
proof -
  assume c: "cstr m s xs"
  have "m (s + of_nat j) \<noteq> 0" if "j < length xs" for j
  proof -
    have "m (s + of_nat j) = load_bytes m s (length xs) ! j" using that by (simp add: load_bytes_def)
    also have "\<dots> = xs ! j" using c by (simp add: cstr_def)
    finally show ?thesis using c that by (metis cstr_def nth_mem)
  qed
  then show ?thesis
    using c strlen_from_bound [of m s 0 "length xs"] by (simp add: strlen_def cstr_def)
qed

lemma safestrcpy_loop_frame:
  "Suc k < 2 ^ 64 \<Longrightarrow> \<not> in_range s (Suc k) x \<Longrightarrow> safestrcpy_loop m s t k x = m x"
proof (induction k arbitrary: m s t)
  case 0
  then show ?case by auto
next
  case (Suc k)
  then have n: "x \<noteq> s" "\<not> in_range (s + 1) (Suc k) x" by (auto simp: in_range_next)
  then have "x \<noteq> s + 1" by auto
  with n Suc show ?case by auto
qed

text \<open>Two \<open>n\<close>-byte ranges that have no byte in common.\<close>

definition disjoint_ranges :: "uint64 \<Rightarrow> nat \<Rightarrow> uint64 \<Rightarrow> nat \<Rightarrow> bool" where
  "disjoint_ranges a m b n \<longleftrightarrow> (\<forall>x. in_range a m x \<longrightarrow> \<not> in_range b n x)"

lemma disjoint_ranges_mono:
  "disjoint_ranges a m b n \<Longrightarrow> m' \<le> m \<Longrightarrow> n' \<le> n \<Longrightarrow> disjoint_ranges a m' b n'"
  unfolding disjoint_ranges_def by (meson in_range_mono)

lemma bstr_cong:
  "(\<And>x. in_range t k x \<Longrightarrow> m x = m' x) \<Longrightarrow> k \<le> 2 ^ 64 \<Longrightarrow> bstr m t k = bstr m' t k"
  unfolding bstr_def by (intro arg_cong [where f = "takeWhile _"] load_bytes_cong) (simp add: in_range_offset)

lemma disjoint_ranges_next:
  assumes "disjoint_ranges s (Suc k) t (Suc l)" "k < 2 ^ 64" "l < 2 ^ 64"
  shows "disjoint_ranges (s + 1) k (t + 1) l"
  using assms by (auto simp: disjoint_ranges_def in_range_next)

lemma safestrcpy_loop_bstr:
  "Suc k < 2 ^ 64 \<Longrightarrow> disjoint_ranges s (Suc k) t k \<Longrightarrow>
    bstr (safestrcpy_loop m s t k) s (Suc k) = bstr m t k"
proof (induction k arbitrary: m s t)
  case 0
  then show ?case by (simp add: bstr_Suc)
next
  case (Suc k)
  show ?case
  proof (cases "m t = 0")
    case True
    then show ?thesis by (simp add: bstr_Suc)
  next
    case False
    let ?m = "m(s := m t)"
    have dis: "disjoint_ranges (s + 1) (Suc k) (t + 1) k"
      using Suc.prems by (intro disjoint_ranges_next) auto
    have "bstr (safestrcpy_loop ?m (s + 1) (t + 1) k) (s + 1) (Suc k) = bstr ?m (t + 1) k"
      using Suc.prems dis by (intro Suc.IH) auto
    also have "\<dots> = bstr m (t + 1) k"
    proof (rule bstr_cong)
      fix x
      assume "in_range (t + 1) k x"
      then have "in_range t (Suc k) x" using Suc.prems by (simp add: in_range_next)
      then have "x \<noteq> s" using Suc.prems(2) by (auto simp: disjoint_ranges_def)
      then show "?m x = m x" by simp
    qed (use Suc.prems in simp)
    moreover have "safestrcpy_loop ?m (s + 1) (t + 1) k s = m t"
      using Suc.prems by (subst safestrcpy_loop_frame) (auto simp: in_range_next)
    ultimately show ?thesis using False by (simp add: bstr_Suc)
  qed
qed

text \<open>
  C39.  \<^verbatim>\<open>safestrcpy(s, t, n)\<close> always leaves a NUL-terminated string in the \<open>n\<close>-byte
  destination: the source's string cut to \<open>n - 1\<close> bytes, and no byte outside the
  destination changes.
\<close>

theorem safestrcpy_terminates_string:
  assumes "0 < n" "n < 2 ^ 31" "disjoint_ranges s (nat n) t (nat n)"
  shows "bstr (safestrcpy m s t n) s (nat n) = bstr m t (nat n - 1)
    \<and> length (bstr (safestrcpy m s t n) s (nat n)) < nat n
    \<and> (\<forall>x. \<not> in_range s (nat n) x \<longrightarrow> safestrcpy m s t n x = m x)"
proof -
  obtain k where k: "nat n = Suc k" "nat (n - 1) = k" using assms(1) by (cases "nat n") auto
  have "Suc k < 2 ^ 31" using assms(1,2) by (simp add: nat_less_iff flip: k(1))
  then have lt: "Suc k < 2 ^ 64" by simp
  have dis: "disjoint_ranges s (Suc k) t k"
    using assms(3) k(1) by (auto intro: disjoint_ranges_mono)
  have eq: "bstr (safestrcpy m s t n) s (Suc k) = bstr m t k"
    using assms(1) lt dis k by (simp add: safestrcpy_def safestrcpy_loop_bstr)
  have "length (bstr m t k) \<le> k"
    unfolding bstr_def by (rule order_trans [OF length_takeWhile_le]) simp
  with eq show ?thesis
    using assms(1) lt k by (auto simp: safestrcpy_def safestrcpy_loop_frame)
qed

theorem safestrcpy_terminates_string_witness:
  "bstr (safestrcpy (\<lambda>x. ucast x) 0 100 4) 0 4 = bstr (\<lambda>x. ucast x) 100 3"
proof -
  have "disjoint_ranges 0 (nat 4) 100 (nat 4)"
    by (simp add: disjoint_ranges_def in_range_nowrap)
  then show ?thesis
    using safestrcpy_terminates_string [of 4 0 100 "\<lambda>x. ucast x"] by simp
qed

section \<open>Frames\<close>

lemma copy_up_frame: "n < 2 ^ 64 \<Longrightarrow> \<not> in_range d n x \<Longrightarrow> copy_up m d s n x = m x"
proof (induction n arbitrary: m d s)
  case (Suc n)
  then have "x \<noteq> d" "\<not> in_range (d + 1) n x" by (auto simp: in_range_next)
  then show ?case using Suc by simp
qed simp

lemma copy_down_frame: "n < 2 ^ 64 \<Longrightarrow> \<not> in_range d n x \<Longrightarrow> copy_down m (d + of_nat n) s n x = m x"
proof (induction n arbitrary: m s)
  case (Suc n)
  have e: "d + of_nat (Suc n) - 1 = d + of_nat n" by simp
  have "x \<noteq> d + of_nat n" using Suc.prems in_range_offset [of n "Suc n" d] by auto
  moreover have "\<not> in_range d n x" using Suc.prems in_range_mono by fastforce
  ultimately show ?case using Suc e by simp
qed simp

lemma memmove_frame: "n < 2 ^ 64 \<Longrightarrow> \<not> in_range dst n x \<Longrightarrow> memmove m dst src n x = m x"
  by (simp add: memmove_def copy_up_frame copy_down_frame)

end
