(* ===== verification/Spinlock.thy ===== *)
theory Spinlock
  imports Cstring
begin

text \<open>
  The per-hart registers of \<^verbatim>\<open>kernel/riscv.h\<close>, the per-CPU structure of \<^verbatim>\<open>kernel/proc.h\<close> and
  the spin locks of \<^verbatim>\<open>kernel/spinlock.c\<close>.  The record \<open>mach\<close> is the bottom of the kernel
  state; every later component extends it with its own fields, so that a routine of this
  theory runs on the state of every layer above.
\<close>

section \<open>Harts and CPUs\<close>

record hart =
  mhartid :: uint64
  mstatus :: uint64
  mepc :: uint64
  medeleg :: uint64
  mideleg :: uint64
  mie :: uint64
  mtvec :: uint64
  mscratch :: uint64
  mcounteren :: uint64
  pmpcfg0 :: uint64
  pmpaddr0 :: uint64
  sstatus :: uint64
  sip :: uint64
  sie :: uint64
  sepc :: uint64
  stvec :: uint64
  satp :: uint64
  sscratch :: uint64
  scause :: uint64
  stval :: uint64
  tp :: uint64

record kcontext =
  ctx_ra :: uint64
  ctx_sp :: uint64
  ctx_s0 :: uint64
  ctx_s1 :: uint64
  ctx_s2 :: uint64
  ctx_s3 :: uint64
  ctx_s4 :: uint64
  ctx_s5 :: uint64
  ctx_s6 :: uint64
  ctx_s7 :: uint64
  ctx_s8 :: uint64
  ctx_s9 :: uint64
  ctx_s10 :: uint64
  ctx_s11 :: uint64

record cpu =
  cpu_proc :: "nat option"    \<comment> \<open>index in \<^verbatim>\<open>proc[]\<close> of the process running on this cpu\<close>
  cpu_context :: kcontext
  noff :: int                 \<comment> \<open>depth of \<^verbatim>\<open>push_off()\<close> nesting\<close>
  intena :: bool              \<comment> \<open>were interrupts enabled before \<^verbatim>\<open>push_off()\<close>?\<close>

section \<open>Locks\<close>

record spinlock =
  locked :: bool
  lk_name :: string
  lk_cpu :: "nat option"      \<comment> \<open>index in \<^verbatim>\<open>cpus[]\<close> of the cpu holding the lock\<close>

text \<open>The spin locks of the kernel, by the structure that contains them.\<close>

datatype lockid =
    LkKmem | LkPid | LkWait | LkProc nat | LkBcache | LkLog | LkItable | LkFtable
  | LkPipe uint64 | LkCons | LkUart | LkTicks | LkDisk | LkPr
  | LkBufSleep nat | LkInodeSleep nat  \<comment> \<open>\<^verbatim>\<open>lk->lk\<close> inside a sleep-lock\<close>

record mach =
  this_hart :: nat            \<comment> \<open>the hart that is executing\<close>
  harts :: "nat \<Rightarrow> hart"
  cpus :: "nat \<Rightarrow> cpu"
  locks :: "lockid \<Rightarrow> spinlock"

section \<open>Control and status registers (kernel/riscv.h)\<close>

definition SSTATUS_SPP :: uint64 where "SSTATUS_SPP = push_bit 8 1"
definition SSTATUS_SPIE :: uint64 where "SSTATUS_SPIE = push_bit 5 1"
definition SSTATUS_SIE :: uint64 where "SSTATUS_SIE = push_bit 1 1"

definition my_hart :: "('a mach_scheme) \<Rightarrow> hart" where
  "my_hart s = harts s (this_hart s)"

definition upd_hart :: "(hart \<Rightarrow> hart) \<Rightarrow> 'a mach_scheme \<Rightarrow> 'a mach_scheme" where
  "upd_hart f s = s\<lparr>harts := (harts s)(this_hart s := f (harts s (this_hart s)))\<rparr>"

definition r_sstatus :: "'a mach_scheme \<Rightarrow> uint64" where "r_sstatus s = sstatus (my_hart s)"
definition w_sstatus :: "uint64 \<Rightarrow> 'a mach_scheme \<Rightarrow> 'a mach_scheme" where
  "w_sstatus x = upd_hart (\<lambda>h. h\<lparr>sstatus := x\<rparr>)"
definition r_tp :: "'a mach_scheme \<Rightarrow> uint64" where "r_tp s = tp (my_hart s)"

definition intr_on :: "'a mach_scheme \<Rightarrow> 'a mach_scheme" where
  "intr_on s = w_sstatus (r_sstatus s OR SSTATUS_SIE) s"

definition intr_off :: "'a mach_scheme \<Rightarrow> 'a mach_scheme" where
  "intr_off s = w_sstatus (r_sstatus s AND NOT SSTATUS_SIE) s"

definition intr_get :: "'a mach_scheme \<Rightarrow> bool" where
  "intr_get s = (r_sstatus s AND SSTATUS_SIE \<noteq> 0)"

section \<open>This CPU (kernel/proc.c)\<close>

definition cpuid :: "'a mach_scheme \<Rightarrow> nat" where
  "cpuid s = unat (r_tp s)"

definition mycpu :: "'a mach_scheme \<Rightarrow> cpu" where
  "mycpu s = cpus s (cpuid s)"

definition upd_mycpu :: "(cpu \<Rightarrow> cpu) \<Rightarrow> 'a mach_scheme \<Rightarrow> 'a mach_scheme" where
  "upd_mycpu f s = s\<lparr>cpus := (cpus s)(cpuid s := f (cpus s (cpuid s)))\<rparr>"

section \<open>spinlock.c\<close>

definition upd_lock :: "lockid \<Rightarrow> (spinlock \<Rightarrow> spinlock) \<Rightarrow> 'a mach_scheme \<Rightarrow> 'a mach_scheme" where
  "upd_lock l f s = s\<lparr>locks := (locks s)(l := f (locks s l))\<rparr>"

definition initlock :: "lockid \<Rightarrow> string \<Rightarrow> ('a mach_scheme, unit) kmon" where
  "initlock lk name = modify (upd_lock lk (\<lambda>_. \<lparr>locked = False, lk_name = name, lk_cpu = None\<rparr>))"

definition push_off :: "('a mach_scheme, unit) kmon" where
  \<comment> \<open>\<open>noff\<close> is an unbounded integer; this is the C code as long as the depth is below \<open>2 ^ 31\<close>\<close>
  "push_off =
     bnd (gets intr_get) (\<lambda>old.
     bnd (modify intr_off) (\<lambda>_.
     bnd (gets (\<lambda>s. noff (mycpu s))) (\<lambda>n.
     bnd (whenk (n = 0) (modify (upd_mycpu (\<lambda>c. c\<lparr>intena := old\<rparr>)))) (\<lambda>_.
     modify (upd_mycpu (\<lambda>c. c\<lparr>noff := noff c + 1\<rparr>))))))"

definition pop_off :: "('a mach_scheme, unit) kmon" where
  "pop_off =
     bnd (gets intr_get) (\<lambda>on.
     bnd (assert_or (\<not> on) ''pop_off - interruptible'') (\<lambda>_.
     bnd (gets (\<lambda>s. noff (mycpu s))) (\<lambda>n.
     bnd (assert_or (\<not> n < 1) ''pop_off'') (\<lambda>_.
     bnd (modify (upd_mycpu (\<lambda>c. c\<lparr>noff := noff c - 1\<rparr>))) (\<lambda>_.
     bnd (gets mycpu) (\<lambda>c.
     whenk (noff c = 0 \<and> intena c) (modify intr_on)))))))"

definition holding :: "lockid \<Rightarrow> 'a mach_scheme \<Rightarrow> bool" where
  "holding lk s = (locked (locks s lk) \<and> lk_cpu (locks s lk) = Some (cpuid s))"

definition test_and_set :: "lockid \<Rightarrow> ('a mach_scheme, unit) kmon" where
  \<comment> \<open>\<^verbatim>\<open>while(__sync_lock_test_and_set(&lk->locked, 1) != 0);\<close>\<close>
  "test_and_set lk = (\<lambda>s. if locked (locks s lk) then Spin
                          else Ok () (upd_lock lk (\<lambda>k. k\<lparr>locked := True\<rparr>) s))"

definition acquire :: "lockid \<Rightarrow> ('a mach_scheme, unit) kmon" where
  "acquire lk =
     bnd push_off (\<lambda>_.
     bnd (gets (holding lk)) (\<lambda>h.
     bnd (assert_or (\<not> h) ''acquire'') (\<lambda>_.
     bnd (test_and_set lk) (\<lambda>_.
     bnd (gets cpuid) (\<lambda>c.
     modify (upd_lock lk (\<lambda>k. k\<lparr>lk_cpu := Some c\<rparr>)))))))"

definition release :: "lockid \<Rightarrow> ('a mach_scheme, unit) kmon" where
  "release lk =
     bnd (gets (holding lk)) (\<lambda>h.
     bnd (assert_or h ''release'') (\<lambda>_.
     bnd (modify (upd_lock lk (\<lambda>k. k\<lparr>lk_cpu := None\<rparr>))) (\<lambda>_.
     bnd (modify (upd_lock lk (\<lambda>k. k\<lparr>locked := False\<rparr>))) (\<lambda>_.
     pop_off))))"

section \<open>Interrupts around critical sections\<close>

named_theorems acq_simps \<open>how the state with a lock acquired relates to the state without\<close>

lemma SIE_exp: "SSTATUS_SIE = 2 ^ 1" by (simp add: SSTATUS_SIE_def)

lemma intr_get_bit: "intr_get s = bit (r_sstatus s) 1"
  unfolding intr_get_def SIE_exp and_exp_eq_0_iff_not_bit by simp

lemma SIE_bits: "bit SSTATUS_SIE n \<longleftrightarrow> n = 1"
  unfolding SIE_exp bit_exp_iff by auto

lemma sie_restore:
  "bit x 1 \<Longrightarrow> (x AND NOT SSTATUS_SIE) OR SSTATUS_SIE = x"
  "\<not> bit x 1 \<Longrightarrow> x AND NOT SSTATUS_SIE = x"
  by (auto simp: word64_eq_iff bit_simps SIE_bits dest: bit_imp_le_length)

lemma sie_off: "\<not> bit (x AND NOT SSTATUS_SIE) 1"
  by (simp add: bit_simps SIE_bits)

lemma sie_on: "bit (x OR SSTATUS_SIE) 1"
  by (simp add: bit_simps SIE_bits)

lemmas mach_defs =
  my_hart_def upd_hart_def r_sstatus_def w_sstatus_def r_tp_def intr_on_def intr_off_def
  cpuid_def mycpu_def upd_mycpu_def upd_lock_def

lemma upd_simps [simp]:
  "this_hart (intr_off s) = this_hart s" "this_hart (intr_on s) = this_hart s"
  "cpuid (intr_off s) = cpuid s" "cpuid (intr_on s) = cpuid s"
  "cpuid (upd_mycpu f s) = cpuid s" "cpuid (upd_lock l g s) = cpuid s"
  "cpus (intr_off s) = cpus s" "cpus (intr_on s) = cpus s" "cpus (upd_lock l g s) = cpus s"
  "locks (intr_off s) = locks s" "locks (intr_on s) = locks s" "locks (upd_mycpu f s) = locks s"
  "locks (upd_lock l g s) = (locks s)(l := g (locks s l))"
  "r_sstatus (upd_mycpu f s) = r_sstatus s" "r_sstatus (upd_lock l g s) = r_sstatus s"
  "r_sstatus (intr_off s) = r_sstatus s AND NOT SSTATUS_SIE"
  "r_sstatus (intr_on s) = r_sstatus s OR SSTATUS_SIE"
  by (simp_all add: mach_defs)

lemma mycpu_upd [simp]:
  "mycpu (upd_mycpu f s) = f (mycpu s)" "mycpu (intr_off s) = mycpu s"
  "mycpu (intr_on s) = mycpu s" "mycpu (upd_lock l g s) = mycpu s"
  by (simp_all add: mach_defs)

lemma intr_get_upd [simp]:
  "\<not> intr_get (intr_off s)" "intr_get (intr_on s)"
  "intr_get (upd_mycpu f s) = intr_get s" "intr_get (upd_lock l g s) = intr_get s"
  using sie_off [of "r_sstatus s"] sie_on [of "r_sstatus s"] by (simp_all add: intr_get_bit)

lemma upd_mycpu_twice [simp]: "upd_mycpu f (upd_mycpu g s) = upd_mycpu (\<lambda>c. f (g c)) s"
  by (simp add: mach_defs)

lemma upd_lock_twice [simp]: "upd_lock l f (upd_lock l g s) = upd_lock l (\<lambda>k. f (g k)) s"
  by (simp add: mach_defs)

lemma upd_mycpu_cong: "f (mycpu s) = g (mycpu s) \<Longrightarrow> upd_mycpu f s = upd_mycpu g s"
  by (simp add: mach_defs)

lemma upd_mycpu_id: "f (mycpu s) = mycpu s \<Longrightarrow> upd_mycpu f s = s"
  by (simp add: mach_defs)

lemma upd_lock_id: "f (locks s l) = locks s l \<Longrightarrow> upd_lock l f s = s"
  by (simp add: mach_defs)

text \<open>Lock updates are pulled outermost, then CPU updates, then the interrupt flag.\<close>

lemma upd_commute:
  "upd_mycpu f (upd_lock l g s) = upd_lock l g (upd_mycpu f s)"
  "intr_on (upd_lock l g s) = upd_lock l g (intr_on s)"
  "intr_on (upd_mycpu f s) = upd_mycpu f (intr_on s)"
  by (simp_all add: mach_defs)

lemma intr_on_off: "intr_get s \<Longrightarrow> intr_on (intr_off s) = s"
  by (simp add: mach_defs intr_get_bit sie_restore)

lemma intr_off_id: "\<not> intr_get s \<Longrightarrow> intr_off s = s"
  by (simp add: mach_defs intr_get_bit sie_restore)

text \<open>
  \<open>cpu_ok s\<close>: the interrupt state of this CPU is consistent with its nesting depth.  The
  saved \<open>intena\<close> is dead while \<open>noff = 0\<close>; it then agrees with the interrupt flag, as it
  does after every matched pair of \<^verbatim>\<open>acquire\<close> and \<^verbatim>\<open>release\<close>.
\<close>

definition cpu_ok :: "'a mach_scheme \<Rightarrow> bool" where
  "cpu_ok s \<longleftrightarrow> 0 \<le> noff (mycpu s)
     \<and> (noff (mycpu s) = 0 \<longrightarrow> intena (mycpu s) = intr_get s)
     \<and> (0 < noff (mycpu s) \<longrightarrow> \<not> intr_get s)"

definition lock_free :: "lockid \<Rightarrow> 'a mach_scheme \<Rightarrow> bool" where
  "lock_free lk s \<longleftrightarrow> \<not> locked (locks s lk) \<and> lk_cpu (locks s lk) = None"

text \<open>The state in which this CPU has just acquired \<open>lk\<close>.\<close>

definition acq :: "lockid \<Rightarrow> 'a mach_scheme \<Rightarrow> 'a mach_scheme" where
  "acq lk s = upd_lock lk (\<lambda>k. k\<lparr>locked := True, lk_cpu := Some (cpuid s)\<rparr>)
     (upd_mycpu (\<lambda>c. c\<lparr>noff := noff c + 1\<rparr>) (intr_off s))"

lemma push_off_eq:
  "push_off s = Ok () (upd_mycpu (\<lambda>c. c\<lparr>noff := noff c + 1,
      intena := (if noff c = 0 then intr_get s else intena c)\<rparr>) (intr_off s))"
  by (auto simp: push_off_def intro!: upd_mycpu_cong)

lemma push_off_ok:
  "cpu_ok s \<Longrightarrow> push_off s = Ok () (upd_mycpu (\<lambda>c. c\<lparr>noff := noff c + 1\<rparr>) (intr_off s))"
  by (auto simp: push_off_eq cpu_ok_def intro!: upd_mycpu_cong)

lemma acquire_eq [simp]:
  assumes "cpu_ok s" "lock_free lk s"
  shows "acquire lk s = Ok () (acq lk s)"
  using assms
  by (simp add: acquire_def push_off_ok test_and_set_def holding_def acq_def lock_free_def o_def)

lemma acq_cpu_ok [simp]: "cpu_ok s \<Longrightarrow> cpu_ok (acq lk s)"
  by (auto simp: cpu_ok_def acq_def)

lemma acq_lock_free [simp]: "lock_free l (acq lk s) \<longleftrightarrow> l \<noteq> lk \<and> lock_free l s"
  by (auto simp: lock_free_def acq_def)

lemma acq_holding [simp]: "holding lk (acq lk s)"
  by (simp add: holding_def acq_def)

lemma release_acq [simp]:
  assumes "cpu_ok s" "lock_free lk s"
  shows "release lk (acq lk s) = Ok () s"
proof -
  let ?c = "mycpu s"
  have lk: "\<And>t c. locks t = locks s \<Longrightarrow>
      upd_lock lk (\<lambda>k. k\<lparr>lk_cpu := None, locked := False\<rparr>) t = t"
    using assms(2) by (intro upd_lock_id) (simp add: lock_free_def)
  have "release lk (acq lk s) =
      (if noff ?c = 0 \<and> intena ?c then Ok () (intr_on (intr_off s)) else Ok () (intr_off s))"
    using assms(1)
    by (auto simp: release_def acq_def pop_off_def cpu_ok_def holding_def upd_commute lk
        upd_mycpu_id)
  also have "\<dots> = Ok () s"
    using assms(1) by (auto simp: cpu_ok_def intr_on_off intr_off_id)
  finally show ?thesis .
qed

text \<open>Two locks held by this CPU can be thought of as taken in either order.\<close>

lemma acq_commute:
  "l \<noteq> k \<Longrightarrow> acq l (acq k s) = acq k (acq l s)"
  by (simp add: acq_def mach_defs fun_upd_twist)

lemma release_acq_other:
  assumes "cpu_ok s" "lock_free l s" "lock_free k s" "l \<noteq> k"
  shows "release l (acq k (acq l s)) = Ok () (acq k s)"
  using assms by (simp add: acq_commute [of k l])

lemma release_not_held:
  "\<not> holding lk s \<Longrightarrow> release lk s = Panic ''release''"
  by (simp add: release_def)

text \<open>A CPU that acquires a lock it holds already panics, whatever the interrupt state.\<close>

lemma acquire_held:
  "holding lk s \<Longrightarrow> acquire lk s = Panic ''acquire''"
  by (simp add: acquire_def push_off_eq holding_def)

fun repeatk :: "nat \<Rightarrow> ('s, unit) kmon \<Rightarrow> ('s, unit) kmon" where
  "repeatk 0 m = ret ()"
| "repeatk (Suc n) m = bnd m (\<lambda>_. repeatk n m)"

lemma push_offs:
  "0 \<le> noff (mycpu s) \<Longrightarrow> repeatk (Suc n) push_off s =
     Ok () (upd_mycpu (\<lambda>c. c\<lparr>noff := noff c + 1 + int n,
        intena := (if noff c = 0 then intr_get s else intena c)\<rparr>) (intr_off s))"
proof (induction n arbitrary: s)
  case 0
  then show ?case by (simp add: push_off_eq)
next
  case (Suc n)
  let ?t = "upd_mycpu (\<lambda>c. c\<lparr>noff := noff c + 1,
      intena := (if noff c = 0 then intr_get s else intena c)\<rparr>) (intr_off s)"
  have "repeatk (Suc (Suc n)) push_off s = repeatk (Suc n) push_off ?t"
    by (simp add: push_off_eq)
  also have "\<dots> = Ok () (upd_mycpu (\<lambda>c. c\<lparr>noff := noff c + 1 + int n,
        intena := (if noff c = 0 then intr_get ?t else intena c)\<rparr>) (intr_off ?t))"
    using Suc.prems by (intro Suc.IH) simp
  also have "intr_off ?t = ?t" by (simp add: intr_off_id)
  finally show ?case
    using Suc.prems by (auto intro!: upd_mycpu_cong)
qed

lemma pop_offs:
  "\<not> intr_get s \<Longrightarrow> noff (mycpu s) = int (Suc n) + k \<Longrightarrow> 0 \<le> k \<Longrightarrow> repeatk (Suc n) pop_off s =
     Ok () (let t = upd_mycpu (\<lambda>c. c\<lparr>noff := k\<rparr>) s in
       if k = 0 \<and> intena (mycpu s) then intr_on t else t)"
proof (induction n arbitrary: s)
  case 0
  then show ?case by (auto simp: pop_off_def Let_def intro!: upd_mycpu_cong arg_cong [where f = intr_on])
next
  case (Suc n)
  let ?t = "upd_mycpu (\<lambda>c. c\<lparr>noff := noff c - 1\<rparr>) s"
  have "repeatk (Suc (Suc n)) pop_off s = repeatk (Suc n) pop_off ?t"
    using Suc.prems by (simp add: pop_off_def)
  also have "\<dots> = Ok () (let t = upd_mycpu (\<lambda>c. c\<lparr>noff := k\<rparr>) ?t in
       if k = 0 \<and> intena (mycpu ?t) then intr_on t else t)"
    using Suc.prems by (intro Suc.IH) auto
  finally show ?case by simp
qed

text \<open>
  C36.  \<^verbatim>\<open>push_off\<close>/\<^verbatim>\<open>pop_off\<close> are matched: after any number of nested \<^verbatim>\<open>push_off\<close>s
  that the \<^verbatim>\<open>int\<close> counter can hold, interrupts are off, and as many \<^verbatim>\<open>pop_off\<close>s never panic and bring back the nesting depth
  and the interrupt flag of the start (when the CPU starts with interrupts on, its depth is 0).
\<close>

theorem push_pop_matched:
  assumes "0 \<le> noff (mycpu s)" "0 < noff (mycpu s) \<longrightarrow> \<not> intr_get s" "0 < n" "noff (mycpu s) + int n < 2 ^ 31"
  shows "wp (repeatk n push_off) (\<lambda>_ t. \<not> intr_get t \<and> noff (mycpu t) = noff (mycpu s) + int n
    \<and> wp (repeatk n pop_off) (\<lambda>_ u. intr_get u = intr_get s \<and> noff (mycpu u) = noff (mycpu s)) t) s"
proof -
  obtain k where k: "n = Suc k" using assms(3) by (cases n) auto
  let ?t = "upd_mycpu (\<lambda>c. c\<lparr>noff := noff c + 1 + int k,
        intena := (if noff c = 0 then intr_get s else intena c)\<rparr>) (intr_off s)"
  have "repeatk n pop_off ?t = Ok () (let t = upd_mycpu (\<lambda>c. c\<lparr>noff := noff (mycpu s)\<rparr>) ?t in
       if noff (mycpu s) = 0 \<and> intena (mycpu ?t) then intr_on t else t)"
    unfolding k using assms(1) by (intro pop_offs) auto
  then have "wp (repeatk n pop_off) (\<lambda>_ u. intr_get u = intr_get s \<and> noff (mycpu u) = noff (mycpu s)) ?t"
    using assms(1,2) by (auto simp: wp_def Let_def)
  moreover have "repeatk n push_off s = Ok () ?t"
    unfolding k using assms(1) by (rule push_offs)
  ultimately show ?thesis by (simp add: wp_def k)
qed

text \<open>All-zero harts and CPUs with every lock free, as \<^verbatim>\<open>entry.S\<close> finds the BSS.\<close>

definition zero_hart :: hart where
  "zero_hart = \<lparr>mhartid = 0, mstatus = 0, mepc = 0, medeleg = 0, mideleg = 0, mie = 0, mtvec = 0,
     mscratch = 0, mcounteren = 0, pmpcfg0 = 0, pmpaddr0 = 0, sstatus = 0, sip = 0, sie = 0,
     sepc = 0, stvec = 0, satp = 0, sscratch = 0, scause = 0, stval = 0, tp = 0\<rparr>"

definition zero_context :: kcontext where
  "zero_context = \<lparr>ctx_ra = 0, ctx_sp = 0, ctx_s0 = 0, ctx_s1 = 0, ctx_s2 = 0, ctx_s3 = 0,
     ctx_s4 = 0, ctx_s5 = 0, ctx_s6 = 0, ctx_s7 = 0, ctx_s8 = 0, ctx_s9 = 0, ctx_s10 = 0, ctx_s11 = 0\<rparr>"

definition zero_cpu :: cpu where
  "zero_cpu = \<lparr>cpu_proc = None, cpu_context = zero_context, noff = 0, intena = False\<rparr>"

definition zero_lock :: spinlock where
  "zero_lock = \<lparr>locked = False, lk_name = [], lk_cpu = None\<rparr>"

definition zero_mach :: mach where
  "zero_mach = \<lparr>this_hart = 0, harts = (\<lambda>_. zero_hart), cpus = (\<lambda>_. zero_cpu), locks = (\<lambda>_. zero_lock)\<rparr>"

lemma zero_mach_ok [simp]: "cpu_ok zero_mach" "lock_free l zero_mach"
  by (simp_all add: cpu_ok_def lock_free_def intr_get_bit mach_defs zero_mach_def zero_cpu_def
      zero_hart_def zero_lock_def)

theorem push_pop_matched_witness:
  "wp (repeatk 3 push_off) (\<lambda>_ t. \<not> intr_get t \<and> noff (mycpu t) = 3
    \<and> wp (repeatk 3 pop_off) (\<lambda>_ u. intr_get u = intr_get zero_mach \<and> noff (mycpu u) = 0) t) zero_mach"
proof -
  have "noff (mycpu zero_mach) = 0" by (simp add: mach_defs zero_mach_def zero_cpu_def)
  then show ?thesis using push_pop_matched [of zero_mach 3] by simp
qed

section \<open>Mutual exclusion\<close>

text \<open>
  The atomic steps of \<^verbatim>\<open>acquire\<close> and \<^verbatim>\<open>release\<close> on one lock, interleaved over all harts.
  \<open>PcOut\<close>: outside; \<open>PcSpin\<close>: past \<^verbatim>\<open>push_off\<close> and the \<^verbatim>\<open>holding\<close> check, at the
  test-and-set; \<open>PcWon\<close>: the swap returned 0 and \<^verbatim>\<open>lk->cpu\<close> is not yet written;
  \<open>PcCrit\<close>: \<^verbatim>\<open>acquire\<close> has returned; \<open>PcDrop\<close>: \<^verbatim>\<open>release\<close> has cleared \<^verbatim>\<open>lk->cpu\<close>
  and not yet \<^verbatim>\<open>lk->locked\<close>; \<open>PcPanic\<close>: the hart panicked.
\<close>

datatype lpc = PcOut | PcSpin | PcWon | PcCrit | PcDrop | PcPanic

record lsys =
  lk :: spinlock
  pcs :: "nat \<Rightarrow> lpc"

definition holds :: "spinlock \<Rightarrow> nat \<Rightarrow> bool" where
  \<comment> \<open>\<^verbatim>\<open>holding(lk)\<close> as hart \<open>i\<close> evaluates it, with no synchronisation\<close>
  "holds k i = (locked k \<and> lk_cpu k = Some i)"

definition set_pc :: "lsys \<Rightarrow> nat \<Rightarrow> lpc \<Rightarrow> lsys" where
  "set_pc s i p = s\<lparr>pcs := (pcs s)(i := p)\<rparr>"

inductive lstep :: "lsys \<Rightarrow> lsys \<Rightarrow> bool" where
  acq_enter: "pcs s i \<in> {PcOut, PcCrit} \<Longrightarrow> \<not> holds (lk s) i \<Longrightarrow> lstep s (set_pc s i PcSpin)"
| acq_panic: "pcs s i \<in> {PcOut, PcCrit} \<Longrightarrow> holds (lk s) i \<Longrightarrow> lstep s (set_pc s i PcPanic)"
| acq_spin: "pcs s i = PcSpin \<Longrightarrow> locked (lk s) \<Longrightarrow> lstep s s"
| acq_swap: "pcs s i = PcSpin \<Longrightarrow> \<not> locked (lk s) \<Longrightarrow>
     lstep s ((set_pc s i PcWon)\<lparr>lk := (lk s)\<lparr>locked := True\<rparr>\<rparr>)"
| acq_cpu: "pcs s i = PcWon \<Longrightarrow>
     lstep s ((set_pc s i PcCrit)\<lparr>lk := (lk s)\<lparr>lk_cpu := Some i\<rparr>\<rparr>)"
| rel_panic: "pcs s i \<in> {PcOut, PcCrit} \<Longrightarrow> \<not> holds (lk s) i \<Longrightarrow> lstep s (set_pc s i PcPanic)"
| rel_cpu: "pcs s i \<in> {PcOut, PcCrit} \<Longrightarrow> holds (lk s) i \<Longrightarrow>
     lstep s ((set_pc s i PcDrop)\<lparr>lk := (lk s)\<lparr>lk_cpu := None\<rparr>\<rparr>)"
| rel_unlock: "pcs s i = PcDrop \<Longrightarrow>
     lstep s ((set_pc s i PcOut)\<lparr>lk := (lk s)\<lparr>locked := False\<rparr>\<rparr>)"

inductive lreach :: "lsys \<Rightarrow> bool" where
  start: "lreach \<lparr>lk = zero_lock, pcs = (\<lambda>_. PcOut)\<rparr>"
| step: "lreach s \<Longrightarrow> lstep s t \<Longrightarrow> lreach t"

text \<open>
  The invariant: a hart that has won the swap and not yet undone it is unique, and it
  exists whenever the lock word is set, unless the holder panicked; \<^verbatim>\<open>lk->cpu\<close> names
  exactly the hart inside the critical section or one that panicked there.
\<close>

definition inside :: "lpc \<Rightarrow> bool" where
  "inside p \<longleftrightarrow> p = PcWon \<or> p = PcCrit \<or> p = PcDrop"

definition linv :: "lsys \<Rightarrow> bool" where
  "linv s \<longleftrightarrow> (\<forall>i. inside (pcs s i) \<longrightarrow> locked (lk s))
     \<and> (\<forall>i j. inside (pcs s i) \<longrightarrow> inside (pcs s j) \<longrightarrow> i = j)
     \<and> (\<forall>i. lk_cpu (lk s) = Some i \<longrightarrow> pcs s i = PcCrit \<or> pcs s i = PcPanic)
     \<and> (\<forall>i. pcs s i = PcCrit \<longrightarrow> lk_cpu (lk s) = Some i)
     \<and> (\<forall>i j. lk_cpu (lk s) = Some i \<longrightarrow> inside (pcs s j) \<longrightarrow> i = j)
     \<and> (\<forall>i. lk_cpu (lk s) = Some i \<longrightarrow> locked (lk s))"

lemma linv_drop: "linv s \<Longrightarrow> pcs s i = PcDrop \<Longrightarrow> lk_cpu (lk s) = None"
  by (cases "lk_cpu (lk s)") (auto simp: linv_def inside_def)

lemma lstep_inv: "lstep s t \<Longrightarrow> linv s \<Longrightarrow> linv t"
proof (induction rule: lstep.induct)
  case (rel_unlock s i)
  then have "lk_cpu (lk s) = None" by (intro linv_drop)
  then show ?case using rel_unlock
    by (auto simp: linv_def inside_def set_pc_def split: if_splits)
qed (auto simp: linv_def inside_def set_pc_def holds_def split: if_splits)

lemma rtranclp_3: "r a b \<Longrightarrow> r b c \<Longrightarrow> r c d \<Longrightarrow> r\<^sup>*\<^sup>* a d"
  by (auto intro: rtranclp.rtrancl_into_rtrancl)

lemma acquire_steps:
  assumes "cpu_ok s" "lock_free l s" "pcs c (cpuid s) = PcOut" "lk c = locks s l"
  shows "\<exists>d. lstep\<^sup>*\<^sup>* c d \<and> pcs d (cpuid s) = PcCrit \<and> lk d = locks (acq l s) l"
proof -
  let ?i = "cpuid s"
  let ?c1 = "set_pc c ?i PcSpin"
  let ?c2 = "(set_pc ?c1 ?i PcWon)\<lparr>lk := (lk c)\<lparr>locked := True\<rparr>\<rparr>"
  let ?c3 = "(set_pc ?c2 ?i PcCrit)\<lparr>lk := (lk ?c2)\<lparr>lk_cpu := Some ?i\<rparr>\<rparr>"
  have free: "\<not> locked (lk c)" using assms(2,4) by (simp add: lock_free_def)
  have "lstep c ?c1" using assms(3) free by (intro acq_enter) (simp_all add: holds_def)
  moreover have "lstep ?c1 ?c2"
    using acq_swap [of ?c1 ?i] free by (simp add: set_pc_def)
  moreover have "lstep ?c2 ?c3" by (rule acq_cpu) (simp add: set_pc_def)
  ultimately have "lstep\<^sup>*\<^sup>* c ?c3" by (rule rtranclp_3)
  then show ?thesis using assms(4)
    by (intro exI [of _ ?c3]) (simp add: set_pc_def acq_def mach_defs)
qed

lemma lreach_inv: "lreach s \<Longrightarrow> linv s"
proof (induction rule: lreach.induct)
  case start
  then show ?case by (simp add: linv_def inside_def zero_lock_def)
next
  case (step s t)
  then show ?case by (blast intro: lstep_inv)
qed

text \<open>
  C3.  Mutual exclusion of \<^verbatim>\<open>acquire\<close>/\<^verbatim>\<open>release\<close> under every interleaving of the harts:
  at most one hart is between the return of \<^verbatim>\<open>acquire\<close> and its \<^verbatim>\<open>release\<close>, the
  unsynchronised \<^verbatim>\<open>holding(lk)\<close> is true for exactly that hart (among those that have not
  panicked), and while it is inside no other hart can win the swap.
\<close>

theorem spinlock_mutual_exclusion:
  assumes "lreach s" "pcs s i = PcCrit"
  shows "(\<forall>j. pcs s j = PcCrit \<longrightarrow> j = i)
    \<and> (\<forall>j. pcs s j \<noteq> PcPanic \<longrightarrow> (holds (lk s) j \<longleftrightarrow> j = i))
    \<and> (\<forall>t j. lstep s t \<longrightarrow> pcs t j = PcWon \<longrightarrow> pcs s j = PcWon)"
proof -
  have inv: "linv s" using assms(1) by (rule lreach_inv)
  have lkd: "locked (lk s)" "lk_cpu (lk s) = Some i"
    using inv assms(2) by (auto simp: linv_def inside_def)
  have "pcs s j = PcWon" if "lstep s t" "pcs t j = PcWon" for t j
    using that lkd by (induction rule: lstep.induct) (auto simp: set_pc_def split: if_splits)
  moreover have "\<forall>j. pcs s j = PcCrit \<longrightarrow> j = i" using inv assms(2) by (auto simp: linv_def inside_def)
  moreover have "\<forall>j. holds (lk s) j \<longleftrightarrow> j = i" using lkd by (auto simp: holds_def)
  ultimately show ?thesis by blast
qed

theorem spinlock_mutual_exclusion_witness:
  "\<exists>s. lreach s \<and> pcs s 0 = PcCrit \<and> pcs s 1 = PcSpin \<and> \<not> holds (lk s) 1 \<and> holds (lk s) 0"
proof -
  let ?s0 = "\<lparr>lk = zero_lock, pcs = (\<lambda>_. PcOut)\<rparr>"
  let ?s1 = "set_pc ?s0 1 PcSpin"
  let ?s2 = "set_pc ?s1 0 PcSpin"
  let ?s3 = "(set_pc ?s2 0 PcWon)\<lparr>lk := (lk ?s2)\<lparr>locked := True\<rparr>\<rparr>"
  let ?s4 = "(set_pc ?s3 0 PcCrit)\<lparr>lk := (lk ?s3)\<lparr>lk_cpu := Some 0\<rparr>\<rparr>"
  have "lreach ?s1" by (rule lreach.step [OF lreach.start]) (rule acq_enter, simp_all add: holds_def zero_lock_def)
  then have "lreach ?s2" by (rule lreach.step) (rule acq_enter, simp_all add: holds_def zero_lock_def set_pc_def)
  then have "lreach ?s3" by (rule lreach.step) (rule acq_swap, simp_all add: zero_lock_def set_pc_def)
  then have r: "lreach ?s4" by (rule lreach.step) (rule acq_cpu, simp add: set_pc_def)
  have pc: "pcs ?s4 0 = PcCrit" "pcs ?s4 1 = PcSpin" by (simp_all add: set_pc_def)
  from spinlock_mutual_exclusion [OF r pc(1)]
  have "\<forall>j. pcs ?s4 j \<noteq> PcPanic \<longrightarrow> (holds (lk ?s4) j \<longleftrightarrow> j = 0)" by blast
  then have "holds (lk ?s4) 0" "\<not> holds (lk ?s4) 1" using pc by simp_all
  then show ?thesis using r pc by blast
qed

end
