(* ===== verification/Kalloc.thy ===== *)
theory Kalloc
  imports Spinlock Cstring
begin

text \<open>
  \<^verbatim>\<open>kernel/kalloc.c\<close>: the physical page allocator.  Free pages form a singly linked list
  threaded through the pages themselves, so the model keeps physical memory as a map from
  addresses to bytes and the list as pointers stored in it.  The symbol \<^verbatim>\<open>end\<close>, set by the
  linker script, is the field \<open>kend\<close> of the state.

  The lemmas relate the list in memory to a list of page addresses (\<open>kmem_inv\<close>): \<^verbatim>\<open>kalloc\<close>
  pops it, \<^verbatim>\<open>kfree\<close> pushes onto it, \<^verbatim>\<open>kinit\<close> puts every page from \<^verbatim>\<open>end\<close> to
  \<^verbatim>\<open>PHYSTOP\<close> on it, and none of them changes memory outside the page it is about.
\<close>

section \<open>State and operations\<close>

record kmem = mach +
  mem :: mem
  freelist :: uint64
  kend :: uint64

definition kfree :: "uint64 \<Rightarrow> ('a kmem_scheme, unit) kmon" where
  "kfree pa =
     bnd (gets kend) (\<lambda>end.
     if pa mod PGSIZE \<noteq> 0 \<or> pa < end \<or> PHYSTOP \<le> pa then panic ''kfree''
     else
       bnd (modify (\<lambda>s. s\<lparr>mem := memset (mem s) pa 1 4096\<rparr>)) (\<lambda>_.
       bnd (acquire LkKmem) (\<lambda>_.
       bnd (gets freelist) (\<lambda>fl.
       bnd (modify (\<lambda>s. s\<lparr>mem := store64 (mem s) pa fl\<rparr>)) (\<lambda>_.
       bnd (modify (\<lambda>s. s\<lparr>freelist := pa\<rparr>)) (\<lambda>_.
       release LkKmem))))))"

definition kalloc :: "('a kmem_scheme, uint64) kmon" where
  "kalloc =
     bnd (acquire LkKmem) (\<lambda>_.
     bnd (gets freelist) (\<lambda>r.
     bnd (whenk (r \<noteq> 0) (modify (\<lambda>s. s\<lparr>freelist := load64 (mem s) r\<rparr>))) (\<lambda>_.
     bnd (release LkKmem) (\<lambda>_.
     bnd (whenk (r \<noteq> 0) (modify (\<lambda>s. s\<lparr>mem := memset (mem s) r 5 4096\<rparr>))) (\<lambda>_.
     ret r)))))"

lemma unat_next_page:
  "unat p + 4096 \<le> unat (e :: uint64) \<Longrightarrow> unat (p + PGSIZE) = unat p + 4096"
  using unat_lt64 [of e] by (simp add: PGSIZE_def unat_word_ariths)

function freerange_loop :: "uint64 \<Rightarrow> uint64 \<Rightarrow> ('a kmem_scheme, unit) kmon" where
  \<comment> \<open>\<^verbatim>\<open>for(; p + PGSIZE <= pa_end; p += PGSIZE)\<close>; the sum of a pointer and an offset does
      not wrap in C, so the comparison is between the natural numbers\<close>
  "freerange_loop p pa_end =
     (if unat p + 4096 \<le> unat pa_end
      then bnd (kfree p) (\<lambda>_. freerange_loop (p + PGSIZE) pa_end)
      else ret ())"
  by auto

termination
  by (relation "measure (\<lambda>(p, e). unat e - unat p)") (auto simp: unat_next_page)

declare freerange_loop.simps [simp del]

definition freerange :: "uint64 \<Rightarrow> uint64 \<Rightarrow> ('a kmem_scheme, unit) kmon" where
  "freerange pa_start pa_end = freerange_loop (PGROUNDUP pa_start) pa_end"

definition kinit :: "('a kmem_scheme, unit) kmon" where
  "kinit =
     bnd (initlock LkKmem ''kmem'') (\<lambda>_.
     bnd (gets kend) (\<lambda>end. freerange end PHYSTOP))"

section \<open>Locks and the memory fields are independent\<close>

lemma acq_kmem [simp]:
  "mem (acq l s) = mem s" "freelist (acq l s) = freelist s" "kend (acq l s) = kend s"
  "mem_update f (acq l s) = acq l (mem_update f s)"
  "freelist_update g (acq l s) = acq l (freelist_update g s)"
  by (simp_all add: acq_def mach_defs)

lemma mem_freelist_commute [simp]:
  "mem_update f (freelist_update g s) = freelist_update g (mem_update f s)"
  by simp

lemma cpu_ok_kmem [simp]:
  "cpu_ok (mem_update f s) = cpu_ok s" "cpu_ok (freelist_update g s) = cpu_ok s"
  by (simp_all add: cpu_ok_def intr_get_def mach_defs)

lemma lock_free_kmem [simp]:
  "lock_free l (mem_update f s) = lock_free l s" "lock_free l (freelist_update g s) = lock_free l s"
  by (simp_all add: lock_free_def)

section \<open>The free list\<close>

definition phys_page :: "'a kmem_scheme \<Rightarrow> uint64 \<Rightarrow> bool" where
  \<comment> \<open>the pages \<^verbatim>\<open>kfree\<close> accepts\<close>
  "phys_page s p \<longleftrightarrow> page_aligned p \<and> kend s \<le> p \<and> p < PHYSTOP"

fun linked :: "mem \<Rightarrow> uint64 \<Rightarrow> uint64 list \<Rightarrow> bool" where
  "linked m p [] \<longleftrightarrow> p = 0"
| "linked m p (x # xs) \<longleftrightarrow> p = x \<and> p \<noteq> 0 \<and> linked m (load64 m p) xs"

definition kmem_inv :: "'a kmem_scheme \<Rightarrow> uint64 list \<Rightarrow> bool" where
  "kmem_inv s ps \<longleftrightarrow> linked (mem s) (freelist s) ps \<and> distinct ps
     \<and> (\<forall>p \<in> set ps. phys_page s p) \<and> 0 < kend s"

definition kmem_ready :: "'a kmem_scheme \<Rightarrow> bool" where
  \<comment> \<open>the allocator's lock can be taken by this CPU\<close>
  "kmem_ready s \<longleftrightarrow> cpu_ok s \<and> lock_free LkKmem s"

lemma kmem_ready_upd [simp]:
  "kmem_ready (mem_update f s) = kmem_ready s" "kmem_ready (freelist_update g s) = kmem_ready s"
  by (simp_all add: kmem_ready_def)

lemma phys_page_upd [simp]:
  "phys_page (mem_update f s) = phys_page s" "phys_page (freelist_update g s) = phys_page s"
  by (auto simp: phys_page_def)

lemma phys_page_aligned: "phys_page s p \<Longrightarrow> page_aligned p"
  by (simp add: phys_page_def)

lemma linked_cong:
  "(\<And>p. p \<in> set xs \<Longrightarrow> load64 m p = load64 m' p) \<Longrightarrow> linked m a xs = linked m' a xs"
  by (induction xs arbitrary: a) auto

lemma linked_unique: "linked m a xs \<Longrightarrow> linked m a ys \<Longrightarrow> xs = ys"
proof (induction xs arbitrary: a ys)
  case Nil
  then show ?case by (cases ys) auto
next
  case (Cons x xs)
  then show ?case by (cases ys) auto
qed

lemma load64_outside_page:
  assumes "page_aligned p" "page_aligned q" "p \<noteq> q" "\<And>x. \<not> in_range q 4096 x \<Longrightarrow> m' x = m x"
  shows "load64 m' p = load64 m p"
proof (rule load64_cong)
  fix x assume "in_range p 8 x"
  then have "in_range p 4096 x" by (rule in_range_mono) simp
  then have "\<not> in_range q 4096 x" using assms(1-3) pages_disjoint by blast
  then show "m' x = m x" by (rule assms(4))
qed

text \<open>Memory changes outside the free pages keep the list.\<close>

lemma kmem_inv_frame:
  assumes "kmem_inv s ps" "\<And>p x. p \<in> set ps \<Longrightarrow> in_range p 4096 x \<Longrightarrow> m x = mem s x"
  shows "kmem_inv (s\<lparr>mem := m\<rparr>) ps"
proof -
  have "load64 m p = load64 (mem s) p" if "p \<in> set ps" for p
    using assms(2) [OF that] by (intro load64_cong) (blast intro: in_range_mono [of p 8 _ 4096, simplified])
  then show ?thesis
    using assms(1) linked_cong [of ps m "mem s"] by (simp add: kmem_inv_def)
qed

section \<open>Closed forms\<close>

lemma kfree_eq:
  assumes "kmem_ready s" "phys_page s pa"
  shows "kfree pa s =
    Ok () (s\<lparr>mem := store64 (memset (mem s) pa 1 4096) pa (freelist s), freelist := pa\<rparr>)"
  using assms
  by (auto simp: kfree_def kmem_ready_def phys_page_def page_aligned_def)

lemma kfree_panic:
  "\<not> phys_page s pa \<Longrightarrow> kfree pa s = Panic ''kfree''"
  by (auto simp: kfree_def phys_page_def page_aligned_def not_le not_less)

lemma kalloc_eq:
  assumes "kmem_ready s"
  shows "kalloc s = (let r = freelist s in
    if r = 0 then Ok 0 s
    else Ok r (s\<lparr>mem := memset (mem s) r 5 4096, freelist := load64 (mem s) r\<rparr>))"
  using assms by (simp add: kalloc_def kmem_ready_def Let_def)

lemma kalloc_empty: "kmem_ready s \<Longrightarrow> kmem_inv s [] \<Longrightarrow> kalloc s = Ok 0 s"
  by (simp add: kalloc_eq kmem_inv_def)

lemma kalloc_Cons:
  assumes "kmem_ready s" "kmem_inv s (p # ps)"
  shows "kalloc s = Ok p (s\<lparr>mem := memset (mem s) p 5 4096, freelist := load64 (mem s) p\<rparr>)"
    and "kmem_inv (s\<lparr>mem := memset (mem s) p 5 4096, freelist := load64 (mem s) p\<rparr>) ps"
proof -
  show "kalloc s = Ok p (s\<lparr>mem := memset (mem s) p 5 4096, freelist := load64 (mem s) p\<rparr>)"
    using assms by (auto simp: kalloc_eq kmem_inv_def)
  let ?m = "memset (mem s) p 5 4096"
  have "load64 ?m q = load64 (mem s) q" if "q \<in> set ps" for q
    using assms(2) that
    by (intro load64_outside_page [of q p]) (auto simp: kmem_inv_def phys_page_def memset_eq)
  then show "kmem_inv (s\<lparr>mem := ?m, freelist := load64 (mem s) p\<rparr>) ps"
    using assms(2) linked_cong [of ps ?m "mem s"] by (auto simp: kmem_inv_def)
qed

lemma kfree_mem_outside:
  "\<not> in_range pa 4096 x \<Longrightarrow> store64 (memset m pa 1 4096) pa v x = m x"
  by (subst store64_outside) (auto simp: memset_eq dest: in_range_mono [of pa 8 x 4096])

lemma kfree_Cons:
  assumes "kmem_inv s ps" "phys_page s pa" "pa \<notin> set ps"
  shows "kmem_inv (s\<lparr>mem := store64 (memset (mem s) pa 1 4096) pa (freelist s), freelist := pa\<rparr>) (pa # ps)"
proof -
  let ?m = "store64 (memset (mem s) pa 1 4096) pa (freelist s)"
  have "load64 ?m q = load64 (mem s) q" if "q \<in> set ps" for q
    using assms that
    by (intro load64_outside_page [of q pa]) (auto simp: kmem_inv_def phys_page_def kfree_mem_outside)
  moreover have "pa \<noteq> 0" using assms(1,2) by (auto simp: kmem_inv_def phys_page_def)
  ultimately show ?thesis
    using assms linked_cong [of ps ?m "mem s"] by (simp add: kmem_inv_def)
qed

section \<open>The allocator's contract\<close>

text \<open>
  What the rest of the kernel relies on: the free pages are a list of distinct valid pages,
  \<open>alloc\<close> takes its head, \<open>free\<close> puts a valid page that is not free back.
\<close>

locale page_allocator =
  fixes alloc :: "('s, uint64) kmon"
    and free :: "uint64 \<Rightarrow> ('s, unit) kmon"
    and ready :: "'s \<Rightarrow> bool"
    and pages :: "'s \<Rightarrow> uint64 list \<Rightarrow> bool"
    and valid :: "'s \<Rightarrow> uint64 \<Rightarrow> bool"
  assumes pages_unique: "pages s ps \<Longrightarrow> pages s qs \<Longrightarrow> ps = qs"
    and pages_ok: "pages s ps \<Longrightarrow> distinct ps \<and> (\<forall>p \<in> set ps. valid s p \<and> p \<noteq> 0)"
    and alloc_nil: "ready s \<Longrightarrow> pages s [] \<Longrightarrow> alloc s = Ok 0 s"
    and alloc_cons: "ready s \<Longrightarrow> pages s (p # ps) \<Longrightarrow>
      wp alloc (\<lambda>r t. r = p \<and> ready t \<and> pages t ps \<and> valid t = valid s) s"
    and free_cons: "ready s \<Longrightarrow> pages s ps \<Longrightarrow> valid s p \<Longrightarrow> p \<notin> set ps \<Longrightarrow>
      wp (free p) (\<lambda>_ t. ready t \<and> pages t (p # ps) \<and> valid t = valid s) s"
begin

text \<open>
  A client owns the pages it was handed and has not given back.  Together with the free
  pages they partition a fixed set \<open>V\<close>.
\<close>

definition partition :: "uint64 set \<Rightarrow> 's \<Rightarrow> uint64 set \<Rightarrow> bool" where
  "partition V s owned \<longleftrightarrow> ready s \<and> (\<exists>ps. pages s ps \<and> set ps \<inter> owned = {} \<and> set ps \<union> owned = V)
     \<and> (\<forall>p \<in> V. valid s p)"

lemma alloc_partition:
  assumes "partition V s owned"
  shows "wp alloc (\<lambda>r t. if r = 0 then t = s \<and> owned = V
      else r \<in> V - owned \<and> partition V t (insert r owned)) s"
proof -
  from assms obtain ps where ps: "pages s ps" "set ps \<inter> owned = {}" "set ps \<union> owned = V"
    and r: "ready s" "\<forall>p \<in> V. valid s p" by (auto simp: partition_def)
  show ?thesis
  proof (cases ps)
    case Nil
    then show ?thesis using ps r alloc_nil [of s] by (simp add: wp_def)
  next
    case (Cons p qs)
    then have "p \<noteq> 0" "distinct (p # qs)" using pages_ok [OF ps(1)] by auto
    moreover have "wp alloc (\<lambda>r t. r = p \<and> ready t \<and> pages t qs \<and> valid t = valid s) s"
      using Cons ps(1) r(1) by (intro alloc_cons) simp_all
    moreover have "partition V t (insert p owned)"
      if "ready t" "pages t qs" "valid t = valid s" "distinct (p # qs)" for t
      unfolding partition_def using that ps r Cons by (intro conjI exI [of _ qs]) auto
    ultimately show ?thesis using ps Cons by (elim wp_mono) auto
  qed
qed

lemma free_partition:
  assumes "partition V s owned" "p \<in> owned"
  shows "wp (free p) (\<lambda>_ t. partition V t (owned - {p})) s"
proof -
  from assms obtain ps where ps: "pages s ps" "set ps \<inter> owned = {}" "set ps \<union> owned = V"
    and r: "ready s" "\<forall>p \<in> V. valid s p" by (auto simp: partition_def)
  then have "wp (free p) (\<lambda>_ t. ready t \<and> pages t (p # ps) \<and> valid t = valid s) s"
    using assms(2) by (intro free_cons) auto
  moreover have "partition V t (owned - {p})"
    if "ready t \<and> pages t (p # ps) \<and> valid t = valid s" for t
    unfolding partition_def using that ps r assms(2)
    by (intro conjI exI [of _ "p # ps"]) auto
  ultimately show ?thesis by (rule wp_mono)
qed

end

interpretation kmem: page_allocator kalloc kfree kmem_ready kmem_inv phys_page
proof
  fix s :: "'a kmem_scheme" and ps qs p
  show "kmem_inv s ps \<Longrightarrow> kmem_inv s qs \<Longrightarrow> ps = qs"
    by (auto simp: kmem_inv_def intro: linked_unique)
  show "kmem_inv s ps \<Longrightarrow> distinct ps \<and> (\<forall>p\<in>set ps. phys_page s p \<and> p \<noteq> 0)"
    by (auto simp: kmem_inv_def phys_page_def)
  show "kmem_ready s \<Longrightarrow> kmem_inv s [] \<Longrightarrow> kalloc s = Ok 0 s"
    by (rule kalloc_empty)
  show "kmem_ready s \<Longrightarrow> kmem_inv s (p # ps) \<Longrightarrow>
      wp kalloc (\<lambda>r t. r = p \<and> kmem_ready t \<and> kmem_inv t ps \<and> phys_page t = phys_page s) s"
    using kalloc_Cons [of s p ps] by (simp add: wp_def)
  show "kmem_ready s \<Longrightarrow> kmem_inv s ps \<Longrightarrow> phys_page s p \<Longrightarrow> p \<notin> set ps \<Longrightarrow>
      wp (kfree p) (\<lambda>_ t. kmem_ready t \<and> kmem_inv t (p # ps) \<and> phys_page t = phys_page s) s"
    using kfree_Cons [of s ps p] by (simp add: wp_def kfree_eq)
qed

section \<open>Boot\<close>

lemma page_next_le:
  assumes "page_aligned p" "page_aligned q" "p < q"
  shows "unat p + 4096 \<le> unat q"
proof -
  obtain i j where "unat p = 4096 * i" "unat q = 4096 * j"
    using assms by (auto simp: page_aligned_iff elim!: dvdE)
  then show ?thesis using assms(3) by (simp add: word_less_nat_alt)
qed

lemma PHYSTOP_aligned [simp]: "page_aligned PHYSTOP"
  by (simp add: page_aligned_def const_defs)

lemma page_aligned_next: "page_aligned p \<Longrightarrow> page_aligned (p + PGSIZE)"
  by (simp add: page_aligned_iff PGSIZE_def unat_word_ariths dvd_mod)

lemma pages_from:
  assumes "page_aligned p" "p < PHYSTOP"
  shows "{q. page_aligned q \<and> p \<le> q \<and> q < PHYSTOP}
    = insert p {q. page_aligned q \<and> p + PGSIZE \<le> q \<and> q < PHYSTOP}"
proof -
  have n: "unat (p + PGSIZE) = unat p + 4096"
    using assms by (intro unat_next_page [of p PHYSTOP] page_next_le) simp_all
  have "p \<le> q \<longleftrightarrow> p = q \<or> p + PGSIZE \<le> q" if "page_aligned q" for q
    using page_next_le [OF assms(1) that] n by (auto simp: word_le_nat_alt word_less_nat_alt word_unat_eq_iff order_le_less)
  then show ?thesis using assms by auto
qed

lemma freerange_loop_pages:
  assumes "kmem_ready s" "kmem_inv s ps" "page_aligned p" "kend s \<le> p" "\<forall>q \<in> set ps. q < p"
  shows "wp (freerange_loop p PHYSTOP) (\<lambda>_ t. kmem_ready t \<and> kend t = kend s
    \<and> (\<exists>qs. kmem_inv t qs
        \<and> set qs = set ps \<union> {q. page_aligned q \<and> p \<le> q \<and> q < PHYSTOP})) s"
  using assms
proof (induction p "PHYSTOP" arbitrary: s ps rule: freerange_loop.induct)
  case (1 p)
  show ?case
  proof (cases "p < PHYSTOP")
    case True
    then have le: "unat p + 4096 \<le> unat PHYSTOP" using 1 by (simp add: page_next_le)
    then have n: "unat (p + PGSIZE) = unat p + 4096" by (rule unat_next_page)
    have pg: "phys_page s p" using 1 True by (simp add: phys_page_def)
    have "p \<notin> set ps" using 1 by auto
    let ?t = "s\<lparr>mem := store64 (memset (mem s) p 1 4096) p (freelist s), freelist := p\<rparr>"
    have "wp (freerange_loop (p + PGSIZE) PHYSTOP) (\<lambda>_ t. kmem_ready t \<and> kend t = kend ?t
      \<and> (\<exists>qs. kmem_inv t qs \<and> set qs = set (p # ps)
          \<union> {q. page_aligned q \<and> p + PGSIZE \<le> q \<and> q < PHYSTOP})) ?t"
      using 1 n le pg \<open>p \<notin> set ps\<close>
      by (intro "1.hyps") (auto simp: kfree_Cons word_le_nat_alt word_less_nat_alt page_aligned_next)
    moreover have "kfree p s = Ok () ?t" using "1.prems"(1) pg by (rule kfree_eq)
    ultimately show ?thesis
      using le by (subst freerange_loop.simps) (simp add: wp_def pages_from [OF "1.prems"(3) True])
  next
    case False
    then have "{q. page_aligned q \<and> p \<le> q \<and> q < PHYSTOP} = {}" by auto
    moreover have "\<not> unat p + 4096 \<le> unat PHYSTOP" using False by (simp add: word_less_nat_alt)
    ultimately show ?thesis using "1.prems" by (subst freerange_loop.simps) auto
  qed
qed

lemma kend_PGROUNDUP:
  assumes "kend s \<le> PHYSTOP"
  shows "{q. page_aligned q \<and> PGROUNDUP (kend s) \<le> q \<and> q < PHYSTOP}
    = {q. page_aligned q \<and> kend s \<le> q \<and> q < PHYSTOP}" and "kend s \<le> PGROUNDUP (kend s)"
proof -
  have u: "unat (PGROUNDUP (kend s)) = 4096 * ((unat (kend s) + 4095) div 4096)"
    using assms by (intro unat_PGROUNDUP) (simp add: word_le_nat_alt const_defs)
  have "PGROUNDUP (kend s) \<le> q \<longleftrightarrow> kend s \<le> q" if "page_aligned q" for q
    using that by (auto simp: u word_le_nat_alt page_aligned_iff elim!: dvdE)
  then show "{q. page_aligned q \<and> PGROUNDUP (kend s) \<le> q \<and> q < PHYSTOP}
    = {q. page_aligned q \<and> kend s \<le> q \<and> q < PHYSTOP}" by auto
  show "kend s \<le> PGROUNDUP (kend s)" by (simp add: u word_le_nat_alt)
qed

definition zero_kmem :: kmem where
  \<comment> \<open>a concrete state before \<^verbatim>\<open>kinit\<close>, with a kernel of 128 KiB\<close>
  "zero_kmem = \<lparr>this_hart = 0, harts = (\<lambda>_. zero_hart), cpus = (\<lambda>_. zero_cpu),
     locks = (\<lambda>_. zero_lock), mem = (\<lambda>_. 0), freelist = 0, kend = 0x80020000\<rparr>"

lemma zero_kmem_simps [simp]:
  "cpu_ok zero_kmem" "lock_free l zero_kmem" "kmem_ready zero_kmem"
  "mem zero_kmem = (\<lambda>_. 0)" "freelist zero_kmem = 0" "kend zero_kmem = 0x80020000"
  "kmem_inv zero_kmem []"
  by (simp_all add: kmem_ready_def kmem_inv_def cpu_ok_def lock_free_def intr_get_bit mach_defs
      zero_kmem_def zero_cpu_def zero_hart_def zero_lock_def)

section \<open>Properties\<close>

text \<open>
  C37.  \<^verbatim>\<open>kalloc\<close> returns 0 and changes nothing when no page is free; otherwise it returns
  the first free page, filled with 5s, leaves the others free and changes no byte outside it.
\<close>

theorem kalloc_spec:
  assumes "kmem_ready s" "kmem_inv s ps"
  shows "wp kalloc (\<lambda>r t. case ps of
      [] \<Rightarrow> r = 0 \<and> t = s
    | p # qs \<Rightarrow> r = p \<and> kmem_inv t qs \<and> kmem_ready t
        \<and> (\<forall>x. mem t x = (if in_range p 4096 x then 5 else mem s x))) s"
proof (cases ps)
  case Nil
  then show ?thesis using assms kalloc_empty [of s] by (simp add: wp_def)
next
  case (Cons p qs)
  then show ?thesis using assms kalloc_Cons [of s p qs] by (simp add: wp_def memset_eq)
qed

text \<open>
  C38.  \<^verbatim>\<open>kfree(pa)\<close> panics unless \<open>pa\<close> is page aligned and in the range from \<^verbatim>\<open>end\<close> to
  \<^verbatim>\<open>PHYSTOP\<close>; a page that is not free already becomes the first free page, and no byte
  outside it changes.
\<close>

theorem kfree_spec:
  assumes "kmem_ready s" "kmem_inv s ps" "pa \<notin> set ps"
  shows "if page_aligned pa \<and> kend s \<le> pa \<and> pa < PHYSTOP
    then wp (kfree pa) (\<lambda>_ t. kmem_inv t (pa # ps) \<and> kmem_ready t
      \<and> (\<forall>x. \<not> in_range pa 4096 x \<longrightarrow> mem t x = mem s x)) s
    else kfree pa s = Panic ''kfree''"
proof (cases "phys_page s pa")
  case True
  have "wp (kfree pa) (\<lambda>_ t. kmem_inv t (pa # ps) \<and> kmem_ready t
      \<and> (\<forall>x. \<not> in_range pa 4096 x \<longrightarrow> mem t x = mem s x)) s"
    by (rule wpI [where m = "kfree pa", OF kfree_eq [OF assms(1) True]])
       (simp add: kfree_Cons [OF assms(2) True assms(3)] assms(1) kfree_mem_outside)
  then show ?thesis using True by (simp add: phys_page_def)
next
  case False
  then show ?thesis using kfree_panic [OF False] by (simp only: phys_page_def if_False)
qed

theorem kfree_spec_witness:
  "wp (kfree 0x80100000) (\<lambda>_ t. kmem_inv t [0x80100000] \<and> mem t 0x80200000 = 0) zero_kmem
   \<and> kfree 0x80100008 zero_kmem = Panic ''kfree''"
proof
  have "wp (kfree 0x80100000) (\<lambda>_ t. kmem_inv t [0x80100000] \<and> kmem_ready t
      \<and> (\<forall>x. \<not> in_range 0x80100000 4096 x \<longrightarrow> mem t x = mem zero_kmem x)) zero_kmem"
    using kfree_spec [of zero_kmem "[]" "0x80100000"] by (simp add: page_aligned_def const_defs)
  then show "wp (kfree 0x80100000) (\<lambda>_ t. kmem_inv t [0x80100000] \<and> mem t 0x80200000 = 0) zero_kmem"
    by (rule wp_mono) (simp add: in_range_nowrap)
  show "kfree 0x80100008 zero_kmem = Panic ''kfree''"
    using kfree_spec [of zero_kmem "[]" "0x80100008"] by (simp add: page_aligned_def const_defs)
qed

lemma one_page_inv:
  "kmem_inv (zero_kmem\<lparr>freelist := 0x80100000\<rparr>) [0x80100000]"
  by (simp add: kmem_inv_def phys_page_def page_aligned_def const_defs load64_def load_bytes_def
      upt_rec zero_kmem_def)

theorem kalloc_spec_witness:
  "wp kalloc (\<lambda>r t. r = 0x80100000 \<and> mem t 0x80100fff = 5 \<and> mem t 0x80101000 = 0)
     (zero_kmem\<lparr>freelist := 0x80100000\<rparr>)"
  using kalloc_spec [OF _ one_page_inv] by (auto simp: wp_iff in_range_nowrap)

text \<open>
  C26.  After \<^verbatim>\<open>kinit\<close> the free pages are exactly the aligned pages from \<^verbatim>\<open>end\<close> to
  \<^verbatim>\<open>PHYSTOP\<close>: none is lost and none is on the list twice.
\<close>

theorem kinit_frees_all:
  assumes "kmem_ready s" "freelist s = 0" "0 < kend s" "kend s \<le> PHYSTOP"
  shows "wp kinit (\<lambda>_ t. \<exists>ps. kmem_inv t ps \<and> distinct ps
    \<and> set ps = {p. page_aligned p \<and> kend s \<le> p \<and> p < PHYSTOP}) s"
proof -
  let ?s = "upd_lock LkKmem (\<lambda>_. \<lparr>locked = False, lk_name = ''kmem'', lk_cpu = None\<rparr>) s"
  have "kmem_ready ?s" "kmem_inv ?s []" "kend ?s = kend s"
    using assms by (auto simp: kmem_ready_def kmem_inv_def cpu_ok_def lock_free_def mach_defs intr_get_def)
  then have "wp (freerange_loop (PGROUNDUP (kend s)) PHYSTOP) (\<lambda>_ t. \<exists>ps. kmem_inv t ps
      \<and> distinct ps \<and> set ps = {p. page_aligned p \<and> kend s \<le> p \<and> p < PHYSTOP}) ?s"
    using freerange_loop_pages [of ?s "[]" "PGROUNDUP (kend s)"] kend_PGROUNDUP [of s] assms
    by (auto elim!: wp_mono simp: kmem_inv_def)
  then show ?thesis
    by (simp add: kinit_def freerange_def initlock_def mach_defs)
qed

theorem kinit_frees_all_witness:
  "wp kinit (\<lambda>_ t. \<exists>ps. kmem_inv t ps \<and> 0x87fff000 \<in> set ps \<and> 0x80000000 \<notin> set ps) zero_kmem"
proof -
  have "wp kinit (\<lambda>_ t. \<exists>ps. kmem_inv t ps \<and> distinct ps
      \<and> set ps = {p. page_aligned p \<and> kend zero_kmem \<le> p \<and> p < PHYSTOP}) zero_kmem"
    by (rule kinit_frees_all) (simp_all add: const_defs)
  then show ?thesis by (rule wp_mono) (auto simp: page_aligned_def const_defs)
qed

text \<open>
  A client of the allocator over time: it allocates, frees a page it owns, or writes
  anything into the pages it owns.  \<open>V\<close> is the set of pages free at the start.
\<close>

inductive page_client :: "uint64 set \<Rightarrow> 'a kmem_scheme \<Rightarrow> uint64 set \<Rightarrow> bool" where
  client_start: "kmem_ready s \<Longrightarrow> kmem_inv s ps \<Longrightarrow> page_client (set ps) s {}"
| client_alloc: "page_client V s own \<Longrightarrow> kalloc s = Ok p t \<Longrightarrow> p \<noteq> 0 \<Longrightarrow> page_client V t (insert p own)"
| client_free: "page_client V s own \<Longrightarrow> p \<in> own \<Longrightarrow> kfree p s = Ok () t \<Longrightarrow> page_client V t (own - {p})"
| client_write: "page_client V s own \<Longrightarrow>
    (\<And>x. (\<forall>p \<in> own. \<not> in_range p 4096 x) \<Longrightarrow> m x = mem s x) \<Longrightarrow> page_client V (s\<lparr>mem := m\<rparr>) own"

lemma partition_write:
  assumes "kmem.partition V s own" "\<And>x. (\<forall>p \<in> own. \<not> in_range p 4096 x) \<Longrightarrow> m x = mem s x"
  shows "kmem.partition V (s\<lparr>mem := m\<rparr>) own"
proof -
  from assms(1) obtain ps where ps: "kmem_inv s ps" "set ps \<inter> own = {}" "set ps \<union> own = V"
    and v: "\<forall>p \<in> V. phys_page s p" and r: "kmem_ready s" by (auto simp: kmem.partition_def)
  have "m x = mem s x" if "p \<in> set ps" "in_range p 4096 x" for p x
  proof (rule assms(2), rule ballI)
    fix q assume "q \<in> own"
    then have "phys_page s p" "phys_page s q" "p \<noteq> q" using that(1) ps v by auto
    then show "\<not> in_range q 4096 x" using that(2) pages_disjoint phys_page_aligned by blast
  qed
  then have "kmem_inv (s\<lparr>mem := m\<rparr>) ps" using ps(1) by (intro kmem_inv_frame)
  then show ?thesis using ps v r by (auto simp: kmem.partition_def)
qed

lemma page_client_partition: "page_client V s own \<Longrightarrow> kmem.partition V s own"
proof (induction rule: page_client.induct)
  case (client_start s ps)
  then show ?case using kmem.pages_ok [of s ps] by (auto simp: kmem.partition_def)
next
  case (client_alloc V s own p t)
  then show ?case using kmem.alloc_partition [OF client_alloc.IH] by (simp add: wp_def)
next
  case (client_free V s own p t)
  then show ?case using kmem.free_partition [OF client_free.IH client_free.hyps(2)] by (simp add: wp_def)
next
  case (client_write V s own m)
  then show ?case by (intro partition_write)
qed

text \<open>
  C2.  Whatever a client does with its pages, \<^verbatim>\<open>kalloc\<close> never hands out a page that is
  still owned and returns 0 only when every page is owned, and \<^verbatim>\<open>kfree\<close> of an owned page
  succeeds.
\<close>

theorem kalloc_never_aliases:
  assumes "page_client V s own"
  shows "(\<exists>r t. kalloc s = Ok r t \<and> r \<notin> own \<and> (r = 0 \<longleftrightarrow> own = V))
    \<and> (\<forall>p \<in> own. \<exists>t. kfree p s = Ok () t)"
proof -
  have part: "kmem.partition V s own" using assms by (rule page_client_partition)
  then have "0 \<notin> V" by (auto simp: kmem.partition_def phys_page_def kmem_inv_def Ball_def)
  then have "\<exists>r t. kalloc s = Ok r t \<and> r \<notin> own \<and> (r = 0 \<longleftrightarrow> own = V)"
    using kmem.alloc_partition [OF part] by (auto simp: wp_iff split: if_splits)
  moreover have "\<forall>p \<in> own. \<exists>t. kfree p s = Ok () t"
    using kmem.free_partition [OF part] by (auto simp: wp_iff)
  ultimately show ?thesis by blast
qed

theorem kalloc_never_aliases_witness:
  "\<exists>r t. kalloc (zero_kmem\<lparr>freelist := 0x80100000\<rparr>) = Ok r t \<and> r \<noteq> 0"
proof -
  have "page_client {0x80100000} (zero_kmem\<lparr>freelist := 0x80100000\<rparr>) {}"
    using client_start [OF _ one_page_inv] by simp
  from kalloc_never_aliases [OF this] show ?thesis by blast
qed

end
