(* ===== verification/Pagetable.thy ===== *)
theory Pagetable
  imports Kalloc
begin

text \<open>
  Sv39 page tables as they lie in memory, without the code that changes them: three levels
  of pages with 512 entries each.  \<open>tab m pt va d\<close> is the table page at depth \<open>d\<close> on the
  path of \<open>va\<close> (depth 0 is the root, depth 2 holds the leaf entries), \<open>leaf m pt va\<close> the
  leaf entry.  \<open>pt_tree\<close> says that the pages form a tree: two paths meet in a page only
  where their indices agree.  The lemmas say what a store to an entry does to all paths.
\<close>

definition pteaddr :: "uint64 \<Rightarrow> nat \<Rightarrow> uint64 \<Rightarrow> uint64" where
  \<comment> \<open>\<^verbatim>\<open>&pagetable[PX(level, va)]\<close>, at depth \<open>d = 2 - level\<close>\<close>
  "pteaddr p d va = p + 8 * PX (2 - d) va"

definition pte_valid :: "uint64 \<Rightarrow> bool" where
  "pte_valid pte \<longleftrightarrow> pte AND PTE_V \<noteq> 0"

fun tab :: "mem \<Rightarrow> uint64 \<Rightarrow> uint64 \<Rightarrow> nat \<Rightarrow> uint64 option" where
  "tab m pt va 0 = Some pt"
| "tab m pt va (Suc d) = (case tab m pt va d of None \<Rightarrow> None
     | Some p \<Rightarrow> (let pte = load64 m (pteaddr p d va)
                   in if pte_valid pte then Some (PTE2PA pte) else None))"

definition leaf :: "mem \<Rightarrow> uint64 \<Rightarrow> uint64 \<Rightarrow> uint64" where
  "leaf m pt va = (case tab m pt va 2 of None \<Rightarrow> 0 | Some p \<Rightarrow> load64 m (pteaddr p 2 va))"

definition agree :: "nat \<Rightarrow> uint64 \<Rightarrow> uint64 \<Rightarrow> bool" where
  \<comment> \<open>the same indices on the first \<open>d\<close> levels\<close>
  "agree d va va' \<longleftrightarrow> (\<forall>k<d. PX (2 - k) va = PX (2 - k) va')"

definition pt_tree :: "mem \<Rightarrow> uint64 \<Rightarrow> bool" where
  "pt_tree m pt \<longleftrightarrow> page_aligned pt \<and>
     (\<forall>va va' d d' p. d \<le> 2 \<longrightarrow> d' \<le> 2 \<longrightarrow> tab m pt va d = Some p \<longrightarrow> tab m pt va' d' = Some p
       \<longrightarrow> d = d' \<and> agree d va va')"

definition tabs :: "mem \<Rightarrow> uint64 \<Rightarrow> uint64 set" where
  "tabs m pt = {p. \<exists>va d. d \<le> 2 \<and> tab m pt va d = Some p}"

definition zero_page :: "mem \<Rightarrow> uint64 \<Rightarrow> bool" where
  "zero_page m p \<longleftrightarrow> (\<forall>x. in_range p 4096 x \<longrightarrow> m x = 0)"

definition same_pages :: "uint64 set \<Rightarrow> mem \<Rightarrow> mem \<Rightarrow> bool" where
  \<comment> \<open>the two memories agree on the pages of \<open>P\<close>\<close>
  "same_pages P m m' \<longleftrightarrow> (\<forall>p \<in> P. \<forall>x. in_range p 4096 x \<longrightarrow> m' x = m x)"

lemma PTE_V_valid [simp]: "pte_valid (x OR PTE_V)" "\<not> pte_valid 0"
  by (simp_all only: pte_valid_def and_flag_iff bit_or_iff flag_bits) simp_all

section \<open>Entry addresses\<close>

lemma unat_8PX: "unat (8 * PX l va) = 8 * unat (PX l va)"
  using PX_less [of l va] by (simp add: unat_word_ariths)

lemma pteaddr_in_page:
  assumes "page_aligned p"
  shows "in_range p 4096 (pteaddr p d va)" "in_range (pteaddr p d va) 8 x \<Longrightarrow> in_range p 4096 x"
proof -
  have lt: "unat (8 * PX (2 - d) va) \<le> 4088" using PX_less [of "2 - d" va] by (simp add: unat_8PX)
  then show "in_range p 4096 (pteaddr p d va)" by (simp add: in_range_def pteaddr_def)
  assume "in_range (pteaddr p d va) 8 x"
  then have "unat (x - p - 8 * PX (2 - d) va) < 8" by (simp add: in_range_def pteaddr_def algebra_simps)
  moreover have "x - p = (x - p - 8 * PX (2 - d) va) + 8 * PX (2 - d) va" by simp
  ultimately show "in_range p 4096 x"
    using lt unat_word_ariths(1) [of "x - p - 8 * PX (2 - d) va" "8 * PX (2 - d) va"]
    by (simp add: in_range_def)
qed

lemma pteaddr_aligned8: "page_aligned p \<Longrightarrow> unat (pteaddr p d va) mod 8 = 0"
proof -
  assume "page_aligned p"
  then obtain k where "unat p = 4096 * k" by (auto simp: page_aligned_iff elim: dvdE)
  then have "8 dvd unat p" by simp
  then have "8 dvd unat (pteaddr p d va)"
    by (simp add: pteaddr_def unat_word_ariths unat_8PX dvd_mod)
  then show ?thesis by simp
qed

lemma pteaddr_inj:
  assumes "page_aligned p" "page_aligned q" "pteaddr p d va = pteaddr q d' va'"
  shows "p = q \<and> PX (2 - d) va = PX (2 - d') va'"
proof
  show "p = q"
    using pteaddr_in_page(1) [OF assms(1), of d va] pteaddr_in_page(1) [OF assms(2), of d' va']
    by (auto simp: assms(3) intro: pages_disjoint [OF assms(1,2)])
  then have "8 * PX (2 - d) va = 8 * PX (2 - d') va'" using assms(3) by (simp add: pteaddr_def)
  then have "unat (8 * PX (2 - d) va) = unat (8 * PX (2 - d') va')" by simp
  then show "PX (2 - d) va = PX (2 - d') va'" by (simp add: unat_8PX word_unat_eq_iff)
qed

lemma load_store_pte:
  assumes "page_aligned p" "page_aligned q"
  shows "load64 (store64 m (pteaddr p d va) v) (pteaddr q d' va') =
    (if p = q \<and> PX (2 - d) va = PX (2 - d') va' then v else load64 m (pteaddr q d' va'))"
proof (cases "pteaddr p d va = pteaddr q d' va'")
  case True
  then show ?thesis using pteaddr_inj [OF assms True] by simp
next
  case False
  then have "\<not> (p = q \<and> PX (2 - d) va = PX (2 - d') va')" by (auto simp: pteaddr_def)
  then show ?thesis
    using load64_store64_other [of "pteaddr p d va" "pteaddr q d' va'"] assms False
    by (auto simp: pteaddr_aligned8)
qed

lemma load_pte_cong:
  assumes "page_aligned p" "same_pages {p} m m'"
  shows "load64 m' (pteaddr p d va) = load64 m (pteaddr p d va)"
  using assms(2) pteaddr_in_page(2) [OF assms(1)] by (intro load64_cong) (simp add: same_pages_def)

lemma load_pte_zero:
  assumes "page_aligned p" "zero_page m p"
  shows "load64 m (pteaddr p d va) = 0"
proof -
  have "load64 m (pteaddr p d va) = load64 (\<lambda>_. 0) (pteaddr p d va)"
    using assms by (intro load_pte_cong) (auto simp: zero_page_def same_pages_def)
  then show ?thesis by (simp add: load64_def load_bytes_def upt_rec)
qed

section \<open>Paths\<close>

lemma tab_aligned: "page_aligned pt \<Longrightarrow> tab m pt va d = Some p \<Longrightarrow> page_aligned p"
  by (cases d) (auto simp: Let_def split: option.splits if_splits)

lemma agree_Suc: "agree (Suc d) va va' \<longleftrightarrow> agree d va va' \<and> PX (2 - d) va = PX (2 - d) va'"
  by (auto simp: agree_def less_Suc_eq)

lemma agree_0 [simp]: "agree 0 va va'" by (simp add: agree_def)

lemma agree_sym: "agree d va va' = agree d va' va" by (auto simp: agree_def)

lemma agree_refl [simp]: "agree d va va" by (simp add: agree_def)

lemma tab_agree: "agree d va va' \<Longrightarrow> tab m pt va d = tab m pt va' d"
  by (induction d) (auto simp: agree_Suc pteaddr_def split: option.splits)

lemma pt_treeD:
  "pt_tree m pt \<Longrightarrow> tab m pt va d = Some p \<Longrightarrow> tab m pt va' d' = Some p \<Longrightarrow> d \<le> 2 \<Longrightarrow> d' \<le> 2
    \<Longrightarrow> d = d' \<and> agree d va va'"
  unfolding pt_tree_def by blast

lemma tabsI: "tab m pt va d = Some p \<Longrightarrow> d \<le> 2 \<Longrightarrow> p \<in> tabs m pt"
  by (auto simp: tabs_def)

lemma root_in_tabs [simp]: "pt \<in> tabs m pt"
  by (rule tabsI [of m pt 0 0]) simp_all

lemma tabs_aligned: "page_aligned pt \<Longrightarrow> p \<in> tabs m pt \<Longrightarrow> page_aligned p"
  by (auto simp: tabs_def dest: tab_aligned)

lemma agree3_page:
  assumes "va < MAXVA" "va' < MAXVA"
  shows "agree 3 va va' \<longleftrightarrow> PGROUNDDOWN va = PGROUNDDOWN va'"
proof
  assume "agree 3 va va'"
  then have "PX (2 - k) va = PX (2 - k) va'" if "k < 3" for k using that by (simp add: agree_def)
  from this [of 0] this [of 1] this [of 2] show "PGROUNDDOWN va = PGROUNDDOWN va'"
    by (intro PX_split_unique assms) simp_all
next
  assume "PGROUNDDOWN va = PGROUNDDOWN va'"
  then have "PX l va = PX l va'" for l by (metis PX_PGROUNDDOWN)
  then show "agree 3 va va'" by (simp add: agree_def)
qed

section \<open>Frame\<close>

lemma tab_eq_tree:
  assumes "\<And>va d. d \<le> 2 \<Longrightarrow> tab m' pt va d = tab m pt va d"
  shows "tabs m' pt = tabs m pt" "pt_tree m' pt = pt_tree m pt"
proof -
  have "d \<le> 2 \<and> tab m' pt va d = Some p \<longleftrightarrow> d \<le> 2 \<and> tab m pt va d = Some p" for va d p
    using assms [of d va] by auto
  then show "tabs m' pt = tabs m pt" by (simp add: tabs_def)
  have "(d \<le> 2 \<longrightarrow> d' \<le> 2 \<longrightarrow> tab m' pt va d = Some p \<longrightarrow> tab m' pt va' d' = Some p \<longrightarrow> Q)
    = (d \<le> 2 \<longrightarrow> d' \<le> 2 \<longrightarrow> tab m pt va d = Some p \<longrightarrow> tab m pt va' d' = Some p \<longrightarrow> Q)" for d d' va va' p Q
    using assms [of d va] assms [of d' va'] by auto
  then show "pt_tree m' pt = pt_tree m pt" by (simp only: pt_tree_def)
qed

lemma tab_frame:
  assumes "page_aligned pt" "same_pages (tabs m pt) m m'"
  shows "d \<le> 2 \<Longrightarrow> tab m' pt va d = tab m pt va d"
proof (induction d)
  case (Suc d)
  have "load64 m' (pteaddr p d va) = load64 m (pteaddr p d va)" if "tab m pt va d = Some p" for p
    using Suc.prems tab_aligned [OF assms(1) that] assms(2) tabsI [OF that]
    by (intro load_pte_cong) (simp_all add: same_pages_def)
  then show ?case using Suc by (auto split: option.split)
qed simp

lemma pt_frame:
  assumes "page_aligned pt" "same_pages (tabs m pt) m m'"
  shows "tabs m' pt = tabs m pt" "pt_tree m' pt = pt_tree m pt" "leaf m' pt = leaf m pt"
proof -
  note tf = tab_frame [of pt m m', OF assms]
  show "tabs m' pt = tabs m pt" "pt_tree m' pt = pt_tree m pt"
    using tab_eq_tree [of m' pt m] tf by blast+
  have "load64 m' (pteaddr p 2 va) = load64 m (pteaddr p 2 va)" if "tab m pt va 2 = Some p" for p va
    using tab_aligned [OF assms(1) that] assms(2) tabsI [OF that]
    by (intro load_pte_cong) (simp_all add: same_pages_def)
  then show "leaf m' pt = leaf m pt"
    by (auto simp: leaf_def tf split: option.split)
qed

section \<open>Storing a leaf entry\<close>

lemma store_leaf_tab:
  assumes "pt_tree m pt" "tab m pt va 2 = Some p"
  shows "d \<le> 2 \<Longrightarrow> tab (store64 m (pteaddr p 2 va) v) pt va' d = tab m pt va' d"
proof (induction d)
  case (Suc d)
  have al: "page_aligned pt" "page_aligned p" using assms by (auto simp: pt_tree_def intro: tab_aligned)
  have "load64 (store64 m (pteaddr p 2 va) v) (pteaddr q d va') = load64 m (pteaddr q d va')"
    if q: "tab m pt va' d = Some q" for q
  proof -
    have "p \<noteq> q" using pt_treeD [OF assms(1,2), of va' d] q Suc.prems by auto
    then show ?thesis using al q tab_aligned by (simp add: load_store_pte)
  qed
  then show ?case using Suc by (auto split: option.split)
qed simp

lemma store_leaf:
  fixes v :: uint64
  assumes "pt_tree m pt" "tab m pt va 2 = Some p"
  defines "m' \<equiv> store64 m (pteaddr p 2 va) v"
  shows "pt_tree m' pt" "tabs m' pt = tabs m pt"
    "leaf m' pt va' = (if agree 3 va va' then v else leaf m pt va')"
proof -
  note tb = store_leaf_tab [OF assms(1,2), of _ v, folded m'_def]
  show "pt_tree m' pt" "tabs m' pt = tabs m pt"
    using tab_eq_tree [of m' pt m] tb assms(1) by blast+
  have al: "page_aligned pt" "page_aligned p" using assms by (auto simp: pt_tree_def intro: tab_aligned)
  have ag: "agree 3 va va' \<longleftrightarrow> agree 2 va va' \<and> PX (2 - 2) va = PX (2 - 2) va'"
    using agree_Suc [of 2] by (simp add: numeral_3_eq_3 numeral_2_eq_2)
  show "leaf m' pt va' = (if agree 3 va va' then v else leaf m pt va')"
  proof (cases "tab m pt va' 2")
    case None
    then have "\<not> agree 2 va va'" using assms(2) tab_agree [of 2 va va' m pt] by auto
    then show ?thesis using None by (simp add: leaf_def tb ag)
  next
    case (Some q)
    then have "p = q \<longleftrightarrow> agree 2 va va'"
      using pt_treeD [OF assms(1,2), of va' 2] tab_agree [of 2 va va' m pt] assms(2) by auto
    moreover have "page_aligned q" using Some al tab_aligned by blast
    ultimately show ?thesis
      using Some al tb [of 2 va'] by (simp add: leaf_def ag) (simp add: m'_def load_store_pte)
  qed
qed

section \<open>Hanging a fresh table page into the tree\<close>

lemma store_table_tab:
  assumes "pt_tree m pt" "tab m pt va d = Some p" "d < 2"
    and "\<not> pte_valid (load64 m (pteaddr p d va))"
    and "page_aligned q" "q \<notin> tabs m pt" "zero_page m q"
  defines "m' \<equiv> store64 m (pteaddr p d va) (PA2PTE q OR PTE_V)"
  shows "d' \<le> 2 \<Longrightarrow> tab m' pt va' d' = (case tab m pt va' d' of Some x \<Rightarrow> Some x
    | None \<Rightarrow> if d' = Suc d \<and> agree (Suc d) va va' then Some q else None)"
proof (induction d')
  case (Suc d')
  have al: "page_aligned pt" "page_aligned p" using assms by (auto simp: pt_tree_def intro: tab_aligned)
  have pq: "p \<noteq> q" using assms(2,3,6) tabsI [of m pt va d p] by auto
  have new: "PTE2PA (PA2PTE q OR PTE_V) = q" using assms(5) by (simp add: PTE2PA_or_flags)
  show ?case
  proof (cases "tab m pt va' d'")
    case (Some p')
    have al': "page_aligned p'" using Some al tab_aligned by blast
    have eq: "p = p' \<longleftrightarrow> d' = d \<and> agree d va va'"
      using pt_treeD [OF assms(1,2) , of va' d'] tab_agree [of d va va' m pt] Some assms(2,3) Suc.prems
      by auto
    have ld: "load64 m' (pteaddr p' d' va') = (if d' = d \<and> agree (Suc d) va va'
        then PA2PTE q OR PTE_V else load64 m (pteaddr p' d' va'))"
      unfolding m'_def using al al' eq by (auto simp: load_store_pte agree_Suc)
    have "\<not> pte_valid (load64 m (pteaddr p' d' va'))" if "d' = d" "agree (Suc d) va va'"
      using that assms(4) eq by (simp add: agree_Suc pteaddr_def)
    then show ?thesis using Suc Some ld new by (auto simp: Let_def)
  next
    case None
    have "load64 m' (pteaddr q d' va') = 0"
      unfolding m'_def using al pq assms(5,7) by (simp add: load_store_pte load_pte_zero)
    moreover have "\<not> (d' = d \<and> agree (Suc d) va va')"
      using None assms(2) tab_agree [of d va va' m pt] by (auto simp: agree_Suc)
    ultimately show ?thesis using Suc None by auto
  qed
qed simp

lemma store_table:
  assumes "pt_tree m pt" "tab m pt va d = Some p" "d < 2"
    and "\<not> pte_valid (load64 m (pteaddr p d va))"
    and "page_aligned q" "q \<notin> tabs m pt" "zero_page m q"
  defines "m' \<equiv> store64 m (pteaddr p d va) (PA2PTE q OR PTE_V)"
  shows "pt_tree m' pt" "tabs m' pt = insert q (tabs m pt)" "leaf m' pt = leaf m pt"
    "tab m' pt va (Suc d) = Some q"
proof -
  note tb = store_table_tab [OF assms(1-7), folded m'_def]
  have old: "tab m pt va (Suc d) = None" using assms(2,4) by simp
  then show new: "tab m' pt va (Suc d) = Some q" using assms(3) tb [of "Suc d" va] by simp
  have al: "page_aligned pt" "page_aligned p" using assms by (auto simp: pt_tree_def intro: tab_aligned)
  have inv: "tab m' pt va' d' = Some x \<Longrightarrow> d' \<le> 2 \<Longrightarrow>
      tab m pt va' d' = Some x \<or> (x = q \<and> d' = Suc d \<and> agree (Suc d) va va')" for va' d' x
    using tb [of d' va'] by (auto split: option.splits if_splits)
  have mono: "tab m pt va' d' = Some x \<Longrightarrow> d' \<le> 2 \<Longrightarrow> tab m' pt va' d' = Some x" for va' d' x
    using tb [of d' va'] by simp
  show "tabs m' pt = insert q (tabs m pt)"
  proof
    show "tabs m' pt \<subseteq> insert q (tabs m pt)" by (auto simp: tabs_def dest: inv)
    show "insert q (tabs m pt) \<subseteq> tabs m' pt"
      using tabsI [OF new] assms(3) by (auto simp: tabs_def dest: mono)
  qed
  have qn: "tab m pt va' d' \<noteq> Some q" if "d' \<le> 2" for va' d' using assms(6) that by (auto simp: tabs_def)
  show "pt_tree m' pt" unfolding pt_tree_def
  proof (intro conjI allI impI)
    fix va1 va2 d1 d2 x
    assume a: "d1 \<le> 2" "d2 \<le> 2" "tab m' pt va1 d1 = Some x" "tab m' pt va2 d2 = Some x"
    have "d1 = d2 \<and> agree d1 va1 va2"
    proof (cases "x = q")
      case True
      with a inv [OF a(3,1)] inv [OF a(4,2)] qn
      have "d1 = Suc d" "d2 = Suc d" "agree (Suc d) va va1" "agree (Suc d) va va2" by auto
      then show ?thesis by (simp add: agree_def)
    next
      case False
      then show ?thesis using inv [OF a(3,1)] inv [OF a(4,2)] a pt_treeD [OF assms(1)] by blast
    qed
    then show "d1 = d2" "agree d1 va1 va2" by blast+
  qed (rule al)
  show "leaf m' pt = leaf m pt"
  proof
    fix va'
    show "leaf m' pt va' = leaf m pt va'"
    proof (cases "tab m pt va' 2")
      case (Some p')
      have "p \<noteq> p'" using pt_treeD [OF assms(1,2) , of va' 2] Some assms(3) by auto
      moreover have "page_aligned p'" using Some al tab_aligned by blast
      ultimately show ?thesis
        using Some mono [OF Some] al by (simp add: leaf_def m'_def load_store_pte)
    next
      case None
      have "p \<noteq> q" using assms(2,3,6) tabsI [of m pt va d p] by auto
      then have "load64 m' (pteaddr q 2 va') = 0"
        unfolding m'_def using al assms(5,7) by (simp add: load_store_pte load_pte_zero)
      then show ?thesis using None tb [of 2 va'] by (simp add: leaf_def)
    qed
  qed
qed

section \<open>An empty table\<close>

lemma empty_table:
  assumes "page_aligned pt" "zero_page m pt"
  shows "pt_tree m pt" "tabs m pt = {pt}" "leaf m pt = (\<lambda>_. 0)"
proof -
  have t: "tab m pt va (Suc d) = None" for va d
    by (induction d) (auto simp: load_pte_zero [OF assms])
  then have d0: "tab m pt va d = Some p \<longleftrightarrow> d = 0 \<and> p = pt" for va d p by (cases d) auto
  show "pt_tree m pt" by (auto simp: pt_tree_def d0 assms(1))
  show "tabs m pt = {pt}" by (auto simp: tabs_def d0)
  have "tab m pt va 2 = None" for va using t [of va 1] by (simp add: numeral_2_eq_2)
  then show "leaf m pt = (\<lambda>_. 0)" by (simp add: leaf_def fun_eq_iff)
qed

end
