(* ===== verification/Vm.thy ===== *)
theory Vm
  imports Pagetable
begin

text \<open>
  \<^verbatim>\<open>kernel/vm.c\<close>: page tables and user memory.  Every routine is translated over the
  memory of \<^verbatim>\<open>Kalloc\<close>; a page table is the address of its root page.

  A loop over virtual addresses calls \<^verbatim>\<open>walk\<close> for each of them, which panics from
  \<^verbatim>\<open>MAXVA\<close> on; the loops below make that panic visible where they recurse, so that they
  are total functions.
\<close>

section \<open>Walking\<close>

definition load_pte :: "uint64 \<Rightarrow> ('a kmem_scheme, uint64) kmon" where
  "load_pte a = gets (\<lambda>s. load64 (mem s) a)"

definition store_pte :: "uint64 \<Rightarrow> uint64 \<Rightarrow> ('a kmem_scheme, unit) kmon" where
  "store_pte a v = modify (\<lambda>s. s\<lparr>mem := store64 (mem s) a v\<rparr>)"

definition kmemset :: "uint64 \<Rightarrow> int \<Rightarrow> nat \<Rightarrow> ('a kmem_scheme, unit) kmon" where
  "kmemset dst c n = modify (\<lambda>s. s\<lparr>mem := memset (mem s) dst c n\<rparr>)"

definition kmemmove :: "uint64 \<Rightarrow> uint64 \<Rightarrow> nat \<Rightarrow> ('a kmem_scheme, unit) kmon" where
  "kmemmove dst src n = modify (\<lambda>s. s\<lparr>mem := memmove (mem s) dst src n\<rparr>)"

fun walk_loop :: "nat \<Rightarrow> uint64 \<Rightarrow> uint64 \<Rightarrow> bool \<Rightarrow> ('a kmem_scheme, uint64) kmon" where
  "walk_loop 0 pagetable va alloc = ret (pagetable + 8 * PX 0 va)"
| "walk_loop (Suc l) pagetable va alloc = (let a = pagetable + 8 * PX (Suc l) va in
     bnd (load_pte a) (\<lambda>pte.
     if pte AND PTE_V \<noteq> 0 then walk_loop l (PTE2PA pte) va alloc
     else if \<not> alloc then ret 0
     else
       bnd kalloc (\<lambda>page.
       if page = 0 then ret 0
       else
         bnd (kmemset page 0 4096) (\<lambda>_.
         bnd (store_pte a (PA2PTE page OR PTE_V)) (\<lambda>_.
         walk_loop l page va alloc)))))"

definition walk :: "uint64 \<Rightarrow> uint64 \<Rightarrow> bool \<Rightarrow> ('a kmem_scheme, uint64) kmon" where
  "walk pagetable va alloc =
     (if MAXVA \<le> va then panic ''walk'' else walk_loop 2 pagetable va alloc)"

definition walkaddr :: "uint64 \<Rightarrow> uint64 \<Rightarrow> ('a kmem_scheme, uint64) kmon" where
  "walkaddr pagetable va =
     (if MAXVA \<le> va then ret 0
      else
        bnd (walk pagetable va False) (\<lambda>a.
        if a = 0 then ret 0
        else
          bnd (load_pte a) (\<lambda>pte.
          if pte AND PTE_V = 0 then ret 0
          else if pte AND PTE_U = 0 then ret 0
          else ret (PTE2PA pte))))"

section \<open>Mapping\<close>

lemma MAXVA_next: "\<not> MAXVA \<le> a \<Longrightarrow> unat (a + PGSIZE) = unat a + 4096"
  by (intro unat_next_page [of a "2 * MAXVA"]) (simp add: word_le_nat_alt const_defs)

function mappages_loop :: "uint64 \<Rightarrow> uint64 \<Rightarrow> uint64 \<Rightarrow> uint64 \<Rightarrow> uint64 \<Rightarrow> ('a kmem_scheme, int) kmon" where
  "mappages_loop pagetable a lst pa perm =
     (if MAXVA \<le> a then panic ''walk''
      else
        bnd (walk pagetable a True) (\<lambda>pte.
        if pte = 0 then ret (-1)
        else
          bnd (load_pte pte) (\<lambda>old.
          if old AND PTE_V \<noteq> 0 then panic ''remap''
          else
            bnd (store_pte pte (PA2PTE pa OR perm OR PTE_V)) (\<lambda>_.
            if a = lst then ret 0
            else mappages_loop pagetable (a + PGSIZE) lst (pa + PGSIZE) perm))))"
  by auto

termination
  by (relation "measure (\<lambda>(pagetable, a, last, pa, perm). unat MAXVA - unat a)")
     (auto simp: MAXVA_next, auto simp: word_le_nat_alt)

declare mappages_loop.simps [simp del]

definition mappages :: "uint64 \<Rightarrow> uint64 \<Rightarrow> uint64 \<Rightarrow> uint64 \<Rightarrow> uint64 \<Rightarrow> ('a kmem_scheme, int) kmon" where
  "mappages pagetable va sz pa perm =
     mappages_loop pagetable (PGROUNDDOWN va) (PGROUNDDOWN (va + sz - 1)) pa perm"

definition kvmmap :: "uint64 \<Rightarrow> uint64 \<Rightarrow> uint64 \<Rightarrow> uint64 \<Rightarrow> uint64 \<Rightarrow> ('a kmem_scheme, unit) kmon" where
  "kvmmap kpgtbl va pa sz perm =
     bnd (mappages kpgtbl va sz pa perm) (\<lambda>r. assert_or (r = 0) ''kvmmap'')"

function uvmunmap_loop :: "uint64 \<Rightarrow> uint64 \<Rightarrow> uint64 \<Rightarrow> bool \<Rightarrow> ('a kmem_scheme, unit) kmon" where
  "uvmunmap_loop pagetable a end do_free =
     (if a < end
      then if MAXVA \<le> a then panic ''walk''
      else
        bnd (walk pagetable a False) (\<lambda>pte.
        bnd (assert_or (pte \<noteq> 0) ''uvmunmap: walk'') (\<lambda>_.
        bnd (load_pte pte) (\<lambda>v.
        bnd (assert_or (v AND PTE_V \<noteq> 0) ''uvmunmap: not mapped'') (\<lambda>_.
        bnd (assert_or (PTE_FLAGS v \<noteq> PTE_V) ''uvmunmap: not a leaf'') (\<lambda>_.
        bnd (whenk do_free (kfree (PTE2PA v))) (\<lambda>_.
        bnd (store_pte pte 0) (\<lambda>_.
        uvmunmap_loop pagetable (a + PGSIZE) end do_free)))))))
      else ret ())"
  by auto

termination
  by (relation "measure (\<lambda>(pagetable, a, end, do_free). unat MAXVA - unat a)")
     (auto simp: MAXVA_next, auto simp: word_le_nat_alt)

declare uvmunmap_loop.simps [simp del]

definition uvmunmap :: "uint64 \<Rightarrow> uint64 \<Rightarrow> uint64 \<Rightarrow> bool \<Rightarrow> ('a kmem_scheme, unit) kmon" where
  "uvmunmap pagetable va npages do_free =
     (if va mod PGSIZE \<noteq> 0 then panic ''uvmunmap: not aligned''
      else uvmunmap_loop pagetable va (va + npages * PGSIZE) do_free)"

section \<open>User address spaces\<close>

definition uvmcreate :: "('a kmem_scheme, uint64) kmon" where
  "uvmcreate =
     bnd kalloc (\<lambda>pagetable.
     if pagetable = 0 then ret 0
     else bnd (kmemset pagetable 0 4096) (\<lambda>_. ret pagetable))"

definition uvminit :: "uint64 \<Rightarrow> uint64 \<Rightarrow> uint32 \<Rightarrow> ('a kmem_scheme, unit) kmon" where
  "uvminit pagetable src sz =
     bnd (assert_or (\<not> 4096 \<le> sz) ''inituvm: more than a page'') (\<lambda>_.
     bnd kalloc (\<lambda>page.
     bnd (kmemset page 0 4096) (\<lambda>_.
     bnd (mappages pagetable 0 PGSIZE page (PTE_W OR PTE_R OR PTE_X OR PTE_U)) (\<lambda>_.
     kmemmove page src (unat sz)))))"

definition uvmdealloc :: "uint64 \<Rightarrow> uint64 \<Rightarrow> uint64 \<Rightarrow> ('a kmem_scheme, uint64) kmon" where
  "uvmdealloc pagetable oldsz newsz =
     (if oldsz \<le> newsz then ret oldsz
      else
        bnd (whenk (PGROUNDUP newsz < PGROUNDUP oldsz)
          (uvmunmap pagetable (PGROUNDUP newsz)
             (scast (ucast ((PGROUNDUP oldsz - PGROUNDUP newsz) div PGSIZE) :: 32 word)) True)) (\<lambda>_.
        ret newsz))"

function uvmalloc_loop :: "uint64 \<Rightarrow> uint64 \<Rightarrow> uint64 \<Rightarrow> uint64 \<Rightarrow> ('a kmem_scheme, uint64) kmon" where
  "uvmalloc_loop pagetable oldsz newsz a =
     (if a < newsz
      then
        bnd kalloc (\<lambda>page.
        if page = 0
        then bnd (uvmdealloc pagetable a oldsz) (\<lambda>_. ret 0)
        else
          bnd (kmemset page 0 4096) (\<lambda>_.
          bnd (mappages pagetable a PGSIZE page (PTE_W OR PTE_X OR PTE_R OR PTE_U)) (\<lambda>r.
          if r \<noteq> 0
          then bnd (kfree page) (\<lambda>_. bnd (uvmdealloc pagetable a oldsz) (\<lambda>_. ret 0))
          else if MAXVA \<le> a then panic ''walk''
          else uvmalloc_loop pagetable oldsz newsz (a + PGSIZE))))
      else ret newsz)"
  by auto

termination
  by (relation "measure (\<lambda>(pagetable, oldsz, newsz, a). unat MAXVA - unat a)")
     (auto simp: MAXVA_next, auto simp: word_le_nat_alt)

declare uvmalloc_loop.simps [simp del]

definition uvmalloc :: "uint64 \<Rightarrow> uint64 \<Rightarrow> uint64 \<Rightarrow> ('a kmem_scheme, uint64) kmon" where
  "uvmalloc pagetable oldsz newsz =
     (if newsz < oldsz then ret oldsz
      else uvmalloc_loop pagetable (PGROUNDUP oldsz) newsz (PGROUNDUP oldsz))"

text \<open>
  \<^verbatim>\<open>freewalk\<close> calls itself for every entry that points to a lower-level table; \<open>d\<close> is the
  number of levels it may descend.  Sv39 tables have three; on a table whose lst level
  points to a table again, which no routine here builds, the model does not return.
\<close>

fun freewalk_entries :: "(uint64 \<Rightarrow> ('a kmem_scheme, unit) kmon) \<Rightarrow> uint64 \<Rightarrow> nat list \<Rightarrow> ('a kmem_scheme, unit) kmon" where
  "freewalk_entries rec pagetable [] = ret ()"
| "freewalk_entries rec pagetable (i # is) = (let a = pagetable + 8 * of_nat i in
     bnd (load_pte a) (\<lambda>pte.
     bnd (if pte AND PTE_V \<noteq> 0 \<and> pte AND (PTE_R OR PTE_W OR PTE_X) = 0
          then bnd (rec (PTE2PA pte)) (\<lambda>_. store_pte a 0)
          else if pte AND PTE_V \<noteq> 0 then panic ''freewalk: leaf''
          else ret ()) (\<lambda>_.
     freewalk_entries rec pagetable is)))"

fun freewalk :: "nat \<Rightarrow> uint64 \<Rightarrow> ('a kmem_scheme, unit) kmon" where
  "freewalk 0 pagetable = (\<lambda>s. Spin)"
| "freewalk (Suc d) pagetable =
     bnd (freewalk_entries (freewalk d) pagetable [0..<512]) (\<lambda>_. kfree pagetable)"

definition uvmfree :: "uint64 \<Rightarrow> uint64 \<Rightarrow> ('a kmem_scheme, unit) kmon" where
  "uvmfree pagetable sz =
     bnd (whenk (0 < sz) (uvmunmap pagetable 0 (PGROUNDUP sz div PGSIZE) True)) (\<lambda>_.
     freewalk 3 pagetable)"

function uvmcopy_loop :: "uint64 \<Rightarrow> uint64 \<Rightarrow> uint64 \<Rightarrow> uint64 \<Rightarrow> ('a kmem_scheme, int) kmon" where
  "uvmcopy_loop old new sz i =
     (if i < sz
      then if MAXVA \<le> i then panic ''walk''
      else
        bnd (walk old i False) (\<lambda>a.
        bnd (assert_or (a \<noteq> 0) ''uvmcopy: pte should exist'') (\<lambda>_.
        bnd (load_pte a) (\<lambda>pte.
        bnd (assert_or (pte AND PTE_V \<noteq> 0) ''uvmcopy: page not present'') (\<lambda>_.
        bnd kalloc (\<lambda>page.
        if page = 0
        then bnd (uvmunmap new 0 (i div PGSIZE) True) (\<lambda>_. ret (-1))
        else
          bnd (kmemmove page (PTE2PA pte) 4096) (\<lambda>_.
          bnd (mappages new i PGSIZE page (PTE_FLAGS pte)) (\<lambda>r.
          if r \<noteq> 0
          then bnd (kfree page) (\<lambda>_. bnd (uvmunmap new 0 (i div PGSIZE) True) (\<lambda>_. ret (-1)))
          else uvmcopy_loop old new sz (i + PGSIZE))))))))
      else ret 0)"
  by auto

termination
  by (relation "measure (\<lambda>(old, new, sz, i). unat MAXVA - unat i)")
     (auto simp: MAXVA_next, auto simp: word_le_nat_alt)

declare uvmcopy_loop.simps [simp del]

definition uvmcopy :: "uint64 \<Rightarrow> uint64 \<Rightarrow> uint64 \<Rightarrow> ('a kmem_scheme, int) kmon" where
  "uvmcopy old new sz = uvmcopy_loop old new sz 0"

definition uvmclear :: "uint64 \<Rightarrow> uint64 \<Rightarrow> ('a kmem_scheme, unit) kmon" where
  "uvmclear pagetable va =
     bnd (walk pagetable va False) (\<lambda>a.
     bnd (assert_or (a \<noteq> 0) ''uvmclear'') (\<lambda>_.
     bnd (load_pte a) (\<lambda>pte. store_pte a (pte AND NOT PTE_U))))"

end
