(* ===== verification/Vm_Map.thy ===== *)
theory Vm_Map
  imports Vm
begin

text \<open>
  Correctness of \<^verbatim>\<open>walk\<close>, \<^verbatim>\<open>walkaddr\<close>, \<^verbatim>\<open>mappages\<close> and \<^verbatim>\<open>uvmunmap\<close>: what they do to the
  leaf entries of a page table, and that they keep the table a tree of pages that are
  neither free nor shared.
\<close>

section \<open>The invariant of one page table\<close>

definition vm_inv :: "'a kmem_scheme \<Rightarrow> uint64 \<Rightarrow> uint64 list \<Rightarrow> bool" where
  "vm_inv s pt ps \<longleftrightarrow> kmem_ready s \<and> kmem_inv s ps \<and> pt_tree (mem s) pt
     \<and> (\<forall>p \<in> tabs (mem s) pt. phys_page s p) \<and> tabs (mem s) pt \<inter> set ps = {}"

definition only_mem :: "'a kmem_scheme \<Rightarrow> 'a kmem_scheme \<Rightarrow> bool" where
  "only_mem s t \<longleftrightarrow> t = s\<lparr>mem := mem t, freelist := freelist t\<rparr>"

text \<open>
  \<open>ptchg\<close>: \<open>t\<close> is \<open>s\<close> with the pages \<open>us\<close> taken from the free list and hung into the
  tree, and nothing changed outside the table pages; \<open>grown\<close>: no leaf entry changed either.
\<close>

definition ptchg :: "'a kmem_scheme \<Rightarrow> uint64 \<Rightarrow> uint64 list \<Rightarrow> 'a kmem_scheme \<Rightarrow> uint64 list \<Rightarrow> uint64 list \<Rightarrow> bool" where
  "ptchg s pt ps t us qs \<longleftrightarrow> ps = us @ qs \<and> vm_inv t pt qs \<and> only_mem s t
     \<and> tabs (mem t) pt = tabs (mem s) pt \<union> set us
     \<and> (\<forall>x. PGROUNDDOWN x \<notin> tabs (mem s) pt \<union> set us \<longrightarrow> mem t x = mem s x)"

definition grown :: "'a kmem_scheme \<Rightarrow> uint64 \<Rightarrow> uint64 list \<Rightarrow> 'a kmem_scheme \<Rightarrow> uint64 list \<Rightarrow> uint64 list \<Rightarrow> bool" where
  "grown s pt ps t us qs \<longleftrightarrow> ptchg s pt ps t us qs \<and> leaf (mem t) pt = leaf (mem s) pt"

lemma only_mem_refl [simp]: "only_mem s s" by (simp add: only_mem_def)

lemma only_mem_iff: "only_mem s t \<longleftrightarrow> (\<exists>m f. t = s\<lparr>mem := m, freelist := f\<rparr>)"
  by (auto simp: only_mem_def)

lemma only_mem_trans: "only_mem s t \<Longrightarrow> only_mem t u \<Longrightarrow> only_mem s u"
  unfolding only_mem_iff by (elim exE, hypsubst, intro exI) simp

lemma only_mem_upd [simp]:
  "only_mem s (s\<lparr>mem := m\<rparr>)" "only_mem s (s\<lparr>mem := m, freelist := f\<rparr>)" "only_mem s (s\<lparr>freelist := f\<rparr>)"
  by (simp_all add: only_mem_def)

lemma only_mem_phys: "only_mem s t \<Longrightarrow> phys_page t = phys_page s"
  by (auto simp: only_mem_iff)

lemma ptchg_trans:
  "ptchg s pt ps t us qs \<Longrightarrow> ptchg t pt qs u us' qs' \<Longrightarrow> ptchg s pt ps u (us @ us') qs'"
  by (auto simp: ptchg_def intro: only_mem_trans)

lemma grown_refl: "vm_inv s pt ps \<Longrightarrow> grown s pt ps s [] ps"
  by (simp add: grown_def ptchg_def)

lemma grown_trans:
  "grown s pt ps t us qs \<Longrightarrow> grown t pt qs u us' qs' \<Longrightarrow> grown s pt ps u (us @ us') qs'"
  by (auto simp: grown_def intro: ptchg_trans)

lemma vm_inv_aligned: "vm_inv s pt ps \<Longrightarrow> p \<in> tabs (mem s) pt \<Longrightarrow> page_aligned p"
  by (auto simp: vm_inv_def phys_page_def)

lemma page_outside: "page_aligned p \<Longrightarrow> in_range p 4096 x \<Longrightarrow> PGROUNDDOWN x = p"
  by (simp add: in_page_iff)

section \<open>Walking without allocation\<close>

lemma walk_loop_read:
  "l \<le> 2 \<Longrightarrow> tab (mem s) pt va (2 - l) = Some p \<Longrightarrow>
    walk_loop l p va False s = Ok (case tab (mem s) pt va 2 of None \<Rightarrow> 0 | Some q \<Rightarrow> pteaddr q 2 va) s"
proof (induction l arbitrary: p)
  case 0
  then show ?case by (simp add: pteaddr_def)
next
  case (Suc l)
  let ?d = "2 - Suc l"
  have d: "2 - l = Suc ?d" "p + 8 * PX (Suc l) va = pteaddr p ?d va"
    using Suc.prems(1) by (auto simp: pteaddr_def)
  show ?case
  proof (cases "pte_valid (load64 (mem s) (pteaddr p ?d va))")
    case True
    then have "tab (mem s) pt va (2 - l) = Some (PTE2PA (load64 (mem s) (pteaddr p ?d va)))"
      using Suc.prems d by simp
    then show ?thesis using Suc.IH [of "PTE2PA (load64 (mem s) (pteaddr p ?d va))"] Suc.prems(1) d True
      by (simp add: load_pte_def Let_def pte_valid_def)
  next
    case False
    have none: "tab (mem s) pt va (2 - l) = None" using Suc.prems d False by simp
    have "tab (mem s) pt va 2 = None"
    proof (cases "l = 0")
      case True then show ?thesis using none by simp
    next
      case False
      then have "l = 1" using Suc.prems(1) by simp
      then show ?thesis using none by (simp add: numeral_2_eq_2)
    qed
    then show ?thesis using d False by (simp add: load_pte_def Let_def pte_valid_def)
  qed
qed

lemma walk_read:
  "va < MAXVA \<Longrightarrow> walk pt va False s =
    Ok (case tab (mem s) pt va 2 of None \<Rightarrow> 0 | Some q \<Rightarrow> pteaddr q 2 va) s"
  using walk_loop_read [of 2 s pt va pt] by (simp add: walk_def not_le)

lemma pteaddr_nonzero: "vm_inv s pt ps \<Longrightarrow> p \<in> tabs (mem s) pt \<Longrightarrow> pteaddr p d va \<noteq> 0"
proof -
  assume a: "vm_inv s pt ps" "p \<in> tabs (mem s) pt"
  then have al: "page_aligned p" and nz: "p \<noteq> 0" by (auto simp: vm_inv_def phys_page_def kmem_inv_def)
  have "PGROUNDDOWN (pteaddr p d va) = p" using pteaddr_in_page(1) [OF al] page_outside [OF al] by blast
  then show ?thesis using nz by (auto simp: PGROUNDDOWN_def)
qed

lemma tab2_in_tabs: "tab m pt va 2 = Some p \<Longrightarrow> p \<in> tabs m pt"
  by (rule tabsI [of m pt va 2]) simp_all

lemma walkaddr_eq:
  assumes "vm_inv s pt ps"
  shows "walkaddr pt va s = Ok (let pte = leaf (mem s) pt va in
    if va < MAXVA \<and> pte AND PTE_V \<noteq> 0 \<and> pte AND PTE_U \<noteq> 0 then PTE2PA pte else 0) s"
proof (cases "va < MAXVA")
  case True
  then show ?thesis
    using pteaddr_nonzero [OF assms tab2_in_tabs]
    by (auto simp: walkaddr_def walk_read leaf_def load_pte_def not_le split: option.split)
qed (simp add: walkaddr_def not_less Let_def not_le [symmetric])

section \<open>Walking with allocation\<close>

lemma alloc_table:
  assumes inv: "vm_inv s pt (q # qs)" and d: "tab (mem s) pt va d = Some p" "d < 2"
    and nv: "\<not> pte_valid (load64 (mem s) (pteaddr p d va))"
  defines "m \<equiv> store64 (memset (memset (mem s) q 5 4096) q 0 4096) (pteaddr p d va) (PA2PTE q OR PTE_V)"
  defines "t \<equiv> s\<lparr>mem := m, freelist := load64 (mem s) q\<rparr>"
  shows "grown s pt (q # qs) t [q] qs" "tab (mem t) pt va (Suc d) = Some q"
proof -
  let ?m1 = "memset (memset (mem s) q 5 4096) q 0 4096"
  have q: "q \<notin> tabs (mem s) pt" "phys_page s q" "page_aligned q"
    using inv by (auto simp: vm_inv_def kmem_inv_def phys_page_def)
  have p: "p \<in> tabs (mem s) pt" using d by (auto intro: tabsI)
  have al: "page_aligned pt" "page_aligned p" using inv p by (auto simp: vm_inv_def pt_tree_def intro: vm_inv_aligned [OF inv])
  have m1: "?m1 x = (if in_range q 4096 x then 0 else mem s x)" for x by (simp add: memset_eq)
  have same: "same_pages (tabs (mem s) pt) (mem s) ?m1"
    using q pages_disjoint vm_inv_aligned [OF inv] by (auto simp: same_pages_def m1)
  note fr = pt_frame [OF al(1) same]
  have t1: "tab ?m1 pt va d = Some p" using tab_frame [OF al(1) same] d by simp
  have ld: "load64 ?m1 (pteaddr p d va) = load64 (mem s) (pteaddr p d va)"
    using al same p by (intro load_pte_cong) (auto simp: same_pages_def)
  have z: "zero_page ?m1 q" by (simp add: zero_page_def m1)
  have tree: "pt_tree ?m1 pt" using fr inv by (simp add: vm_inv_def)
  have nv1: "\<not> pte_valid (load64 ?m1 (pteaddr p d va))" using nv ld by simp
  have q1: "q \<notin> tabs ?m1 pt" using q fr by simp
  note st = store_table [OF tree t1 d(2) nv1 q(3) q1 z, folded m_def]
  show "tab (mem t) pt va (Suc d) = Some q" using st by (simp add: t_def)
  have chg: "m x = mem s x" if "PGROUNDDOWN x \<noteq> p" "PGROUNDDOWN x \<noteq> q" for x
  proof -
    have "\<not> in_range (pteaddr p d va) 8 x" using pteaddr_in_page(2) [OF al(2)] page_outside [OF al(2)] that by blast
    moreover have "\<not> in_range q 4096 x" using page_outside [OF q(3)] that by blast
    ultimately show ?thesis by (simp add: m_def store64_outside m1)
  qed
  have free: "kmem_inv (s\<lparr>mem := m, freelist := load64 (mem s) q\<rparr>) qs"
  proof -
    have "kmem_inv (s\<lparr>mem := memset (mem s) q 5 4096, freelist := load64 (mem s) q\<rparr>) qs"
      using inv by (intro kalloc_Cons) (simp_all add: vm_inv_def)
    moreover have "m x = memset (mem s) q 5 4096 x" if "r \<in> set qs" "in_range r 4096 x" for r x
    proof -
      have "phys_page s r" "r \<noteq> q" "r \<notin> tabs (mem s) pt"
        using that inv by (auto simp: vm_inv_def kmem_inv_def)
      then have r: "PGROUNDDOWN x = r" "r \<noteq> p" "r \<noteq> q"
        using p that page_outside by (auto simp: phys_page_def)
      then have "m x = mem s x" by (intro chg) simp_all
      moreover have "\<not> in_range q 4096 x" using r page_outside [OF q(3)] by blast
      ultimately show ?thesis by (simp add: memset_eq)
    qed
    ultimately show ?thesis using kmem_inv_frame [of "s\<lparr>mem := memset (mem s) q 5 4096, freelist := load64 (mem s) q\<rparr>" qs m] by simp
  qed
  have "vm_inv t pt qs"
    using inv free st(1,2) fr(1) q by (auto simp: vm_inv_def t_def kmem_inv_def)
  moreover have "\<forall>x. PGROUNDDOWN x \<notin> tabs (mem s) pt \<union> set [q] \<longrightarrow> mem t x = mem s x"
  proof (intro allI impI)
    fix x assume "PGROUNDDOWN x \<notin> tabs (mem s) pt \<union> set [q]"
    then have "PGROUNDDOWN x \<noteq> p" "PGROUNDDOWN x \<noteq> q" using p by auto
    then show "mem t x = mem s x" using chg by (simp add: t_def)
  qed
  ultimately show "grown s pt (q # qs) t [q] qs"
    using st(2,3) fr(1,3) unfolding grown_def ptchg_def by (simp add: t_def)
qed

definition walked :: "nat \<Rightarrow> 'a kmem_scheme \<Rightarrow> uint64 \<Rightarrow> uint64 list \<Rightarrow> uint64 \<Rightarrow> uint64 \<Rightarrow> 'a kmem_scheme \<Rightarrow> bool" where
  \<comment> \<open>at most \<open>l\<close> table pages were added; it fails only when the memory is used up before the last of them\<close>
  "walked l s pt ps va a t \<longleftrightarrow> (\<exists>us qs. grown s pt ps t us qs \<and> length us \<le> l
     \<and> (if a = 0 then qs = [] \<and> length us < l else \<exists>p. tab (mem t) pt va 2 = Some p \<and> a = pteaddr p 2 va))"

lemma walked_trans:
  assumes g: "grown s pt ps t us qs" and w: "walked l t pt qs va a u" and l: "length us + l \<le> l'"
  shows "walked l' s pt ps va a u"
proof -
  obtain us' qs' where u: "grown t pt qs u us' qs'" "length us' \<le> l"
    "if a = 0 then qs' = [] \<and> length us' < l else \<exists>p. tab (mem u) pt va 2 = Some p \<and> a = pteaddr p 2 va"
    using w unfolding walked_def by blast
  show ?thesis unfolding walked_def
    using grown_trans [OF g u(1)] u(2,3) l by (intro exI [of _ "us @ us'"] exI [of _ qs']) (simp split: if_splits)
qed

lemma walked_mono: "walked l s pt ps va a t \<Longrightarrow> l \<le> l' \<Longrightarrow> walked l' s pt ps va a t"
  unfolding walked_def by (elim exE conjE, intro exI conjI, assumption) (simp_all split: if_splits)

lemma walk_loop_alloc:
  assumes "vm_inv s pt ps" "l \<le> 2" "tab (mem s) pt va (2 - l) = Some p"
  shows "wp (walk_loop l p va True) (walked l s pt ps va) s"
  using assms
proof (induction l arbitrary: s ps p)
  case 0
  then have "pteaddr p 2 va \<noteq> 0" using pteaddr_nonzero tab2_in_tabs by fastforce
  then have "walked 0 s pt ps va (pteaddr p 2 va) s"
    using 0 grown_refl [of s pt ps] by (auto simp: walked_def)
  then show ?case by (simp add: pteaddr_def)
next
  case (Suc l)
  let ?d = "2 - Suc l"
  have d: "2 - l = Suc ?d" "p + 8 * PX (Suc l) va = pteaddr p ?d va" "?d < 2"
    using Suc.prems(2) by (auto simp: pteaddr_def)
  show ?case
  proof (cases "pte_valid (load64 (mem s) (pteaddr p ?d va))")
    case True
    then have "tab (mem s) pt va (2 - l) = Some (PTE2PA (load64 (mem s) (pteaddr p ?d va)))"
      using Suc.prems d by simp
    then have "wp (walk_loop l (PTE2PA (load64 (mem s) (pteaddr p ?d va))) va True) (walked l s pt ps va) s"
      using Suc.IH Suc.prems by simp
    then have "wp (walk_loop l (PTE2PA (load64 (mem s) (pteaddr p ?d va))) va True) (walked (Suc l) s pt ps va) s"
      by (elim wp_mono walked_mono) simp
    then show ?thesis using d True by (simp add: wp_def load_pte_def Let_def pte_valid_def)
  next
    case False
    show ?thesis
    proof (cases ps)
      case Nil
      then have "kalloc s = Ok 0 s" using Suc.prems(1) by (auto simp: vm_inv_def intro: kalloc_empty)
      moreover have "walked (Suc l) s pt ps va 0 s" using Nil Suc.prems(1) grown_refl [of s pt ps] by (auto simp: walked_def)
      ultimately show ?thesis using d False
        by (simp add: load_pte_def Let_def pte_valid_def wp_def)
    next
      case (Cons q qs)
      then have inv: "vm_inv s pt (q # qs)" using Suc.prems(1) by simp
      then have ka: "kalloc s = Ok q (s\<lparr>mem := memset (mem s) q 5 4096, freelist := load64 (mem s) q\<rparr>)"
        and nz: "q \<noteq> 0" using kalloc_Cons [of s q qs] by (auto simp: vm_inv_def kmem_inv_def)
      note at = alloc_table [OF inv Suc.prems(3) d(3) False]
      let ?t = "s\<lparr>mem := store64 (memset (memset (mem s) q 5 4096) q 0 4096) (pteaddr p ?d va)
          (PA2PTE q OR PTE_V), freelist := load64 (mem s) q\<rparr>"
      have "wp (walk_loop l q va True) (walked l ?t pt qs va) ?t"
        using at Suc.prems(2) d(1) by (intro Suc.IH) (simp_all add: grown_def ptchg_def)
      then have "wp (walk_loop l q va True) (walked (Suc l) s pt ps va) ?t"
        using walked_trans [OF at(1), of l va _ _ "Suc l"] Cons by (elim wp_mono) simp
      then show ?thesis using d False ka nz
        by (simp add: load_pte_def Let_def pte_valid_def wp_def kmemset_def store_pte_def)
    qed
  qed
qed

lemma walk_alloc:
  "vm_inv s pt ps \<Longrightarrow> va < MAXVA \<Longrightarrow> wp (walk pt va True) (walked 2 s pt ps va) s"
  using walk_loop_alloc [of s pt ps 2 va pt] by (simp add: walk_def not_le)

section \<open>Leaf entries\<close>

lemma kmem_inv_tabs:
  assumes inv: "vm_inv s pt ps" and "\<And>x. PGROUNDDOWN x \<notin> tabs (mem s) pt \<Longrightarrow> m x = mem s x"
  shows "kmem_inv (s\<lparr>mem := m\<rparr>) ps"
proof (rule kmem_inv_frame)
  show "kmem_inv s ps" using inv by (simp add: vm_inv_def)
  fix p x assume p: "p \<in> set ps" "in_range p 4096 x"
  then have "page_aligned p" "p \<notin> tabs (mem s) pt"
    using inv by (auto simp: vm_inv_def kmem_inv_def phys_page_def)
  then show "m x = mem s x" using p(2) page_outside assms(2) by blast
qed

lemma set_leaf:
  fixes v :: uint64
  assumes inv: "vm_inv s pt ps" and p: "tab (mem s) pt va 2 = Some p"
  defines "t \<equiv> s\<lparr>mem := store64 (mem s) (pteaddr p 2 va) v\<rparr>"
  shows "ptchg s pt ps t [] ps" "leaf (mem t) pt va' = (if agree 3 va va' then v else leaf (mem s) pt va')"
    "tab (mem t) pt va' 2 = tab (mem s) pt va' 2"
proof -
  have tree: "pt_tree (mem s) pt" using inv by (simp add: vm_inv_def)
  note st = store_leaf [OF tree p, of v]
  have al: "page_aligned p" using vm_inv_aligned [OF inv tab2_in_tabs [OF p]] .
  have chg: "store64 (mem s) (pteaddr p 2 va) v x = mem s x" if "PGROUNDDOWN x \<notin> tabs (mem s) pt" for x
  proof (rule store64_outside)
    show "\<not> in_range (pteaddr p 2 va) 8 x"
      using that pteaddr_in_page(2) [OF al] page_outside [OF al] tab2_in_tabs [OF p] by blast
  qed
  have "kmem_inv t ps" unfolding t_def using inv chg by (intro kmem_inv_tabs)
  then show "ptchg s pt ps t [] ps" using inv st(1,2) chg by (auto simp: ptchg_def vm_inv_def t_def)
  show "leaf (mem t) pt va' = (if agree 3 va va' then v else leaf (mem s) pt va')"
    using st(3) by (simp add: t_def)
  show "tab (mem t) pt va' 2 = tab (mem s) pt va' 2"
    using store_leaf_tab [OF tree p, of 2 v va'] by (simp add: t_def)
qed

lemma leaf_load: "tab m pt va 2 = Some p \<Longrightarrow> load64 m (pteaddr p 2 va) = leaf m pt va"
  by (simp add: leaf_def)

lemma leaf_valid_tab: "pte_valid (leaf m pt va) \<Longrightarrow> \<exists>p. tab m pt va 2 = Some p"
  by (cases "tab m pt va 2") (auto simp: leaf_def)

section \<open>Page numbers\<close>

definition upg :: "nat \<Rightarrow> uint64" where
  "upg i = of_nat (4096 * i)"

lemma unat_upg [simp]: "i < 2 ^ 52 \<Longrightarrow> unat (upg i) = 4096 * i"
  by (simp only: upg_def) (rule unat_of_nat64, simp)

lemma upg_0 [simp]: "upg 0 = 0" by (simp add: upg_def)

lemma upg_Suc: "upg (Suc i) = upg i + PGSIZE"
  by (simp add: upg_def PGSIZE_def algebra_simps)

lemma upg_add: "upg (i + k) = upg i + upg k"
  by (simp add: upg_def algebra_simps)

lemma upg_aligned [simp]: "page_aligned (upg i)"
proof (induction i)
  case 0
  show ?case by (simp add: page_aligned_def)
qed (simp add: upg_Suc page_aligned_next)

lemma upg_eq_iff: "i < 2 ^ 52 \<Longrightarrow> j < 2 ^ 52 \<Longrightarrow> upg i = upg j \<longleftrightarrow> i = j"
  by (auto simp: word_unat_eq_iff)

lemma upg_less_iff: "i < 2 ^ 52 \<Longrightarrow> j < 2 ^ 52 \<Longrightarrow> upg i < upg j \<longleftrightarrow> i < j"
  by (auto simp: word_less_nat_alt)

definition NPAGES :: nat where
  \<comment> \<open>the pages below \<^verbatim>\<open>MAXVA\<close>\<close>
  "NPAGES = 2 ^ 26"

lemma upg_MAXVA: "i < NPAGES \<Longrightarrow> upg i < MAXVA"
  by (simp add: word_less_nat_alt const_defs NPAGES_def)

lemma upg_agree: "i < NPAGES \<Longrightarrow> j < NPAGES \<Longrightarrow> agree 3 (upg i) (upg j) \<longleftrightarrow> i = j"
  by (simp add: agree3_page upg_MAXVA upg_eq_iff NPAGES_def)

lemma upg_page:
  assumes "va < MAXVA"
  obtains i where "i < NPAGES" "PGROUNDDOWN va = upg i"
proof
  have lt: "unat va < 2 ^ 38" using assms by (simp add: word_less_nat_alt const_defs)
  then show "unat va div 4096 < NPAGES" by (simp add: NPAGES_def)
  then show "PGROUNDDOWN va = upg (unat va div 4096)"
    by (simp add: word_unat_eq_iff unat_PGROUNDDOWN NPAGES_def)
qed

lemma leaf_PGROUNDDOWN: "leaf m pt (PGROUNDDOWN va) = leaf m pt va"
proof -
  have ag: "agree d (PGROUNDDOWN va) va" for d by (simp add: agree_def)
  show ?thesis using tab_agree [OF ag [of 2], of m pt] by (simp add: leaf_def pteaddr_def split: option.split)
qed

section \<open>mappages\<close>

text \<open>
  The pages \<open>i\<close> to \<open>i + n\<close> get entries for consecutive physical pages; on failure a
  proper prefix of them, \<open>k\<close> pages, has been mapped and no page is free.
\<close>

definition mapped :: "'a kmem_scheme \<Rightarrow> uint64 \<Rightarrow> uint64 list \<Rightarrow> nat \<Rightarrow> nat \<Rightarrow> uint64 \<Rightarrow> uint64 \<Rightarrow> int \<Rightarrow> 'a kmem_scheme \<Rightarrow> bool" where
  "mapped s pt ps i n pa perm r t \<longleftrightarrow> (\<exists>us qs k. ptchg s pt ps t us qs
     \<and> (r = 0 \<and> k = Suc n \<or> r = -1 \<and> k \<le> n \<and> qs = [])
     \<and> (\<forall>j < NPAGES. leaf (mem t) pt (upg j) =
          (if i \<le> j \<and> j < i + k then PA2PTE (pa + upg (j - i)) OR perm OR PTE_V
           else leaf (mem s) pt (upg j))))"

lemma mapped_fail: "grown s pt ps t us [] \<Longrightarrow> mapped s pt ps i n pa perm (-1) t"
  unfolding mapped_def grown_def by (rule exI [of _ us], rule exI [of _ "[]"], rule exI [of _ 0]) auto

lemma mapped_step:
  assumes t: "ptchg s pt ps t us qs" "i + Suc n < NPAGES"
    and lf: "\<forall>j < NPAGES. leaf (mem t) pt (upg j) =
      (if j = i then PA2PTE pa OR perm OR PTE_V else leaf (mem s) pt (upg j))"
    and m: "mapped t pt qs (Suc i) n (pa + PGSIZE) perm r u"
  shows "mapped s pt ps i (Suc n) pa perm r u"
proof -
  from m obtain us' qs' k where c: "ptchg t pt qs u us' qs'"
    and r: "r = 0 \<and> k = Suc n \<or> r = -1 \<and> k \<le> n \<and> qs' = []"
    and l: "\<And>j. j < NPAGES \<Longrightarrow> leaf (mem u) pt (upg j) =
      (if Suc i \<le> j \<and> j < Suc i + k then PA2PTE (pa + PGSIZE + upg (j - Suc i)) OR perm OR PTE_V
       else leaf (mem t) pt (upg j))"
    unfolding mapped_def by blast
  have e: "pa + PGSIZE + upg (j - Suc i) = pa + upg (j - i)" if "Suc i \<le> j" for j
  proof -
    have "j - i = Suc (j - Suc i)" using that by simp
    then show ?thesis by (simp add: upg_Suc algebra_simps)
  qed
  have "leaf (mem u) pt (upg j) = (if i \<le> j \<and> j < i + Suc k then PA2PTE (pa + upg (j - i)) OR perm OR PTE_V
      else leaf (mem s) pt (upg j))" if "j < NPAGES" for j
    using l [OF that] lf that by (cases "j = i") (auto simp: e)
  then show ?thesis unfolding mapped_def
    using ptchg_trans [OF t(1) c] r by (intro exI [of _ "us @ us'"] exI [of _ qs'] exI [of _ "Suc k"]) auto
qed

lemma map_one:
  assumes w: "walked 2 s pt ps (upg i) a t" "a \<noteq> 0" "i < NPAGES"
  obtains us qs where "load64 (mem t) a = leaf (mem s) pt (upg i)" "only_mem s t"
    "ptchg s pt ps (t\<lparr>mem := store64 (mem t) a v\<rparr>) us qs"
    "\<forall>j < NPAGES. leaf (store64 (mem t) a v) pt (upg j) = (if j = i then v else leaf (mem s) pt (upg j))"
    "length us \<le> 2"
proof -
  from w obtain us qs p where g: "grown s pt ps t us qs" and us: "length us \<le> 2" and p: "tab (mem t) pt (upg i) 2 = Some p"
    and a: "a = pteaddr p 2 (upg i)" by (auto simp: walked_def)
  then have c: "ptchg s pt ps t us qs" and l: "leaf (mem t) pt = leaf (mem s) pt"
    and inv: "vm_inv t pt qs" by (auto simp: grown_def ptchg_def)
  note sl = set_leaf [OF inv p, of v, folded a]
  show thesis
  proof (rule that [of us qs])
    show "load64 (mem t) a = leaf (mem s) pt (upg i)" using leaf_load [OF p] a l by simp
    show "only_mem s t" using c by (simp add: ptchg_def)
    show "ptchg s pt ps (t\<lparr>mem := store64 (mem t) a v\<rparr>) us qs"
      using ptchg_trans [OF c sl(1)] by simp
    show "\<forall>j < NPAGES. leaf (store64 (mem t) a v) pt (upg j) = (if j = i then v else leaf (mem s) pt (upg j))"
      using sl(2) l w(3) by (simp add: upg_agree eq_commute)
    show "length us \<le> 2" by (rule us)
  qed
qed

lemma mappages_loop_step:
  assumes inv: "vm_inv s pt ps" "i < NPAGES" "\<not> pte_valid (leaf (mem s) pt (upg i))"
    and fail: "\<And>t us. grown s pt ps t us [] \<Longrightarrow> length us < 2 \<Longrightarrow> Q (-1) t"
    and ok: "\<And>t us qs. ptchg s pt ps t us qs \<Longrightarrow> length us \<le> 2 \<Longrightarrow>
      \<forall>j < NPAGES. leaf (mem t) pt (upg j) =
        (if j = i then PA2PTE pa OR perm OR PTE_V else leaf (mem s) pt (upg j)) \<Longrightarrow>
      (if upg i = lst then Q 0 t else wp (mappages_loop pt (upg (Suc i)) lst (pa + PGSIZE) perm) Q t)"
  shows "wp (mappages_loop pt (upg i) lst pa perm) Q s"
proof -
  have "wp (walk pt (upg i) True) (walked 2 s pt ps (upg i)) s"
    using inv by (intro walk_alloc) (auto intro: upg_MAXVA)
  then obtain a t where wa: "walk pt (upg i) True s = Ok a t" and w: "walked 2 s pt ps (upg i) a t"
    by (auto simp: wp_iff)
  have mx: "\<not> MAXVA \<le> upg i" using inv(2) upg_MAXVA [of i] by (simp add: not_le)
  show ?thesis
  proof (cases "a = 0")
    case True
    then have "Q (-1) t" using w fail by (auto simp: walked_def)
    then show ?thesis using True wa mx by (subst mappages_loop.simps) (simp add: wp_def)
  next
    case False
    let ?v = "PA2PTE pa OR perm OR PTE_V"
    let ?t = "t\<lparr>mem := store64 (mem t) a ?v\<rparr>"
    obtain us qs where o: "load64 (mem t) a = leaf (mem s) pt (upg i)" "ptchg s pt ps ?t us qs"
      "\<forall>j < NPAGES. leaf (mem ?t) pt (upg j) = (if j = i then ?v else leaf (mem s) pt (upg j))"
      "length us \<le> 2"
      using inv(2) by (rule_tac map_one [OF w False, of ?v]) auto
    have "\<not> pte_valid (load64 (mem t) a)" using o(1) inv(3) by simp
    then show ?thesis using False wa mx ok [OF o(2,4,3)]
      by (subst mappages_loop.simps)
        (simp add: wp_def load_pte_def store_pte_def pte_valid_def upg_Suc split: if_splits)
  qed
qed

lemma mappages_loop_spec:
  assumes "vm_inv s pt ps" "i + n < NPAGES" "\<And>j. i \<le> j \<Longrightarrow> j \<le> i + n \<Longrightarrow> \<not> pte_valid (leaf (mem s) pt (upg j))"
  shows "wp (mappages_loop pt (upg i) (upg (i + n)) pa perm) (mapped s pt ps i n pa perm) s"
  using assms
proof (induction n arbitrary: s ps i pa)
  case 0
  show ?case
  proof (rule mappages_loop_step [OF 0(1)])
    fix t us assume "grown s pt ps t us []"
    then show "mapped s pt ps i 0 pa perm (-1) t" by (rule mapped_fail)
  next
    fix t us qs
    assume "ptchg s pt ps t us qs" "\<forall>j < NPAGES. leaf (mem t) pt (upg j) =
        (if j = i then PA2PTE pa OR perm OR PTE_V else leaf (mem s) pt (upg j))"
    then have "mapped s pt ps i 0 pa perm 0 t"
      unfolding mapped_def by (intro exI [of _ us] exI [of _ qs] exI [of _ "Suc 0"]) auto
    then show "if upg i = upg (i + 0) then mapped s pt ps i 0 pa perm 0 t
      else wp (mappages_loop pt (upg (Suc i)) (upg (i + 0)) (pa + PGSIZE) perm) (mapped s pt ps i 0 pa perm) t"
      by simp
  qed (use 0 in auto)
next
  case (Suc n)
  show ?case
  proof (rule mappages_loop_step [OF Suc.prems(1)])
    fix t us assume "grown s pt ps t us []"
    then show "mapped s pt ps i (Suc n) pa perm (-1) t" by (rule mapped_fail)
  next
    fix t us qs
    assume t: "ptchg s pt ps t us qs" "\<forall>j < NPAGES. leaf (mem t) pt (upg j) =
        (if j = i then PA2PTE pa OR perm OR PTE_V else leaf (mem s) pt (upg j))"
    have "wp (mappages_loop pt (upg (Suc i)) (upg (Suc i + n)) (pa + PGSIZE) perm)
        (mapped t pt qs (Suc i) n (pa + PGSIZE) perm) t"
      using t Suc.prems by (intro Suc.IH) (auto simp: ptchg_def)
    then have "wp (mappages_loop pt (upg (Suc i)) (upg (Suc i + n)) (pa + PGSIZE) perm)
        (mapped s pt ps i (Suc n) pa perm) t"
      using mapped_step [OF t(1) Suc.prems(2) t(2)] by (elim wp_mono) blast
    moreover have "upg i \<noteq> upg (i + Suc n)" using Suc.prems(2) by (subst upg_eq_iff) (auto simp: NPAGES_def)
    ultimately show "if upg i = upg (i + Suc n) then mapped s pt ps i (Suc n) pa perm 0 t
      else wp (mappages_loop pt (upg (Suc i)) (upg (i + Suc n)) (pa + PGSIZE) perm) (mapped s pt ps i (Suc n) pa perm) t"
      by simp
  qed (use Suc.prems in auto)
qed

section \<open>Allocating, freeing and writing beside a page table\<close>

lemma same_pagesI:
  assumes "vm_inv s pt ps" "\<And>x. PGROUNDDOWN x \<in> tabs (mem s) pt \<Longrightarrow> m x = mem s x"
  shows "same_pages (tabs (mem s) pt) (mem s) m"
  unfolding same_pages_def using assms page_outside vm_inv_aligned by blast

lemma vm_inv_write:
  assumes inv: "vm_inv s pt ps" and m: "\<And>x. PGROUNDDOWN x \<in> tabs (mem s) pt \<union> set ps \<Longrightarrow> m x = mem s x"
  shows "vm_inv (s\<lparr>mem := m\<rparr>) pt ps" "tabs m pt = tabs (mem s) pt" "leaf m pt = leaf (mem s) pt"
    "tab m pt va 2 = tab (mem s) pt va 2"
proof -
  have al: "page_aligned pt" using inv by (simp add: vm_inv_def pt_tree_def)
  have same: "same_pages (tabs (mem s) pt) (mem s) m"
    using m by (intro same_pagesI [OF inv]) simp
  show "tabs m pt = tabs (mem s) pt" "leaf m pt = leaf (mem s) pt"
    using pt_frame [OF al same] by auto
  show "tab m pt va 2 = tab (mem s) pt va 2" using tab_frame [OF al same, of 2] by simp
  have "kmem_inv (s\<lparr>mem := m\<rparr>) ps"
  proof (rule kmem_inv_frame)
    fix p x assume "p \<in> set ps" "in_range p 4096 x"
    then show "m x = mem s x"
      using inv page_outside [of p x] by (intro m) (auto simp: vm_inv_def kmem_inv_def phys_page_def)
  qed (use inv in \<open>simp add: vm_inv_def\<close>)
  then show "vm_inv (s\<lparr>mem := m\<rparr>) pt ps" using inv pt_frame [OF al same] by (simp add: vm_inv_def)
qed

lemma vm_kfree:
  assumes inv: "vm_inv s pt ps" and pa: "phys_page s pa" "pa \<notin> set ps" "pa \<notin> tabs (mem s) pt"
  defines "t \<equiv> s\<lparr>mem := store64 (memset (mem s) pa 1 4096) pa (freelist s), freelist := pa\<rparr>"
  shows "kfree pa s = Ok () t" "vm_inv t pt (pa # ps)" "tabs (mem t) pt = tabs (mem s) pt"
    "leaf (mem t) pt = leaf (mem s) pt" "tab (mem t) pt va 2 = tab (mem s) pt va 2"
    "PGROUNDDOWN x \<noteq> pa \<Longrightarrow> mem t x = mem s x"
proof -
  show "kfree pa s = Ok () t" unfolding t_def using inv pa(1) by (intro kfree_eq) (simp_all add: vm_inv_def)
  have al: "page_aligned pt" "page_aligned pa" using inv pa(1) by (auto simp: vm_inv_def pt_tree_def phys_page_def)
  show chg: "mem t x = mem s x" if "PGROUNDDOWN x \<noteq> pa" for x
    using that page_outside [OF al(2), of x] by (auto simp: t_def intro: kfree_mem_outside)
  have same: "same_pages (tabs (mem s) pt) (mem s) (mem t)"
    using pa(3) by (intro same_pagesI [OF inv] chg) auto
  have "kmem_inv t (pa # ps)" unfolding t_def using inv pa by (intro kfree_Cons) (simp_all add: vm_inv_def)
  then show "vm_inv t pt (pa # ps)"
    using inv pa pt_frame [OF al(1) same] by (auto simp: vm_inv_def t_def kmem_inv_def)
  show "tabs (mem t) pt = tabs (mem s) pt" "leaf (mem t) pt = leaf (mem s) pt"
    using pt_frame [OF al(1) same] by auto
  show "tab (mem t) pt va 2 = tab (mem s) pt va 2" using tab_frame [OF al(1) same, of 2] by simp
qed

lemma vm_kalloc:
  assumes inv: "vm_inv s pt (q # qs)"
  defines "t \<equiv> s\<lparr>mem := memset (mem s) q 5 4096, freelist := load64 (mem s) q\<rparr>"
  shows "kalloc s = Ok q t" "vm_inv t pt qs" "tabs (mem t) pt = tabs (mem s) pt"
    "leaf (mem t) pt = leaf (mem s) pt" "PGROUNDDOWN x \<noteq> q \<Longrightarrow> mem t x = mem s x"
    "q \<noteq> 0" "phys_page s q" "q \<notin> tabs (mem s) pt" "q \<notin> set qs"
proof -
  show q: "q \<noteq> 0" "phys_page s q" "q \<notin> tabs (mem s) pt" "q \<notin> set qs"
    using inv by (auto simp: vm_inv_def kmem_inv_def)
  show "kalloc s = Ok q t" unfolding t_def using inv by (intro kalloc_Cons [where ps = qs]) (simp_all add: vm_inv_def)
  have al: "page_aligned pt" "page_aligned q" using inv q(2) by (auto simp: vm_inv_def pt_tree_def phys_page_def)
  show chg: "mem t x = mem s x" if "PGROUNDDOWN x \<noteq> q" for x
    using that page_outside [OF al(2), of x] by (auto simp: t_def memset_eq)
  have same: "same_pages (tabs (mem s) pt) (mem s) (mem t)"
    using q(3) by (intro same_pagesI [OF inv] chg) auto
  have "kmem_inv t qs" unfolding t_def using inv by (intro kalloc_Cons) (simp_all add: vm_inv_def)
  then show "vm_inv t pt qs" using inv pt_frame [OF al(1) same] by (auto simp: vm_inv_def t_def)
  show "tabs (mem t) pt = tabs (mem s) pt" "leaf (mem t) pt = leaf (mem s) pt"
    using pt_frame [OF al(1) same] by auto
qed

section \<open>uvmunmap\<close>

definition unmapped :: "'a kmem_scheme \<Rightarrow> uint64 \<Rightarrow> nat set \<Rightarrow> uint64 set \<Rightarrow> uint64 list \<Rightarrow> 'a kmem_scheme \<Rightarrow> bool" where
  \<comment> \<open>the entries of the pages \<open>I\<close> are cleared and the physical pages \<open>F\<close> freed\<close>
  "unmapped s pt I F qs t \<longleftrightarrow> vm_inv t pt qs \<and> only_mem s t \<and> tabs (mem t) pt = tabs (mem s) pt
     \<and> (\<forall>j < NPAGES. leaf (mem t) pt (upg j) = (if j \<in> I then 0 else leaf (mem s) pt (upg j)))
     \<and> (\<forall>x. PGROUNDDOWN x \<notin> tabs (mem s) pt \<union> F \<longrightarrow> mem t x = mem s x)"

definition can_unmap :: "'a kmem_scheme \<Rightarrow> uint64 \<Rightarrow> uint64 list \<Rightarrow> bool \<Rightarrow> nat \<Rightarrow> bool" where
  "can_unmap s pt ps do_free i \<longleftrightarrow> (let pte = leaf (mem s) pt (upg i) in
     pte_valid pte \<and> PTE_FLAGS pte \<noteq> PTE_V
     \<and> (do_free \<longrightarrow> phys_page s (PTE2PA pte) \<and> PTE2PA pte \<notin> set ps \<and> PTE2PA pte \<notin> tabs (mem s) pt))"

lemma uvmunmap_loop_step:
  assumes inv: "vm_inv s pt ps" "i < NPAGES" and cu: "can_unmap s pt ps df i" and lt: "upg i < end"
    and ok: "\<And>t. unmapped s pt {i} (if df then {PTE2PA (leaf (mem s) pt (upg i))} else {})
        (if df then PTE2PA (leaf (mem s) pt (upg i)) # ps else ps) t \<Longrightarrow>
      wp (uvmunmap_loop pt (upg (Suc i)) end df) Q t"
  shows "wp (uvmunmap_loop pt (upg i) end df) Q s"
proof -
  let ?pte = "leaf (mem s) pt (upg i)" and ?pa = "PTE2PA (leaf (mem s) pt (upg i))"
  from cu obtain p where p: "tab (mem s) pt (upg i) 2 = Some p"
    using leaf_valid_tab [of "mem s" pt "upg i"] by (auto simp: can_unmap_def Let_def)
  let ?a = "pteaddr p 2 (upg i)"
  have a: "walk pt (upg i) False s = Ok ?a s" "?a \<noteq> 0" "load64 (mem s) ?a = ?pte"
    using walk_read [OF upg_MAXVA [OF inv(2)], of pt s] p pteaddr_nonzero [OF inv(1) tab2_in_tabs [OF p]]
      leaf_load [OF p] by simp_all
  define s1 where "s1 = (if df then s\<lparr>mem := store64 (memset (mem s) ?pa 1 4096) ?pa (freelist s), freelist := ?pa\<rparr> else s)"
  define ps1 where "ps1 = (if df then ?pa # ps else ps)"
  have s1: "whenk df (kfree ?pa) s = Ok () s1" "vm_inv s1 pt ps1" "tabs (mem s1) pt = tabs (mem s) pt"
    "leaf (mem s1) pt = leaf (mem s) pt" "tab (mem s1) pt (upg i) 2 = Some p" "only_mem s s1"
    "\<forall>x. PGROUNDDOWN x \<notin> (if df then {?pa} else {}) \<longrightarrow> mem s1 x = mem s x"
    using vm_kfree [OF inv(1), of ?pa] cu p inv(1)
    by (auto simp: s1_def ps1_def can_unmap_def Let_def)
  note sl = set_leaf [OF s1(2,5), of 0]
  let ?t = "s1\<lparr>mem := store64 (mem s1) ?a 0\<rparr>"
  have "unmapped s pt {i} (if df then {?pa} else {}) ps1 ?t"
    using sl s1 inv(2) only_mem_trans [OF s1(6)]
    by (auto simp: unmapped_def ptchg_def upg_agree)
  then have "wp (uvmunmap_loop pt (upg (Suc i)) end df) Q ?t" using ok by (simp add: ps1_def)
  moreover have "\<not> MAXVA \<le> upg i" using inv(2) upg_MAXVA by (simp add: not_le)
  ultimately show ?thesis
    using a cu lt s1(1) by (subst uvmunmap_loop.simps)
      (simp add: wp_def load_pte_def store_pte_def can_unmap_def Let_def pte_valid_def upg_Suc)
qed

lemma unmapped_trans:
  "unmapped s pt I F qs t \<Longrightarrow> unmapped t pt J G qs' u \<Longrightarrow> unmapped s pt (I \<union> J) (F \<union> G) qs' u"
  unfolding unmapped_def by (auto intro: only_mem_trans)

lemma unmapped_refl: "vm_inv s pt ps \<Longrightarrow> unmapped s pt {} {} ps s"
  by (simp add: unmapped_def)

end
