(* ===== verification/Vm_Space.thy ===== *)
theory Vm_Space
  imports Vm_Map
begin

text \<open>
  User address spaces: the pages a process owns through its page table.  \<open>uspace s pt ps I\<close>
  says that exactly the virtual pages of \<open>I\<close> (below the trap frame) are mapped, each to a
  physical page of its own that is neither free nor a table page.  The lemmas show that
  \<^verbatim>\<open>uvmunmap\<close>, \<^verbatim>\<open>mappages\<close>, \<^verbatim>\<open>uvmalloc\<close> and \<^verbatim>\<open>uvmdealloc\<close> keep it, and that they keep the
  entries and the contents of the pages they are not about (\<open>keeps\<close>).
\<close>

section \<open>Address spaces\<close>

definition upage :: "mem \<Rightarrow> uint64 \<Rightarrow> nat \<Rightarrow> uint64" where
  "upage m pt i = PTE2PA (leaf m pt (upg i))"

definition UPAGES :: nat where
  \<comment> \<open>the pages below \<^verbatim>\<open>TRAPFRAME\<close>\<close>
  "UPAGES = NPAGES - 2"

definition uspace :: "'a kmem_scheme \<Rightarrow> uint64 \<Rightarrow> uint64 list \<Rightarrow> nat set \<Rightarrow> bool" where
  "uspace s pt ps I \<longleftrightarrow> vm_inv s pt ps \<and> I \<subseteq> {..<UPAGES} \<and> (\<forall>i \<in> I. can_unmap s pt ps True i)
     \<and> inj_on (upage (mem s) pt) I
     \<and> (\<forall>i < UPAGES. i \<notin> I \<longrightarrow> \<not> pte_valid (leaf (mem s) pt (upg i)))"

definition keeps :: "'a kmem_scheme \<Rightarrow> uint64 \<Rightarrow> nat set \<Rightarrow> 'a kmem_scheme \<Rightarrow> bool" where
  "keeps s pt I t \<longleftrightarrow> only_mem s t \<and> (\<forall>i \<in> I. leaf (mem t) pt (upg i) = leaf (mem s) pt (upg i))
     \<and> (\<forall>i \<in> I. \<forall>x. PGROUNDDOWN x = upage (mem s) pt i \<longrightarrow> mem t x = mem s x)"

lemma keeps_refl [simp]: "keeps s pt I s" by (simp add: keeps_def)

lemma keeps_trans: "keeps s pt I t \<Longrightarrow> keeps t pt I u \<Longrightarrow> keeps s pt I u"
  by (auto simp: keeps_def upage_def intro: only_mem_trans)

lemma keeps_mono: "keeps s pt I t \<Longrightarrow> J \<subseteq> I \<Longrightarrow> keeps s pt J t"
  by (auto simp: keeps_def)

lemma uspace_inv: "uspace s pt ps I \<Longrightarrow> vm_inv s pt ps" by (simp add: uspace_def)

lemma upage_phys: "uspace s pt ps I \<Longrightarrow> i \<in> I \<Longrightarrow>
    phys_page s (upage (mem s) pt i) \<and> upage (mem s) pt i \<notin> set ps \<and> upage (mem s) pt i \<notin> tabs (mem s) pt"
  by (auto simp: uspace_def can_unmap_def upage_def Let_def)

lemma uspace_bound: "uspace s pt ps I \<Longrightarrow> i \<in> I \<Longrightarrow> i < NPAGES"
  by (auto simp: uspace_def UPAGES_def)

lemma UPAGES_less: "i \<le> UPAGES \<Longrightarrow> i < NPAGES" by (simp add: UPAGES_def NPAGES_def)

section \<open>Unmapping pages\<close>

lemma uspace_unmap:
  assumes us: "uspace s pt ps I" and i: "i \<in> I"
    and un: "unmapped s pt {i} {upage (mem s) pt i} (upage (mem s) pt i # ps) t"
  shows "uspace t pt (upage (mem s) pt i # ps) (I - {i})" "keeps s pt (I - {i}) t"
proof -
  have lf: "leaf (mem t) pt (upg j) = (if j = i then 0 else leaf (mem s) pt (upg j))" if "j < NPAGES" for j
    using un that by (auto simp: unmapped_def)
  have up: "upage (mem t) pt j = upage (mem s) pt j" if "j \<in> I - {i}" for j
    using that lf uspace_bound [OF us] by (auto simp: upage_def)
  have ne: "upage (mem s) pt j \<noteq> upage (mem s) pt i" if "j \<in> I - {i}" for j
    using that us i by (auto simp: uspace_def inj_on_def)
  have ph: "phys_page t = phys_page s" using un by (auto simp: unmapped_def intro: only_mem_phys)
  have "can_unmap t pt (upage (mem s) pt i # ps) True j" if "j \<in> I - {i}" for j
    using that us ne [OF that] lf [of j] un ph uspace_bound [OF us, of j]
    by (auto simp: uspace_def can_unmap_def unmapped_def upage_def Let_def)
  moreover have "inj_on (upage (mem t) pt) (I - {i})"
  proof (rule inj_onI)
    fix x y assume xy: "x \<in> I - {i}" "y \<in> I - {i}" "upage (mem t) pt x = upage (mem t) pt y"
    then have "upage (mem s) pt x = upage (mem s) pt y" by (simp add: up)
    then show "x = y" using xy us by (auto simp: uspace_def inj_on_def)
  qed
  ultimately show "uspace t pt (upage (mem s) pt i # ps) (I - {i})"
    using us un lf by (auto simp: uspace_def unmapped_def UPAGES_def)
  have "mem t x = mem s x" if "j \<in> I - {i}" "PGROUNDDOWN x = upage (mem s) pt j" for j x
    using that ne [OF that(1)] upage_phys [OF us, of j] un by (auto simp: unmapped_def)
  then show "keeps s pt (I - {i}) t"
    using un lf uspace_bound [OF us] by (auto simp: keeps_def unmapped_def)
qed

lemma keeps_upage: "keeps s pt I t \<Longrightarrow> i \<in> I \<Longrightarrow> upage (mem t) pt i = upage (mem s) pt i"
  by (simp add: keeps_def upage_def)

lemma uvmunmap_loop_spec:
  assumes "uspace s pt ps I" "{j..<n} \<subseteq> I" "j \<le> n"
  shows "wp (uvmunmap_loop pt (upg j) (upg n) True) (\<lambda>_ t. tabs (mem t) pt = tabs (mem s) pt
    \<and> (\<exists>qs. uspace t pt (qs @ ps) (I - {j..<n})
      \<and> set qs = upage (mem s) pt ` {j..<n} \<and> keeps s pt (I - {j..<n}) t)) s"
  using assms
proof (induction "n - j" arbitrary: s ps I j)
  case 0
  then have "j = n" by simp
  then show ?case using 0 by (subst uvmunmap_loop.simps) (auto intro: exI [of _ "[]"])
next
  case (Suc k)
  then have j: "j < n" "j \<in> I" by auto
  then have b: "j < NPAGES" "n \<le> NPAGES"
    using Suc.prems uspace_bound [OF Suc.prems(1), of j] uspace_bound [OF Suc.prems(1), of "n - 1"]
    by (auto simp: subset_iff)
  show ?case
  proof (rule uvmunmap_loop_step [OF uspace_inv [OF Suc.prems(1)] b(1)])
    show "can_unmap s pt ps True j" using Suc.prems(1) j by (simp add: uspace_def)
    show "upg j < upg n" using j b by (subst upg_less_iff) (auto simp: NPAGES_def)
    fix t
    assume "unmapped s pt {j} (if True then {PTE2PA (leaf (mem s) pt (upg j))} else {})
      (if True then PTE2PA (leaf (mem s) pt (upg j)) # ps else ps) t"
    then have un: "unmapped s pt {j} {upage (mem s) pt j} (upage (mem s) pt j # ps) t" by (simp add: upage_def)
    note ut = uspace_unmap [OF Suc.prems(1) j(2) un]
    have eq: "I - {j} - {Suc j..<n} = I - {j..<n}" using j by auto
    have tt: "tabs (mem t) pt = tabs (mem s) pt" using un by (simp add: unmapped_def)
    have "wp (uvmunmap_loop pt (upg (Suc j)) (upg n) True) (\<lambda>_ u. tabs (mem u) pt = tabs (mem t) pt
        \<and> (\<exists>qs. uspace u pt (qs @ upage (mem s) pt j # ps)
          (I - {j} - {Suc j..<n}) \<and> set qs = upage (mem t) pt ` {Suc j..<n} \<and> keeps t pt (I - {j} - {Suc j..<n}) u)) t"
      using Suc.hyps(2) Suc.prems j by (intro Suc.hyps(1) ut) auto
    moreover have "upage (mem t) pt ` {Suc j..<n} = upage (mem s) pt ` {Suc j..<n}"
      using Suc.prems(2) by (intro image_cong keeps_upage [OF ut(2)]) auto
    moreover have "keeps s pt (I - {j..<n}) t" using ut(2) j by (elim keeps_mono) auto
    ultimately show "wp (uvmunmap_loop pt (upg (Suc j)) (upg n) True) (\<lambda>_ u. tabs (mem u) pt = tabs (mem s) pt
      \<and> (\<exists>qs. uspace u pt (qs @ ps) (I - {j..<n})
        \<and> set qs = upage (mem s) pt ` {j..<n} \<and> keeps s pt (I - {j..<n}) u)) t"
      unfolding eq tt
    proof (elim wp_mono exE conjE)
      fix u qs
      assume k: "keeps s pt (I - {j..<n}) t" and im: "upage (mem t) pt ` {Suc j..<n} = upage (mem s) pt ` {Suc j..<n}"
        and tu: "tabs (mem u) pt = tabs (mem s) pt"
        and u: "uspace u pt (qs @ upage (mem s) pt j # ps) (I - {j..<n})"
          "set qs = upage (mem t) pt ` {Suc j..<n}" "keeps t pt (I - {j..<n}) u"
      have "{j..<n} = insert j {Suc j..<n}" using j(1) by auto
      then have "set (qs @ [upage (mem s) pt j]) = upage (mem s) pt ` {j..<n}" using u(2) im by simp
      then show "tabs (mem u) pt = tabs (mem s) pt \<and> (\<exists>qs. uspace u pt (qs @ ps) (I - {j..<n})
          \<and> set qs = upage (mem s) pt ` {j..<n} \<and> keeps s pt (I - {j..<n}) u)"
        using u tu keeps_trans [OF k u(3)] by (intro conjI exI [of _ "qs @ [upage (mem s) pt j]"]) simp_all
    qed
  qed
qed

section \<open>Mapping a page\<close>

lemma mappages_one: "i < NPAGES \<Longrightarrow> mappages pt (upg i) PGSIZE pa perm = mappages_loop pt (upg i) (upg i) pa perm"
proof -
  assume i: "i < NPAGES"
  have "unat (upg i + PGSIZE - 1) = 4096 * i + 4095"
    using i by (simp add: PGSIZE_def NPAGES_def unat_word_ariths)
  then have "unat (PGROUNDDOWN (upg i + PGSIZE - 1)) = unat (upg i)"
    using i by (simp add: unat_PGROUNDDOWN NPAGES_def)
  then have "PGROUNDDOWN (upg i + PGSIZE - 1) = upg i" by (simp only: word_unat_eq_iff)
  then show ?thesis by (simp add: mappages_def)
qed

definition user_perm :: "uint64 \<Rightarrow> bool" where
  \<comment> \<open>permission bits of a leaf, beside the valid bit\<close>
  "user_perm perm \<longleftrightarrow> flags_only perm \<and> perm OR PTE_V \<noteq> PTE_V"

lemma new_pte:
  assumes "page_aligned pa" "user_perm perm"
  shows "pte_valid (PA2PTE pa OR perm OR PTE_V)" "PTE2PA (PA2PTE pa OR perm OR PTE_V) = pa"
    "PTE_FLAGS (PA2PTE pa OR perm OR PTE_V) = perm OR PTE_V"
  using assms PTE2PA_or_flags [of pa "perm OR PTE_V"] PTE_FLAGS_or_flags [of "perm OR PTE_V" pa]
    PTE_V_valid(1) [of "PA2PTE pa OR perm"]
  by (simp_all add: user_perm_def or.assoc)

lemma uspace_grow:
  assumes us: "uspace s pt ps I" and c: "ptchg s pt ps t us' qs" and lf: "\<forall>j < NPAGES. leaf (mem t) pt (upg j) = leaf (mem s) pt (upg j)"
  shows "uspace t pt qs I" "keeps s pt I t"
proof -
  have up: "upage (mem t) pt j = upage (mem s) pt j" if "j \<in> I" for j
    using that lf uspace_bound [OF us] by (auto simp: upage_def)
  have ps: "set ps = set us' \<union> set qs" "tabs (mem t) pt = tabs (mem s) pt \<union> set us'" "vm_inv t pt qs"
    "phys_page t = phys_page s"
    using c by (auto simp: ptchg_def intro: only_mem_phys)
  have "can_unmap t pt qs True j" if "j \<in> I" for j
    using that us lf ps uspace_bound [OF us, of j] by (auto simp: uspace_def can_unmap_def Let_def)
  moreover have "inj_on (upage (mem t) pt) I" using us up by (auto simp: uspace_def inj_on_def)
  ultimately show "uspace t pt qs I" using us lf ps by (auto simp: uspace_def UPAGES_def)
  show "keeps s pt I t"
    using c lf uspace_bound [OF us] upage_phys [OF us] by (auto simp: keeps_def ptchg_def)
qed

lemma uspace_map:
  assumes us: "uspace s pt ps I" and i: "i < UPAGES" "i \<notin> I"
    and pa: "phys_page s pa" "pa \<notin> set ps" "pa \<notin> tabs (mem s) pt" "pa \<notin> upage (mem s) pt ` I" "user_perm perm"
    and c: "ptchg s pt ps t us' qs"
    and lf: "\<forall>j < NPAGES. leaf (mem t) pt (upg j) = (if j = i then PA2PTE pa OR perm OR PTE_V else leaf (mem s) pt (upg j))"
  shows "uspace t pt qs (insert i I)" "keeps s pt I t" "upage (mem t) pt i = pa"
    "PGROUNDDOWN x = pa \<Longrightarrow> mem t x = mem s x"
proof -
  have al: "page_aligned pa" using pa(1) by (simp add: phys_page_def)
  note np = new_pte [OF al pa(5)]
  have i': "i < NPAGES" using i by (simp add: UPAGES_def)
  have up: "upage (mem t) pt j = upage (mem s) pt j" if "j \<in> I" for j
    using that lf uspace_bound [OF us] i(2) by (auto simp: upage_def)
  show upi: "upage (mem t) pt i = pa" using lf i' np(2) by (simp add: upage_def)
  have ps: "set ps = set us' \<union> set qs" "tabs (mem t) pt = tabs (mem s) pt \<union> set us'" "vm_inv t pt qs"
    "phys_page t = phys_page s" "only_mem s t"
    using c by (auto simp: ptchg_def intro: only_mem_phys)
  have "can_unmap t pt qs True j" if "j \<in> I" for j
    using that us lf ps uspace_bound [OF us, of j] i(2) by (auto simp: uspace_def can_unmap_def Let_def)
  moreover have "can_unmap t pt qs True i"
    using lf i' np pa ps by (auto simp: can_unmap_def Let_def user_perm_def)
  moreover have "inj_on (upage (mem t) pt) (insert i I)"
  proof -
    have "upage (mem t) pt ` I = upage (mem s) pt ` I" by (intro image_cong up) simp_all
    moreover have "inj_on (upage (mem t) pt) I"
      using us inj_on_cong [of I "upage (mem t) pt" "upage (mem s) pt"] up by (simp add: uspace_def)
    ultimately show ?thesis using upi pa(4) i(2) by (simp add: inj_on_insert)
  qed
  ultimately show "uspace t pt qs (insert i I)" using us lf ps i by (auto simp: uspace_def UPAGES_def)
  show "keeps s pt I t"
    using c lf uspace_bound [OF us] upage_phys [OF us] i(2) by (auto simp: keeps_def ptchg_def)
  show "mem t x = mem s x" if "PGROUNDDOWN x = pa"
    using c that pa ps(1) by (auto simp: ptchg_def)
qed

lemma mappages_user:
  assumes us: "uspace s pt ps I" and i: "i < UPAGES" "i \<notin> I"
    and pa: "phys_page s pa" "pa \<notin> set ps" "pa \<notin> tabs (mem s) pt" "pa \<notin> upage (mem s) pt ` I" "user_perm perm"
  shows "wp (mappages pt (upg i) PGSIZE pa perm) (\<lambda>r t. \<exists>us' qs. ps = us' @ qs \<and> length us' \<le> 2 \<and> keeps s pt I t
    \<and> tabs (mem t) pt = tabs (mem s) pt \<union> set us'
    \<and> (\<forall>x. PGROUNDDOWN x \<notin> tabs (mem s) pt \<union> set us' \<longrightarrow> mem t x = mem s x)
    \<and> (if r = 0 then uspace t pt qs (insert i I) \<and> leaf (mem t) pt (upg i) = PA2PTE pa OR perm OR PTE_V
       else r = -1 \<and> qs = [] \<and> length us' < 2 \<and> uspace t pt qs I)) s"
proof -
  have i': "i < NPAGES" using i by (simp add: UPAGES_def)
  have "\<not> pte_valid (leaf (mem s) pt (upg i))" using us i by (simp add: uspace_def)
  then show ?thesis
    unfolding mappages_one [OF i']
  proof (rule mappages_loop_step [OF uspace_inv [OF us] i'], goal_cases)
    case (1 t us')
    then have "ptchg s pt ps t us' []" "length us' < 2" "\<forall>j < NPAGES. leaf (mem t) pt (upg j) = leaf (mem s) pt (upg j)"
      by (simp_all add: grown_def)
    from uspace_grow [OF us this(1,3)] this(1,2) show ?case
      by (intro exI [of _ us'] exI [of _ "[]"]) (simp add: ptchg_def)
  next
    case (2 t us' qs)
    from uspace_map [OF us i pa 2(1,3)] 2 i' show ?case
      by simp (intro exI [of _ us'] exI [of _ qs], simp add: ptchg_def)
  qed
qed

section \<open>Allocating and freeing beside an address space\<close>

lemma uspace_same:
  assumes "uspace s pt ps I" "vm_inv t pt qs" "only_mem s t" "tabs (mem t) pt = tabs (mem s) pt"
    "leaf (mem t) pt = leaf (mem s) pt" "\<And>i. i \<in> I \<Longrightarrow> upage (mem s) pt i \<notin> set qs"
  shows "uspace t pt qs I"
proof -
  have ph: "phys_page t = phys_page s" using assms(3) by (rule only_mem_phys)
  have "can_unmap t pt qs True i" if "i \<in> I" for i
    using that assms(1,4,5) assms(6) [OF that] ph by (auto simp: uspace_def can_unmap_def upage_def Let_def)
  then show ?thesis using assms(1,2,5) by (auto simp: uspace_def upage_def [abs_def])
qed

lemma uspace_kalloc:
  assumes us: "uspace s pt (q # qs) I"
  defines "t \<equiv> s\<lparr>mem := memset (memset (mem s) q 5 4096) q 0 4096, freelist := load64 (mem s) q\<rparr>"
  shows "kalloc s = Ok q (s\<lparr>mem := memset (mem s) q 5 4096, freelist := load64 (mem s) q\<rparr>)"
    "uspace t pt qs I" "keeps s pt I t" "q \<noteq> 0" "phys_page t q" "q \<notin> set qs" "q \<notin> tabs (mem t) pt"
    "q \<notin> upage (mem t) pt ` I" "PGROUNDDOWN x = q \<Longrightarrow> mem t x = 0" "PGROUNDDOWN x \<noteq> q \<Longrightarrow> mem t x = mem s x"
    "tabs (mem t) pt = tabs (mem s) pt"
proof -
  let ?t1 = "s\<lparr>mem := memset (mem s) q 5 4096, freelist := load64 (mem s) q\<rparr>"
  note ka = vm_kalloc [OF uspace_inv [OF us]]
  show "kalloc s = Ok q ?t1" "q \<noteq> 0" "q \<notin> set qs" by (rule ka)+
  show "phys_page t q" using ka(7) by (simp add: t_def)
  have al: "page_aligned q" using ka(7) by (simp add: phys_page_def)
  have mt: "mem t x = (if PGROUNDDOWN x = q then 0 else mem s x)" for x
    by (simp add: t_def memset_eq in_page_iff [OF al])
  then show "PGROUNDDOWN x = q \<Longrightarrow> mem t x = 0" "PGROUNDDOWN x \<noteq> q \<Longrightarrow> mem t x = mem s x" by simp_all
  have "memset (memset (mem s) q 5 4096) q 0 4096 x = mem ?t1 x"
    if "PGROUNDDOWN x \<in> tabs (mem ?t1) pt \<union> set qs" for x
    using that ka(3,8,9) by (auto simp: memset_eq in_page_iff [OF al])
  note w = vm_inv_write [OF ka(2) this]
  have inv: "vm_inv t pt qs" "tabs (mem t) pt = tabs (mem s) pt" "leaf (mem t) pt = leaf (mem s) pt"
    using w ka(3,4) by (simp_all add: t_def)
  then show "q \<notin> tabs (mem t) pt" "tabs (mem t) pt = tabs (mem s) pt" using ka(8) by simp_all
  have nq: "upage (mem s) pt i \<noteq> q" if "i \<in> I" for i using upage_phys [OF us that] by auto
  have up: "upage (mem t) pt = upage (mem s) pt" using inv(3) by (simp add: upage_def [abs_def])
  show "q \<notin> upage (mem t) pt ` I" using nq up by auto
  show "uspace t pt qs I"
    using inv upage_phys [OF us] by (intro uspace_same [OF us]) (auto simp: t_def)
  show "keeps s pt I t" using inv(3) nq mt by (auto simp: keeps_def t_def)
qed

lemma uspace_kfree:
  assumes us: "uspace s pt ps I" and pa: "phys_page s pa" "pa \<notin> set ps" "pa \<notin> tabs (mem s) pt" "pa \<notin> upage (mem s) pt ` I"
  defines "t \<equiv> s\<lparr>mem := store64 (memset (mem s) pa 1 4096) pa (freelist s), freelist := pa\<rparr>"
  shows "kfree pa s = Ok () t" "uspace t pt (pa # ps) I" "keeps s pt I t" "tabs (mem t) pt = tabs (mem s) pt"
proof -
  note kf = vm_kfree [OF uspace_inv [OF us] pa(1-3), folded t_def]
  show "kfree pa s = Ok () t" "tabs (mem t) pt = tabs (mem s) pt" by (rule kf)+
  show "uspace t pt (pa # ps) I"
    using kf upage_phys [OF us] pa(4) by (intro uspace_same [OF us]) (auto simp: t_def)
  have "mem t x = mem s x" if "i \<in> I" "PGROUNDDOWN x = upage (mem s) pt i" for i x
    using that pa(4) by (intro kf(6)) auto
  then show "keeps s pt I t" using kf(4) unfolding keeps_def by (auto simp: t_def)
qed

section \<open>uvmdealloc\<close>

definition npg :: "uint64 \<Rightarrow> nat" where
  \<comment> \<open>the number of pages of a process of this size\<close>
  "npg sz = (unat sz + 4095) div 4096"

lemma PGROUNDUP_npg: "npg sz \<le> NPAGES \<Longrightarrow> PGROUNDUP sz = upg (npg sz)"
proof -
  assume a: "npg sz \<le> NPAGES"
  then have "unat sz \<le> 2 ^ 64 - 4096" by (simp add: npg_def NPAGES_def)
  then show ?thesis using a by (simp add: word_unat_eq_iff unat_PGROUNDUP npg_def NPAGES_def)
qed

lemma npg_upg [simp]: "i \<le> NPAGES \<Longrightarrow> npg (upg i) = i"
  by (simp add: npg_def NPAGES_def)

lemma scast_ucast_31: "unat (x :: uint64) < 2 ^ 31 \<Longrightarrow> scast (ucast x :: 32 word) = x"
proof (rule bit_eqI)
  fix n assume x: "unat x < 2 ^ 31"
  have "\<not> bit x k" if "31 \<le> k" for k
  proof -
    have "unat x = take_bit 31 (unat x)" using x by (simp add: take_bit_nat_eq_self)
    then have "x = take_bit 31 x" by (simp add: word_unat_eq_iff unsigned_take_bit_eq)
    then show ?thesis using that by (metis bit_take_bit_iff not_less)
  qed
  then show "bit (scast (ucast x :: 32 word) :: uint64) n = bit x n"
    by (auto simp: bit_simps min_def not_le not_less)
qed

lemma uvmdealloc_spec:
  assumes us: "uspace s pt ps {..<npg oldsz}" and sz: "newsz \<le> oldsz" "npg oldsz \<le> UPAGES"
  shows "wp (uvmdealloc pt oldsz newsz) (\<lambda>r t. r = newsz \<and> tabs (mem t) pt = tabs (mem s) pt \<and> (\<exists>qs. uspace t pt (qs @ ps) {..<npg newsz}
    \<and> set qs = upage (mem s) pt ` {npg newsz..<npg oldsz} \<and> keeps s pt {..<npg newsz} t)) s"
proof -
  let ?n = "npg oldsz" and ?k = "npg newsz"
  have k: "?k \<le> ?n" using sz(1) by (simp add: npg_def word_le_nat_alt div_le_mono)
  have n: "?n \<le> NPAGES" using sz(2) by (simp add: UPAGES_def)
  have r: "PGROUNDUP oldsz = upg ?n" "PGROUNDUP newsz = upg ?k" using k n by (simp_all add: PGROUNDUP_npg)
  show ?thesis
  proof (cases "?k < ?n \<and> newsz \<noteq> oldsz")
    case True
    have d: "(upg ?n - upg ?k) div PGSIZE = of_nat (?n - ?k)"
    proof -
      have "upg ?n - upg ?k = upg (?n - ?k)" using k upg_add [of ?k "?n - ?k"] by simp
      then show ?thesis using n by (simp add: word_unat_eq_iff unat_div PGSIZE_def NPAGES_def)
    qed
    have sc: "scast (ucast (of_nat (?n - ?k) :: uint64) :: 32 word) = (of_nat (?n - ?k) :: uint64)"
      using n by (intro scast_ucast_31) (simp add: NPAGES_def)
    have e: "upg ?k + of_nat (?n - ?k) * PGSIZE = upg ?n"
      using k upg_add [of ?k "?n - ?k"] by (simp add: upg_def PGSIZE_def algebra_simps)
    have sub: "{?k..<?n} \<subseteq> {..<?n}" by auto
    have "upg ?k < upg ?n" using True n by (subst upg_less_iff) (auto simp: NPAGES_def)
    moreover have "upg ?k mod PGSIZE = 0" using upg_aligned by (simp add: page_aligned_def)
    moreover have "\<not> oldsz \<le> newsz" using True sz(1) by auto
    moreover have "{..<?n} - {?k..<?n} = {..<?k}" using k by auto
    then obtain t where "uvmunmap_loop pt (upg ?k) (upg ?n) True s = Ok () t" "tabs (mem t) pt = tabs (mem s) pt"
      "\<exists>qs. uspace t pt (qs @ ps) {..<?k} \<and> set qs = upage (mem s) pt ` {?k..<?n} \<and> keeps s pt {..<?k} t"
      using uvmunmap_loop_spec [OF us sub k] unfolding wp_iff by auto
    ultimately show ?thesis by (simp add: uvmdealloc_def r d sc e uvmunmap_def wp_def)
  next
    case False
    then have kn: "newsz = oldsz \<or> ?k = ?n" using k by auto
    then have "uvmdealloc pt oldsz newsz s = Ok newsz s"
      using sz(1) r by (auto simp: uvmdealloc_def)
    moreover have "?k = ?n" using kn by auto
    then have "\<exists>qs. uspace s pt (qs @ ps) {..<?k} \<and> set qs = upage (mem s) pt ` {?k..<?n} \<and> keeps s pt {..<?k} s"
      using us by (intro exI [of _ "[]"]) simp
    ultimately show ?thesis by (simp add: wp_def)
  qed
qed

section \<open>uvmalloc\<close>

abbreviation UPERM :: uint64 where
  "UPERM \<equiv> PTE_W OR PTE_X OR PTE_R OR PTE_U"

lemma UPERM_user: "user_perm UPERM"
proof -
  have "bit (UPERM OR PTE_V) 4 \<noteq> bit PTE_V 4" by (simp only: bit_or_iff flag_bits) simp
  then show ?thesis by (auto simp: user_perm_def)
qed

text \<open>
  The pages from \<open>n\<close> to \<open>k\<close> are new: filled with zeros and mapped with all user permissions.
\<close>

definition fresh :: "mem \<Rightarrow> uint64 \<Rightarrow> nat \<Rightarrow> nat \<Rightarrow> bool" where
  "fresh m pt n k \<longleftrightarrow> (\<forall>i. n \<le> i \<longrightarrow> i < k \<longrightarrow>
     leaf m pt (upg i) = PA2PTE (upage m pt i) OR UPERM OR PTE_V
     \<and> (\<forall>x. PGROUNDDOWN x = upage m pt i \<longrightarrow> m x = 0))"

lemma fresh_keeps:
  assumes "keeps s pt {..<i} t" "fresh (mem s) pt n k" "k \<le> i"
  shows "fresh (mem t) pt n k"
  unfolding fresh_def
proof (intro allI impI conjI)
  fix j assume j: "n \<le> j" "j < k"
  then have ji: "j \<in> {..<i}" using assms(3) by simp
  show "leaf (mem t) pt (upg j) = PA2PTE (upage (mem t) pt j) OR UPERM OR PTE_V"
    using assms(1,2) j ji keeps_upage [OF assms(1) ji] by (simp add: fresh_def keeps_def)
  fix x assume x: "PGROUNDDOWN x = upage (mem t) pt j"
  then have "mem t x = mem s x" using assms(1) ji keeps_upage [OF assms(1) ji] by (auto simp: keeps_def)
  also have "\<dots> = 0" using assms(2) j x keeps_upage [OF assms(1) ji] by (auto simp: fresh_def)
  finally show "mem t x = 0" .
qed

text \<open>
  \<open>taken\<close>: of the pages \<open>ps\<close> that were free at the start, those that are not free now have become
  tables or are mapped at the virtual pages from \<open>n\<close> to \<open>i\<close>; none is lost.  \<open>uvm_grown\<close> is what
  \<^verbatim>\<open>uvmalloc\<close> promises; it fails only when there are not three free pages for every new page, one for
  the page itself and two for tables on the way to it.
\<close>

definition taken :: "'a kmem_scheme \<Rightarrow> uint64 \<Rightarrow> uint64 list \<Rightarrow> nat \<Rightarrow> nat \<Rightarrow> 'a kmem_scheme \<Rightarrow> uint64 list \<Rightarrow> bool" where
  "taken s pt ps n i t qs \<longleftrightarrow> tabs (mem s) pt \<subseteq> tabs (mem t) pt
     \<and> set ps = set qs \<union> (tabs (mem t) pt - tabs (mem s) pt) \<union> upage (mem t) pt ` {n..<i}"

definition uvm_grown :: "'a kmem_scheme \<Rightarrow> uint64 \<Rightarrow> uint64 list \<Rightarrow> nat \<Rightarrow> uint64 \<Rightarrow> uint64 \<Rightarrow> 'a kmem_scheme \<Rightarrow> bool" where
  "uvm_grown s pt ps n newsz r t \<longleftrightarrow> keeps s pt {..<n} t \<and> (\<exists>qs.
     r = newsz \<and> uspace t pt qs {..<npg newsz} \<and> fresh (mem t) pt n (npg newsz) \<and> taken s pt ps n (npg newsz) t qs
     \<or> r = 0 \<and> uspace t pt qs {..<n} \<and> taken s pt ps n n t qs \<and> length ps < 3 * (npg newsz - n))"

lemma taken_step:
  assumes tk: "taken s0 pt ps0 n i s (q # us' @ qs)" and us: "uspace s pt (q # us' @ qs) I"
    and t: "tabs (mem t) pt = tabs (mem s) pt \<union> set us'" "\<And>j. j < i \<Longrightarrow> upage (mem t) pt j = upage (mem s) pt j"
  shows "upage (mem t) pt i = q \<Longrightarrow> n \<le> i \<Longrightarrow> taken s0 pt ps0 n (Suc i) t qs" "taken s0 pt ps0 n i t (q # qs)"
proof -
  have im: "upage (mem t) pt ` {n..<i} = upage (mem s) pt ` {n..<i}" using t(2) by (intro image_cong) auto
  have "tabs (mem s) pt \<inter> set (q # us' @ qs) = {}" using uspace_inv [OF us] by (simp only: vm_inv_def)
  then have dis: "set us' \<inter> tabs (mem s) pt = {}" by auto
  have le: "tabs (mem s0) pt \<subseteq> tabs (mem s) pt" using tk by (simp only: taken_def)
  then have new: "tabs (mem t) pt - tabs (mem s0) pt = (tabs (mem s) pt - tabs (mem s0) pt) \<union> set us'"
    unfolding t(1) using dis by blast
  have sub: "tabs (mem s0) pt \<subseteq> tabs (mem t) pt" unfolding t(1) using le by blast
  have ps: "set ps0 = insert q (set us' \<union> set qs) \<union> (tabs (mem s) pt - tabs (mem s0) pt) \<union> upage (mem s) pt ` {n..<i}"
    using tk by (simp add: taken_def)
  show "taken s0 pt ps0 n i t (q # qs)" unfolding taken_def new im ps list.set using sub by blast
  show "taken s0 pt ps0 n (Suc i) t qs" if "upage (mem t) pt i = q" "n \<le> i"
  proof -
    have "upage (mem t) pt ` {n..<Suc i} = insert q (upage (mem s) pt ` {n..<i})"
      using that im by (simp add: atLeastLessThanSuc)
    then show ?thesis unfolding taken_def new ps using sub by blast
  qed
qed

lemma uvmalloc_undo:
  assumes us: "uspace s pt ps {..<i}" and i: "n \<le> i" "i \<le> UPAGES" and k: "keeps s0 pt {..<n} s"
    and tk: "taken s0 pt ps0 n i s ps" and few: "length ps0 < 3 * (npg newsz - n)"
  shows "wp (bnd (uvmdealloc pt (upg i) (upg n)) (\<lambda>_. ret 0)) (uvm_grown s0 pt ps0 n newsz) s"
proof -
  have b: "i \<le> NPAGES" "n \<le> NPAGES" using i by (auto simp: UPAGES_def)
  then have "upg n \<le> upg i" using i by (simp add: word_le_nat_alt NPAGES_def)
  then obtain t qs where t: "uvmdealloc pt (upg i) (upg n) s = Ok (upg n) t" "uspace t pt (qs @ ps) {..<n}"
    "keeps s pt {..<n} t" "tabs (mem t) pt = tabs (mem s) pt" "set qs = upage (mem s) pt ` {n..<i}"
    using uvmdealloc_spec [of s pt ps "upg i" "upg n"] us i b by (auto simp: wp_iff)
  have "set (qs @ ps) = set ps \<union> upage (mem s) pt ` {n..<i}" using t(5) by auto
  then have "taken s0 pt ps0 n n t (qs @ ps)" using tk t(4) unfolding taken_def by (simp add: Un_ac)
  then have "uvm_grown s0 pt ps0 n newsz 0 t"
    unfolding uvm_grown_def using t(2) keeps_trans [OF k t(3)] few by blast
  then show ?thesis using t(1) by (simp add: wp_def)
qed

lemma upg_less_sz: "i < NPAGES \<Longrightarrow> upg i < sz \<longleftrightarrow> i < npg sz"
  by (auto simp: word_less_nat_alt npg_def NPAGES_def)

lemma uvmalloc_loop_spec:
  assumes "uspace s pt ps {..<i}" "n \<le> i" "i \<le> npg newsz" "npg newsz \<le> UPAGES"
    "keeps s0 pt {..<n} s" "fresh (mem s) pt n i"
    "taken s0 pt ps0 n i s ps" "length ps0 \<le> length ps + 3 * (i - n)"
  shows "wp (uvmalloc_loop pt (upg n) newsz (upg i)) (uvm_grown s0 pt ps0 n newsz) s"
  using assms
proof (induction "npg newsz - i" arbitrary: s ps i)
  case 0
  then have "i = npg newsz" by simp
  moreover from this have "\<not> upg i < newsz" using 0(5) by (subst upg_less_sz) (auto intro: UPAGES_less)
  ultimately show ?case using 0 by (subst uvmalloc_loop.simps) (auto simp: uvm_grown_def)
next
  case (Suc k)
  then have i: "i < npg newsz" "i < UPAGES" "i < NPAGES" "i \<notin> {..<i}" by (auto simp: UPAGES_def)
  then have lt: "upg i < newsz" "\<not> MAXVA \<le> upg i" using upg_less_sz upg_MAXVA [of i] by (auto simp: not_le)
  show ?case
  proof (cases ps)
    case Nil
    then have "kalloc s = Ok 0 s"
      using Suc.prems(1) kalloc_empty [of s] by (simp add: uspace_def vm_inv_def)
    moreover have "wp (bnd (uvmdealloc pt (upg i) (upg n)) (\<lambda>_. ret 0)) (uvm_grown s0 pt ps0 n newsz) s"
      using Suc.prems i Nil by (intro uvmalloc_undo) auto
    ultimately show ?thesis using lt by (subst uvmalloc_loop.simps) (simp add: wp_def)
  next
    case (Cons q qs)
    let ?s1 = "s\<lparr>mem := memset (mem s) q 5 4096, freelist := load64 (mem s) q\<rparr>"
    let ?s2 = "s\<lparr>mem := memset (memset (mem s) q 5 4096) q 0 4096, freelist := load64 (mem s) q\<rparr>"
    note ka = uspace_kalloc [of s pt q qs "{..<i}", OF Suc.prems(1) [unfolded Cons]]
    obtain r t us' qs' where mp: "mappages pt (upg i) PGSIZE q UPERM ?s2 = Ok r t"
      and t: "qs = us' @ qs'" "length us' \<le> 2" "keeps ?s2 pt {..<i} t" "tabs (mem t) pt = tabs (mem ?s2) pt \<union> set us'"
        "\<forall>x. PGROUNDDOWN x \<notin> tabs (mem ?s2) pt \<union> set us' \<longrightarrow> mem t x = mem ?s2 x"
        "if r = 0 then uspace t pt qs' (insert i {..<i}) \<and> leaf (mem t) pt (upg i) = PA2PTE q OR UPERM OR PTE_V
         else r = -1 \<and> qs' = [] \<and> length us' < 2 \<and> uspace t pt qs' {..<i}"
      using mappages_user [OF ka(2) i(2,4) ka(5-8) UPERM_user] unfolding wp_iff by blast
    have st: "keeps s pt {..<i} t" using keeps_trans [OF ka(3) t(3)] .
    have s0t: "keeps s0 pt {..<n} t" using keeps_trans [OF Suc.prems(5) keeps_mono [OF st]] Suc.prems(2) by auto
    have tk: "taken s0 pt ps0 n i s (q # us' @ qs')" using Suc.prems(7) t(1) Cons by simp
    have us0: "uspace s pt (q # us' @ qs') {..<i}" using Suc.prems(1) t(1) Cons by simp
    have tt: "tabs (mem t) pt = tabs (mem s) pt \<union> set us'" using t(4) ka(11) by simp
    note tk' = taken_step [OF tk us0 tt keeps_upage [OF st], simplified]
    have fr: "fresh (mem t) pt n i" using fresh_keeps [OF st Suc.prems(6)] by simp
    show ?thesis
    proof (cases "r = 0")
      case True
      have us: "uspace t pt qs' {..<Suc i}" using t(6) True by (simp add: lessThan_Suc)
      have ui: "upage (mem t) pt i = q"
        using t(6) True ka(5) new_pte(2) [OF _ UPERM_user, of q] by (simp add: upage_def phys_page_def)
      have "mem t x = 0" if "PGROUNDDOWN x = q" for x
        using that t(1,5) ka(6,7,9) by auto
      then have "fresh (mem t) pt n (Suc i)"
        using fr ui t(6) True by (auto simp: fresh_def less_Suc_eq)
      then have "wp (uvmalloc_loop pt (upg n) newsz (upg (Suc i))) (uvm_grown s0 pt ps0 n newsz) t"
        using Suc us s0t i t(1,2) Cons tk'(1) ui by (intro Suc.hyps(1)) auto
      then show ?thesis using lt ka(1,4) mp True
        by (subst uvmalloc_loop.simps) (simp add: wp_def kmemset_def upg_Suc)
    next
      case False
      then have us: "uspace t pt [] {..<i}" "qs' = []" using t(6) by auto
      have q: "phys_page t q" "q \<notin> tabs (mem t) pt" "q \<notin> upage (mem t) pt ` {..<i}"
        using ka(5-8) t(1,4) only_mem_phys [of ?s2 t] t(3) keeps_upage [OF t(3)] by (auto simp: keeps_def)
      note kf = uspace_kfree [OF us(1) q(1) _ q(2,3)]
      let ?u = "t\<lparr>mem := store64 (memset (mem t) q 1 4096) q (freelist t), freelist := q\<rparr>"
      have "taken s0 pt ps0 n i ?u [q]"
      proof -
        have "upage (mem ?u) pt ` {n..<i} = upage (mem t) pt ` {n..<i}"
          using keeps_upage [OF kf(3)] by (intro image_cong) auto
        then show ?thesis using tk'(2) us(2) kf(4) unfolding taken_def by simp
      qed
      moreover have "length ps0 < 3 * (npg newsz - n)"
        using Suc.prems(2,8) i(1) Cons t(1,6) False by auto
      ultimately have "wp (bnd (uvmdealloc pt (upg i) (upg n)) (\<lambda>_. ret 0)) (uvm_grown s0 pt ps0 n newsz) ?u"
        using kf(2,3) Suc.prems(2) i keeps_trans [OF s0t keeps_mono [OF kf(3)]]
        by (intro uvmalloc_undo [of _ pt "[q]" i]) auto
      then show ?thesis using lt ka(1,4) mp False kf(1)
        by (subst uvmalloc_loop.simps) (simp add: wp_def kmemset_def)
    qed
  qed
qed

section \<open>A concrete address space\<close>

text \<open>One page at virtual address 0, three table pages, no free page.\<close>

definition sample_pt :: uint64 where "sample_pt = 0x80100000"

definition sample_mem :: mem where
  "sample_mem =
     store64 (store64 (store64 (\<lambda>_. 0) (pteaddr sample_pt 0 0) (PA2PTE 0x80101000 OR PTE_V))
       (pteaddr 0x80101000 1 0) (PA2PTE 0x80102000 OR PTE_V))
       (pteaddr 0x80102000 2 0) (PA2PTE 0x80103000 OR UPERM OR PTE_V)"

definition sample_vm :: kmem where
  "sample_vm = zero_kmem\<lparr>mem := sample_mem\<rparr>"

lemma sample_aligned [simp]:
  "page_aligned sample_pt" "page_aligned 0x80101000" "page_aligned 0x80102000" "page_aligned 0x80103000"
  by (simp_all add: page_aligned_def PGSIZE_def sample_pt_def)

lemma sample_pt_neq [simp]:
  "0x80101000 \<noteq> sample_pt" "0x80102000 \<noteq> sample_pt" "0x80103000 \<noteq> sample_pt"
  "sample_pt \<noteq> 0x80101000" "sample_pt \<noteq> 0x80102000" "sample_pt \<noteq> 0x80103000"
  by (simp_all add: sample_pt_def)

lemma zero_page_store:
  "zero_page m q \<Longrightarrow> page_aligned p \<Longrightarrow> page_aligned q \<Longrightarrow> p \<noteq> q \<Longrightarrow> zero_page (store64 m (pteaddr p d va) v) q"
  unfolding zero_page_def by (metis pages_disjoint pteaddr_in_page(2) store64_outside)

lemma sample_tree:
  "pt_tree sample_mem sample_pt" "tabs sample_mem sample_pt = {0x80102000, 0x80101000, sample_pt}"
  "leaf sample_mem sample_pt va = (if agree 3 0 va then PA2PTE 0x80103000 OR UPERM OR PTE_V else 0)"
proof -
  let ?m0 = "(\<lambda>_. 0) :: mem"
  let ?m1 = "store64 ?m0 (pteaddr sample_pt 0 0) (PA2PTE 0x80101000 OR PTE_V)"
  let ?m2 = "store64 ?m1 (pteaddr 0x80101000 1 0) (PA2PTE 0x80102000 OR PTE_V)"
  have z: "zero_page ?m0 p" for p by (simp add: zero_page_def)
  note e = empty_table [OF sample_aligned(1) z]
  have t0: "tab ?m0 sample_pt 0 0 = Some sample_pt" by simp
  have n0: "\<not> pte_valid (load64 ?m0 (pteaddr sample_pt 0 0))" using load_pte_zero [OF sample_aligned(1) z] by simp
  have q0: "0x80101000 \<notin> tabs ?m0 sample_pt" by (simp add: e)
  have l: "(0 :: nat) < 2" "(1 :: nat) < 2" by simp_all
  note s1 = store_table [OF e(1) t0 l(1) n0 sample_aligned(2) q0 z]
  have z1: "zero_page ?m1 0x80101000" "zero_page ?m1 0x80102000"
    by (auto intro!: zero_page_store z)
  have t1: "tab ?m1 sample_pt 0 1 = Some 0x80101000" using s1(4) by simp
  have n1: "\<not> pte_valid (load64 ?m1 (pteaddr 0x80101000 1 0))"
    using load_pte_zero [OF sample_aligned(2) z1(1)] by simp
  have q1: "0x80102000 \<notin> tabs ?m1 sample_pt" by (simp add: s1(2) e)
  note s2 = store_table [OF s1(1) t1 l(2) n1 sample_aligned(3) q1 z1(2)]
  have t2: "tab ?m2 sample_pt 0 2 = Some 0x80102000" using s2(4) by (simp add: numeral_2_eq_2)
  note s3 = store_leaf [OF s2(1) t2, of "PA2PTE 0x80103000 OR UPERM OR PTE_V", folded sample_mem_def]
  show "pt_tree sample_mem sample_pt" "tabs sample_mem sample_pt = {0x80102000, 0x80101000, sample_pt}"
    "leaf sample_mem sample_pt va = (if agree 3 0 va then PA2PTE 0x80103000 OR UPERM OR PTE_V else 0)"
    using s3 s2(2,3) s1(2,3) e by simp_all
qed

lemma sample_uspace: "uspace sample_vm sample_pt [] {..<1}"
proof -
  have ph: "phys_page sample_vm sample_pt" "phys_page sample_vm 0x80101000"
    "phys_page sample_vm 0x80102000" "phys_page sample_vm 0x80103000"
    by (simp_all add: phys_page_def sample_vm_def sample_pt_def page_aligned_def const_defs)
  have "kmem_inv sample_vm []" by (simp add: kmem_inv_def sample_vm_def)
  then have "vm_inv sample_vm sample_pt []"
    using sample_tree(1,2) ph by (simp add: vm_inv_def sample_vm_def)
  moreover have lf: "leaf sample_mem sample_pt (upg i) = (if i = 0 then PA2PTE 0x80103000 OR UPERM OR PTE_V else 0)"
    if "i < NPAGES" for i
    using that upg_agree [of 0 i] by (simp add: sample_tree(3) NPAGES_def)
  note np = new_pte [OF sample_aligned(4) UPERM_user]
  have "can_unmap sample_vm sample_pt [] True 0"
    using lf [of 0] np UPERM_user sample_tree(2) ph(4)
    by (simp add: can_unmap_def Let_def sample_vm_def NPAGES_def user_perm_def)
  ultimately show ?thesis
    using lf by (auto simp: uspace_def UPAGES_def NPAGES_def sample_vm_def inj_on_def)
qed

text \<open>The same with three free pages.\<close>

definition freed :: "uint64 \<Rightarrow> kmem \<Rightarrow> kmem" where
  "freed pa s = s\<lparr>mem := store64 (memset (mem s) pa 1 4096) pa (freelist s), freelist := pa\<rparr>"

definition sample_vm3 :: kmem where
  "sample_vm3 = freed 0x80106000 (freed 0x80105000 (freed 0x80104000 sample_vm))"

lemma uspace_freed:
  assumes us: "uspace s sample_pt ps {..<1}" and s: "phys_page s = phys_page sample_vm"
    "tabs (mem s) sample_pt = tabs sample_mem sample_pt" "upage (mem s) sample_pt 0 = 0x80103000"
    and pa: "phys_page sample_vm pa" "pa \<notin> set ps \<union> {sample_pt, 0x80101000, 0x80102000, 0x80103000}"
  shows "uspace (freed pa s) sample_pt (pa # ps) {..<1}" "phys_page (freed pa s) = phys_page sample_vm"
    "tabs (mem (freed pa s)) sample_pt = tabs sample_mem sample_pt" "upage (mem (freed pa s)) sample_pt 0 = 0x80103000"
proof -
  have "pa \<notin> tabs (mem s) sample_pt" "pa \<notin> upage (mem s) sample_pt ` {..<1}" "phys_page s pa" "pa \<notin> set ps"
    using pa s sample_tree(2) by auto
  note kf = uspace_kfree [OF us this(3,4,1,2), folded freed_def]
  show "uspace (freed pa s) sample_pt (pa # ps) {..<1}" by (rule kf)
  show "phys_page (freed pa s) = phys_page sample_vm" using s(1) by (simp add: freed_def)
  show "tabs (mem (freed pa s)) sample_pt = tabs sample_mem sample_pt" using kf(4) s(2) by simp
  show "upage (mem (freed pa s)) sample_pt 0 = 0x80103000" using keeps_upage [OF kf(3), of 0] s(3) by simp
qed

lemma sample_upage: "upage (mem sample_vm) sample_pt 0 = 0x80103000"
  using new_pte(2) [OF sample_aligned(4) UPERM_user] sample_tree(3) [of 0]
  by (simp add: upage_def sample_vm_def)

lemma sample_uspace3: "uspace sample_vm3 sample_pt [0x80106000, 0x80105000, 0x80104000] {..<1}"
proof -
  have ph: "phys_page sample_vm 0x80104000" "phys_page sample_vm 0x80105000" "phys_page sample_vm 0x80106000"
    by (simp_all add: phys_page_def sample_vm_def page_aligned_def const_defs)
  have tb: "tabs (mem sample_vm) sample_pt = tabs sample_mem sample_pt" by (simp add: sample_vm_def)
  note f1 = uspace_freed [OF sample_uspace refl tb sample_upage ph(1)]
  note f2 = uspace_freed [OF f1 ph(2)]
  note f3 = uspace_freed [OF f2 ph(3), folded sample_vm3_def]
  show ?thesis by (rule f3(1)) (simp_all add: sample_pt_def)
qed

section \<open>Properties\<close>

text \<open>
  C15.  Growing a process is all or nothing.  \<^verbatim>\<open>uvmalloc\<close> either returns \<open>newsz\<close> with all
  pages up to it mapped, the new ones to zeroed pages of their own with user permissions,
  or returns 0 with exactly the old pages mapped; either way the old pages keep their entries
  and contents.  No physical page is lost or invented: the pages that were free are, after a
  failure, the pages that are free and those that became tables (which stay in the page table),
  and after success also those now mapped at the new virtual pages.  It fails only
  for want of memory: with three free pages for each new page (one for the page and two for
  tables on the way to it) it returns \<open>newsz\<close>.
\<close>

theorem uvmalloc_all_or_nothing:
  assumes "uspace s pt ps {..<npg oldsz}" "oldsz \<le> newsz" "npg newsz \<le> UPAGES"
  shows "wp (uvmalloc pt oldsz newsz) (uvm_grown s pt ps (npg oldsz) newsz) s"
proof -
  have k: "npg oldsz \<le> npg newsz" using assms(2) by (simp add: npg_def word_le_nat_alt div_le_mono)
  then have "PGROUNDUP oldsz = upg (npg oldsz)"
    using assms(3) UPAGES_less [of "npg newsz"] by (intro PGROUNDUP_npg) simp
  moreover have "\<not> newsz < oldsz" using assms(2) by simp
  ultimately show ?thesis
    using uvmalloc_loop_spec [OF assms(1) order_refl k assms(3) keeps_refl]
    by (simp add: uvmalloc_def fresh_def taken_def)
qed

text \<open>
  C25.  Shrinking a process unmaps exactly the pages from the new size on, puts their physical
  pages (and nothing else) on the free list, and keeps the other pages' entries and contents.
\<close>

theorem uvmdealloc_frees:
  assumes "uspace s pt ps {..<npg oldsz}" "newsz \<le> oldsz" "npg oldsz \<le> UPAGES"
  shows "wp (uvmdealloc pt oldsz newsz) (\<lambda>r t. r = newsz \<and> keeps s pt {..<npg newsz} t
    \<and> (\<exists>qs. uspace t pt (qs @ ps) {..<npg newsz}
        \<and> set qs = upage (mem s) pt ` {npg newsz..<npg oldsz})) s"
  using uvmdealloc_spec [OF assms] by (rule wp_mono) blast

theorem uvmdealloc_frees_witness:
  "wp (uvmdealloc sample_pt 100 0) (\<lambda>r t. r = 0 \<and> (\<exists>qs. uspace t sample_pt qs {}
     \<and> set qs = {0x80103000})) sample_vm"
proof -
  have n: "npg 100 = 1" "npg 0 = 0" by (simp_all add: npg_def)
  show ?thesis
    using sample_upage uvmdealloc_frees [of sample_vm sample_pt "[]" 100 0] sample_uspace n
    by (auto simp: UPAGES_def NPAGES_def elim!: wp_mono)
qed

theorem uvmalloc_all_or_nothing_witness:
  "wp (uvmalloc sample_pt 100 5000) (\<lambda>r t. r = 5000 \<and> keeps sample_vm3 sample_pt {0} t
     \<and> (\<exists>qs. uspace t sample_pt qs {0, 1} \<and> upage (mem t) sample_pt 1 \<in> {0x80104000, 0x80105000, 0x80106000} - set qs)) sample_vm3"
proof -
  have n: "npg 100 = 1" "npg 5000 = 2" by (simp_all add: npg_def)
  have one: "{1 ..< 2 :: nat} = {1}" "{..<2} = {0, 1 :: nat}" by auto
  have "uspace sample_vm3 sample_pt [0x80106000, 0x80105000, 0x80104000] {..<npg 100}" using sample_uspace3 n by simp
  moreover have "(100 :: uint64) \<le> 5000" "npg 5000 \<le> UPAGES" using n by (simp_all add: UPAGES_def NPAGES_def)
  ultimately have "wp (uvmalloc sample_pt 100 5000)
      (uvm_grown sample_vm3 sample_pt [0x80106000, 0x80105000, 0x80104000] (npg 100) 5000) sample_vm3"
    by (rule uvmalloc_all_or_nothing)
  then show ?thesis
  proof (elim wp_mono)
    fix r t
    assume "uvm_grown sample_vm3 sample_pt [0x80106000, 0x80105000, 0x80104000] (npg 100) 5000 r t"
    then obtain qs where u: "keeps sample_vm3 sample_pt {..<1} t" "r = 5000" "uspace t sample_pt qs {..<2}"
      "taken sample_vm3 sample_pt [0x80106000, 0x80105000, 0x80104000] 1 2 t qs"
      unfolding uvm_grown_def n by auto
    then have "upage (mem t) sample_pt 1 \<in> {0x80104000, 0x80105000, 0x80106000} - set qs"
      using upage_phys [OF u(3), of 1] unfolding taken_def one by auto
    then show "r = 5000 \<and> keeps sample_vm3 sample_pt {0} t
     \<and> (\<exists>qs. uspace t sample_pt qs {0, 1} \<and> upage (mem t) sample_pt 1 \<in> {0x80104000, 0x80105000, 0x80106000} - set qs)"
      using u(1-3) one(2) by (auto simp: lessThan_Suc)
  qed
qed

end
