(* ===== verification/Uaccess.thy ===== *)
theory Uaccess
  imports Vm_Space
begin

text \<open>
  \<^verbatim>\<open>copyout\<close>, \<^verbatim>\<open>copyin\<close> and \<^verbatim>\<open>copyinstr\<close> of \<^verbatim>\<open>kernel/vm.c\<close>, the only code through which
  the kernel touches user memory.  \<open>utrans m pt va\<close> is the physical address that the
  hardware would use for a user access to \<open>va\<close>.  The lemmas show that the routines fail
  exactly when some address has no translation, that they never write outside the pages a
  user may access whatever the arguments are, and that they copy the right bytes.

  \<open>copyout_b\<close>, \<open>copyin_b\<close> and \<open>copyinstr_b\<close> are the same loops for kernel buffers whose
  contents are a list of bytes; the rest of the kernel uses them for its own structures.
\<close>

section \<open>The routines\<close>

lemma chunk_less:
  "0 < unat (PGSIZE - (va - PGROUNDDOWN va))" "unat (PGSIZE - (va - PGROUNDDOWN va)) \<le> 4096"
  "unat (PGSIZE - (va - PGROUNDDOWN va)) = 4096 - unat va mod 4096"
proof -
  have "unat (va - PGROUNDDOWN va) = unat va mod 4096"
    using PGROUNDDOWN_le [of va] by (simp add: unat_sub unat_PGROUNDDOWN minus_mult_div_eq_mod)
  then show "unat (PGSIZE - (va - PGROUNDDOWN va)) = 4096 - unat va mod 4096"
    by (subst unat_sub) (simp_all add: word_le_nat_alt PGSIZE_def less_imp_le)
  then show "0 < unat (PGSIZE - (va - PGROUNDDOWN va))" "unat (PGSIZE - (va - PGROUNDDOWN va)) \<le> 4096"
    by simp_all
qed

definition chunk :: "uint64 \<Rightarrow> uint64 \<Rightarrow> uint64" where
  \<comment> \<open>\<^verbatim>\<open>n = PGSIZE - (va - va0); if(n > len) n = len;\<close>\<close>
  "chunk va len = (let n = PGSIZE - (va - PGROUNDDOWN va) in if len < n then len else n)"

lemma chunk_pos: "len \<noteq> 0 \<Longrightarrow> 0 < unat (chunk va len)"
  using chunk_less(1) [of va] by (auto simp: chunk_def Let_def unat_gt_0)

lemma chunk_le: "unat (chunk va len) \<le> unat len" "unat (chunk va len) \<le> 4096 - unat va mod 4096"
  using chunk_less(3) [of va] by (auto simp: chunk_def Let_def word_less_nat_alt)

lemma chunk_rest: "unat (len - chunk va len) = unat len - unat (chunk va len)"
  using chunk_le(1) [of va len] by (simp add: unat_sub word_le_nat_alt)

lemma chunk_decr: "len \<noteq> 0 \<Longrightarrow> unat (len - chunk va len) < unat len"
  using chunk_pos [of len va] chunk_le(1) [of va len] by (simp add: chunk_rest)

function copyout :: "uint64 \<Rightarrow> uint64 \<Rightarrow> uint64 \<Rightarrow> uint64 \<Rightarrow> ('a kmem_scheme, int) kmon" where
  "copyout pagetable dstva src len =
     (if len = 0 then ret 0
      else let va0 = PGROUNDDOWN dstva; n = chunk dstva len in
        bnd (walkaddr pagetable va0) (\<lambda>pa0.
        if pa0 = 0 then ret (-1)
        else
          bnd (kmemmove (pa0 + (dstva - va0)) src (unat n)) (\<lambda>_.
          copyout pagetable (va0 + PGSIZE) (src + n) (len - n))))"
  by auto

termination
  by (relation "measure (\<lambda>(pagetable, dstva, src, len). unat len)")
     (auto simp: chunk_decr)

function copyin :: "uint64 \<Rightarrow> uint64 \<Rightarrow> uint64 \<Rightarrow> uint64 \<Rightarrow> ('a kmem_scheme, int) kmon" where
  "copyin pagetable dst srcva len =
     (if len = 0 then ret 0
      else let va0 = PGROUNDDOWN srcva; n = chunk srcva len in
        bnd (walkaddr pagetable va0) (\<lambda>pa0.
        if pa0 = 0 then ret (-1)
        else
          bnd (kmemmove dst (pa0 + (srcva - va0)) (unat n)) (\<lambda>_.
          copyin pagetable (dst + n) (va0 + PGSIZE) (len - n))))"
  by auto

termination
  by (relation "measure (\<lambda>(pagetable, dst, srcva, len). unat len)")
     (auto simp: chunk_decr)

declare copyout.simps [simp del] copyin.simps [simp del]

fun copyinstr_page :: "mem \<Rightarrow> uint64 \<Rightarrow> uint64 \<Rightarrow> nat \<Rightarrow> mem \<times> bool" where
  \<comment> \<open>the inner loop \<^verbatim>\<open>while(n > 0)\<close>; the flag is \<^verbatim>\<open>got_null\<close>\<close>
  "copyinstr_page m p dst 0 = (m, False)"
| "copyinstr_page m p dst (Suc n) =
     (if m p = 0 then (m(dst := 0), True)
      else copyinstr_page (m(dst := m p)) (p + 1) (dst + 1) n)"

function copyinstr :: "uint64 \<Rightarrow> uint64 \<Rightarrow> uint64 \<Rightarrow> uint64 \<Rightarrow> ('a kmem_scheme, int) kmon" where
  "copyinstr pagetable dst srcva mx =
     (if mx = 0 then ret (-1)
      else let va0 = PGROUNDDOWN srcva; n = chunk srcva mx in
        bnd (walkaddr pagetable va0) (\<lambda>pa0.
        if pa0 = 0 then ret (-1)
        else
          bnd (gets (\<lambda>s. copyinstr_page (mem s) (pa0 + (srcva - va0)) dst (unat n))) (\<lambda>(m, got_null).
          bnd (modify (\<lambda>s. s\<lparr>mem := m\<rparr>)) (\<lambda>_.
          if got_null then ret 0
          else copyinstr pagetable (dst + n) (va0 + PGSIZE) (mx - n)))))"
  by auto

termination
  by (relation "measure (\<lambda>(pagetable, dst, srcva, mx). unat mx)")
     (auto simp: chunk_decr)

declare copyinstr.simps [simp del]

function copyout_b :: "uint64 \<Rightarrow> uint64 \<Rightarrow> uint8 list \<Rightarrow> ('a kmem_scheme, int) kmon" where
  "copyout_b pagetable dstva bs =
     (if bs = [] then ret 0
      else let va0 = PGROUNDDOWN dstva; n = min (length bs) (4096 - unat dstva mod 4096) in
        bnd (walkaddr pagetable va0) (\<lambda>pa0.
        if pa0 = 0 then ret (-1)
        else
          bnd (modify (\<lambda>s. s\<lparr>mem := store_bytes (mem s) (pa0 + (dstva - va0)) (take n bs)\<rparr>)) (\<lambda>_.
          copyout_b pagetable (va0 + PGSIZE) (drop n bs))))"
  by auto

termination
  by (relation "measure (\<lambda>(pagetable, dstva, bs). length bs)") auto

function copyin_b :: "uint64 \<Rightarrow> uint64 \<Rightarrow> nat \<Rightarrow> ('a kmem_scheme, uint8 list \<times> bool) kmon" where
  \<comment> \<open>the bytes copied, and whether all of them could be\<close>
  "copyin_b pagetable srcva len =
     (if len = 0 then ret ([], True)
      else let va0 = PGROUNDDOWN srcva; n = min len (4096 - unat srcva mod 4096) in
        bnd (walkaddr pagetable va0) (\<lambda>pa0.
        if pa0 = 0 then ret ([], False)
        else
          bnd (gets (\<lambda>s. load_bytes (mem s) (pa0 + (srcva - va0)) n)) (\<lambda>bs.
          bnd (copyin_b pagetable (va0 + PGSIZE) (len - n)) (\<lambda>(cs, ok).
          ret (bs @ cs, ok)))))"
  by auto

termination
  by (relation "measure (\<lambda>(pagetable, srcva, len). len)") auto

fun str_page :: "mem \<Rightarrow> uint64 \<Rightarrow> nat \<Rightarrow> uint8 list \<times> bool" where
  \<comment> \<open>the inner loop of \<^verbatim>\<open>copyinstr\<close>: the bytes before the NUL, and whether there was one\<close>
  "str_page m p 0 = ([], False)"
| "str_page m p (Suc n) =
     (if m p = 0 then ([], True)
      else case str_page m (p + 1) n of (bs, got_null) \<Rightarrow> (m p # bs, got_null))"

function copyinstr_b :: "uint64 \<Rightarrow> uint64 \<Rightarrow> nat \<Rightarrow> ('a kmem_scheme, uint8 list option) kmon" where
  \<comment> \<open>the string copied, without its NUL\<close>
  "copyinstr_b pagetable srcva mx =
     (if mx = 0 then ret None
      else let va0 = PGROUNDDOWN srcva; n = min mx (4096 - unat srcva mod 4096) in
        bnd (walkaddr pagetable va0) (\<lambda>pa0.
        if pa0 = 0 then ret None
        else
          bnd (gets (\<lambda>s. str_page (mem s) (pa0 + (srcva - va0)) n)) (\<lambda>(bs, got_null).
          if got_null then ret (Some bs)
          else bnd (copyinstr_b pagetable (va0 + PGSIZE) (mx - n)) (\<lambda>r.
            ret (map_option (\<lambda>cs. bs @ cs) r)))))"
  by auto

termination
  by (relation "measure (\<lambda>(pagetable, srcva, mx). mx)") auto

declare copyinstr_b.simps [simp del]
declare copyout_b.simps [simp del] copyin_b.simps [simp del]

section \<open>Translation\<close>

definition utrans :: "mem \<Rightarrow> uint64 \<Rightarrow> uint64 \<Rightarrow> uint64 option" where
  "utrans m pt va = (let pte = leaf m pt va in
     if va < MAXVA \<and> pte AND PTE_V \<noteq> 0 \<and> pte AND PTE_U \<noteq> 0
     then Some (PTE2PA pte + (va - PGROUNDDOWN va)) else None)"

definition uframe :: "mem \<Rightarrow> uint64 \<Rightarrow> uint64 set" where
  \<comment> \<open>the physical pages a user may access\<close>
  "uframe m pt = {p. \<exists>va pa. utrans m pt va = Some pa \<and> p = PGROUNDDOWN pa}"

definition confined :: "'a kmem_scheme \<Rightarrow> uint64 \<Rightarrow> uint64 list \<Rightarrow> bool" where
  \<comment> \<open>the user may access allocated pages only, and no page-table page\<close>
  "confined s pt ps \<longleftrightarrow> vm_inv s pt ps
     \<and> (\<forall>p \<in> uframe (mem s) pt. phys_page s p \<and> p \<notin> tabs (mem s) pt \<and> p \<notin> set ps)"

lemma page_offset: "page_aligned p \<Longrightarrow> unat k < 4096 \<Longrightarrow> PGROUNDDOWN (p + k) = p"
  by (rule page_outside) (simp_all add: in_range_def)

lemma off_less: "unat (va - PGROUNDDOWN va) < 4096"
  using PGROUNDDOWN_le [of va] by (simp add: unat_sub unat_PGROUNDDOWN minus_mult_div_eq_mod)

lemma MAXVA_PGROUNDDOWN: "PGROUNDDOWN va < MAXVA \<longleftrightarrow> va < MAXVA"
  by (auto simp: MAXVA_bits PGROUNDDOWN_bits)

lemma utrans_page:
  "utrans m pt va = Some pa \<Longrightarrow> PGROUNDDOWN pa = PTE2PA (leaf m pt va)"
  by (auto simp: utrans_def Let_def page_offset off_less split: if_splits)

lemma walkaddr_utrans:
  assumes "confined s pt ps"
  shows "walkaddr pt (PGROUNDDOWN va) s =
    Ok (case utrans (mem s) pt va of None \<Rightarrow> 0 | Some pa \<Rightarrow> PGROUNDDOWN pa) s"
    "utrans (mem s) pt va = Some pa \<Longrightarrow> PGROUNDDOWN pa \<noteq> 0"
    "utrans (mem s) pt va = Some pa \<Longrightarrow> pa = PGROUNDDOWN pa + (va - PGROUNDDOWN va)"
proof -
  have inv: "vm_inv s pt ps" using assms by (simp add: confined_def)
  let ?pte = "leaf (mem s) pt va"
  have w: "walkaddr pt (PGROUNDDOWN va) s =
      Ok (if va < MAXVA \<and> ?pte AND PTE_V \<noteq> 0 \<and> ?pte AND PTE_U \<noteq> 0 then PTE2PA ?pte else 0) s"
    by (simp add: walkaddr_eq [OF inv] leaf_PGROUNDDOWN MAXVA_PGROUNDDOWN Let_def)
  show "walkaddr pt (PGROUNDDOWN va) s =
    Ok (case utrans (mem s) pt va of None \<Rightarrow> 0 | Some pa \<Rightarrow> PGROUNDDOWN pa) s"
    unfolding w by (simp add: utrans_def Let_def page_offset off_less)
  have k: "0 < kend s" using inv by (simp add: vm_inv_def kmem_inv_def)
  have "phys_page s (PGROUNDDOWN pa)" if "utrans (mem s) pt va = Some pa"
    using assms that unfolding confined_def uframe_def by blast
  then show "utrans (mem s) pt va = Some pa \<Longrightarrow> PGROUNDDOWN pa \<noteq> 0"
    using k by (auto simp: phys_page_def)
  assume u: "utrans (mem s) pt va = Some pa"
  then have "pa = PTE2PA ?pte + (va - PGROUNDDOWN va)" by (simp add: utrans_def Let_def split: if_splits)
  then show "pa = PGROUNDDOWN pa + (va - PGROUNDDOWN va)" unfolding utrans_page [OF u] .
qed

section \<open>Confinement\<close>

lemma confined_write:
  assumes c: "confined s pt ps" and m: "\<forall>x. PGROUNDDOWN x \<notin> uframe (mem s) pt \<longrightarrow> m x = mem s x"
  shows "confined (s\<lparr>mem := m\<rparr>) pt ps" "leaf m pt = leaf (mem s) pt" "utrans m pt = utrans (mem s) pt"
    "uframe m pt = uframe (mem s) pt"
proof -
  have inv: "vm_inv s pt ps" using c by (simp add: confined_def)
  have "m x = mem s x" if "PGROUNDDOWN x \<in> tabs (mem s) pt \<union> set ps" for x
    using that c m by (auto simp: confined_def)
  note w = vm_inv_write [OF inv this]
  show l: "leaf m pt = leaf (mem s) pt" using w by simp
  show u: "utrans m pt = utrans (mem s) pt" by (simp add: utrans_def [abs_def] l)
  show f: "uframe m pt = uframe (mem s) pt" by (simp add: uframe_def u)
  show "confined (s\<lparr>mem := m\<rparr>) pt ps" using c w f by (simp add: confined_def)
qed

lemma chunk_page:
  assumes "i < unat (chunk va len)"
  shows "PGROUNDDOWN (va + of_nat i) = PGROUNDDOWN va"
    "va + of_nat i - PGROUNDDOWN (va + of_nat i) = (va - PGROUNDDOWN va) + of_nat i"
proof -
  have i: "i < 4096 - unat va mod 4096" using assms chunk_le(2) [of va len] by simp
  have "unat (va - PGROUNDDOWN va) = unat va mod 4096"
    using PGROUNDDOWN_le [of va] by (simp add: unat_sub unat_PGROUNDDOWN minus_mult_div_eq_mod)
  then have "unat ((va - PGROUNDDOWN va) + of_nat i) < 4096"
    using i by (simp add: unat_word_ariths)
  from page_offset [OF PGROUNDDOWN_aligned this, of va]
  show "PGROUNDDOWN (va + of_nat i) = PGROUNDDOWN va" by (simp add: algebra_simps)
  then show "va + of_nat i - PGROUNDDOWN (va + of_nat i) = (va - PGROUNDDOWN va) + of_nat i" by simp
qed

lemma chunk_utrans:
  assumes "i < unat (chunk va len)"
  shows "utrans m pt (va + of_nat i) = map_option (\<lambda>pa. pa + of_nat i) (utrans m pt va)"
proof -
  note cp = chunk_page [OF assms]
  have l: "leaf m pt (va + of_nat i) = leaf m pt va"
    by (metis cp(1) leaf_PGROUNDDOWN)
  have "va + of_nat i < MAXVA \<longleftrightarrow> va < MAXVA" by (metis cp(1) MAXVA_PGROUNDDOWN)
  then show ?thesis using cp(2) by (simp add: utrans_def l Let_def)
qed

lemma chunk_end: "chunk va len \<noteq> len \<Longrightarrow> PGROUNDDOWN va + PGSIZE = va + chunk va len"
  by (auto simp: chunk_def Let_def split: if_splits)

text \<open>The bytes beyond the first chunk are those of the recursive call.\<close>

lemma range_split:
  assumes "len \<noteq> 0"
  shows "(\<forall>i < unat len. P (va + of_nat i)) \<longleftrightarrow>
    (\<forall>i < unat (chunk va len). P (va + of_nat i))
    \<and> (\<forall>i < unat (len - chunk va len). P (PGROUNDDOWN va + PGSIZE + of_nat i))"
proof (cases "chunk va len = len")
  case False
  let ?n = "unat (chunk va len)"
  have n: "?n \<le> unat len" by (rule chunk_le)
  have "(\<forall>i < unat len. P (va + of_nat i)) \<longleftrightarrow>
      (\<forall>i < ?n. P (va + of_nat i)) \<and> (\<forall>i < unat len - ?n. P (va + of_nat (?n + i)))"
  proof (intro iffI conjI allI impI)
    fix i assume a: "(\<forall>i < ?n. P (va + of_nat i)) \<and> (\<forall>i < unat len - ?n. P (va + of_nat (?n + i)))" "i < unat len"
    show "P (va + of_nat i)"
    proof (cases "i < ?n")
      case False
      then have "i - ?n < unat len - ?n" "?n + (i - ?n) = i" using a(2) by auto
      then show ?thesis using a(1) by metis
    qed (use a in simp)
  next
    fix i assume "\<forall>i < unat len. P (va + of_nat i)" "i < unat len - ?n"
    then show "P (va + of_nat (?n + i))" using n by (metis add.commute less_diff_conv)
  qed (use n in auto)
  then show ?thesis using chunk_end [OF False] by (simp add: chunk_rest add.assoc)
qed simp

lemma memmove_page:
  assumes "utrans m pt va = Some pa" "\<not> in_range pa (unat (chunk va len)) x \<or> PGROUNDDOWN x \<notin> uframe m pt"
  shows "memmove m' pa src (unat (chunk va len)) x = m' x"
proof (rule memmove_frame)
  show "unat (chunk va len) < 2 ^ 64" using chunk_le(2) [of va len] by simp
  show "\<not> in_range pa (unat (chunk va len)) x"
  proof
    assume r: "in_range pa (unat (chunk va len)) x"
    define i where "i = unat (x - pa)"
    have i: "i < unat (chunk va len)" "x = pa + of_nat i"
      using r by (auto simp: in_range_def i_def)
    then have "utrans m pt (va + of_nat i) = Some x" using chunk_utrans [OF i(1)] assms(1) by simp
    then have "PGROUNDDOWN x \<in> uframe m pt" by (auto simp: uframe_def)
    with assms(2) r show False by simp
  qed
qed

lemma copyout_step:
  fixes dstva :: uint64
  assumes c: "confined s pt ps" and l: "len \<noteq> 0"
  defines "n \<equiv> chunk dstva len"
  shows "copyout pt dstva src len s = (case utrans (mem s) pt dstva of None \<Rightarrow> Ok (-1) s
    | Some pa \<Rightarrow> copyout pt (PGROUNDDOWN dstva + PGSIZE) (src + n) (len - n)
        (s\<lparr>mem := memmove (mem s) pa src (unat n)\<rparr>))"
proof (cases "utrans (mem s) pt dstva")
  case None
  then show ?thesis using l walkaddr_utrans(1) [OF c] by (subst copyout.simps) (simp add: Let_def)
next
  case (Some pa)
  have "PGROUNDDOWN pa + (dstva - PGROUNDDOWN dstva) = pa" using walkaddr_utrans(3) [OF c Some] by simp
  then show ?thesis using l walkaddr_utrans(1,2) [OF c] Some
    by (subst copyout.simps) (simp add: n_def kmemmove_def Let_def)
qed

lemma copyout_confined_aux:
  assumes "confined s pt ps"
  shows "wp (copyout pt dstva src len) (\<lambda>r t. only_mem s t \<and> confined t pt ps
    \<and> leaf (mem t) pt = leaf (mem s) pt \<and> (\<forall>x. PGROUNDDOWN x \<notin> uframe (mem s) pt \<longrightarrow> mem t x = mem s x)
    \<and> r = (if \<forall>i < unat len. utrans (mem s) pt (dstva + of_nat i) \<noteq> None then 0 else -1)) s"
  using assms
proof (induction pt dstva src len arbitrary: s rule: copyout.induct)
  case (1 pt dstva src len)
  let ?n = "chunk dstva len"
  show ?case
  proof (cases "len = 0")
    case True
    then show ?thesis using 1(2) by (subst copyout.simps) simp
  next
    case False
    note n = chunk_pos [OF False, of dstva] range_split [OF False, where va = dstva]
    show ?thesis
    proof (cases "utrans (mem s) pt dstva")
      case None
      moreover have "0 < unat len" using n(1) chunk_le(1) [of dstva len] by linarith
      ultimately have "\<not> (\<forall>i < unat len. utrans (mem s) pt (dstva + of_nat i) \<noteq> None)"
        by (intro notI, drule_tac spec [of _ 0]) simp
      then show ?thesis using None copyout_step [OF 1(2) False] 1(2) by (simp add: wp_def)
    next
      case (Some pa)
      let ?s = "s\<lparr>mem := memmove (mem s) pa src (unat ?n)\<rparr>"
      have m: "\<forall>x. PGROUNDDOWN x \<notin> uframe (mem s) pt \<longrightarrow> memmove (mem s) pa src (unat ?n) x = mem s x"
        using memmove_page [OF Some] by blast
      note w = confined_write [OF 1(2) m]
      have "wp (copyout pt (PGROUNDDOWN dstva + PGSIZE) (src + ?n) (len - ?n)) (\<lambda>r t. only_mem ?s t \<and> confined t pt ps
        \<and> leaf (mem t) pt = leaf (mem ?s) pt \<and> (\<forall>x. PGROUNDDOWN x \<notin> uframe (mem ?s) pt \<longrightarrow> mem t x = mem ?s x)
        \<and> r = (if \<forall>i < unat (len - ?n). utrans (mem ?s) pt (PGROUNDDOWN dstva + PGSIZE + of_nat i) \<noteq> None then 0 else -1)) ?s"
        using w(1) False Some walkaddr_utrans(2) [OF 1(2) Some] by (intro 1(1)) auto
      moreover have "\<forall>i < unat ?n. utrans (mem s) pt (dstva + of_nat i) \<noteq> None"
        using Some by (simp add: chunk_utrans)
      then have "(\<forall>i < unat len. utrans (mem s) pt (dstva + of_nat i) \<noteq> None) \<longleftrightarrow>
          (\<forall>i < unat (len - ?n). utrans (mem s) pt (PGROUNDDOWN dstva + PGSIZE + of_nat i) \<noteq> None)"
        using n(2) [where P = "\<lambda>a. utrans (mem s) pt a \<noteq> None"] by blast
      ultimately show ?thesis
        using copyout_step [OF 1(2) False, of dstva src] Some w(2-4) m only_mem_trans [of s ?s]
        by (simp add: wp_def split: outcome.splits)
    qed
  qed
qed

lemma copyout_tabs:
  assumes "confined s pt ps"
  shows "wp (copyout pt dstva src len) (\<lambda>r t. tabs (mem t) pt = tabs (mem s) pt) s"
proof -
  have inv: "vm_inv s pt ps" using assms by (simp add: confined_def)
  have "tabs (mem t) pt = tabs (mem s) pt"
    if "\<forall>x. PGROUNDDOWN x \<notin> uframe (mem s) pt \<longrightarrow> mem t x = mem s x" for t :: "'a kmem_scheme"
    using that assms by (intro vm_inv_write [OF inv]) (auto simp: confined_def)
  then show ?thesis using copyout_confined_aux [OF assms, of dstva src len] by (elim wp_mono) blast
qed

section \<open>The bytes copied out\<close>

lemma utrans_bound:
  assumes c: "confined s pt ps" and u: "utrans (mem s) pt va = Some pa"
  shows "unat pa + unat (chunk va len) < 2 ^ 64"
proof -
  have "phys_page s (PGROUNDDOWN pa)" using c u by (auto simp: confined_def uframe_def)
  then have "unat (PGROUNDDOWN pa) < unat PHYSTOP" by (simp add: phys_page_def word_less_nat_alt)
  then have "unat pa < 2 ^ 33" by (simp add: unat_PGROUNDDOWN const_defs)
  then show ?thesis using chunk_le(2) [of va len] by simp
qed

lemma in_chunk: "in_range pa n x \<longleftrightarrow> (\<exists>i < n. x = pa + of_nat i)" if "n \<le> 2 ^ 64"
proof
  assume "in_range pa n x"
  then show "\<exists>i < n. x = pa + of_nat i" by (intro exI [of _ "unat (x - pa)"]) (simp add: in_range_def)
next
  assume "\<exists>i < n. x = pa + of_nat i"
  then show "in_range pa n x" using that by (auto intro: in_range_offset)
qed

definition copied :: "mem \<Rightarrow> (nat \<Rightarrow> uint64 option) \<Rightarrow> (nat \<Rightarrow> uint8) \<Rightarrow> nat \<Rightarrow> mem \<Rightarrow> bool" where
  \<comment> \<open>\<open>m'\<close> is \<open>m\<close> with byte \<open>b i\<close> stored at address \<open>A i\<close> for every \<open>i < n\<close>\<close>
  "copied m A b n m' \<longleftrightarrow> (\<forall>i < n. \<forall>a. A i = Some a \<longrightarrow> m' a = b i)
     \<and> (\<forall>x. (\<forall>i < n. A i \<noteq> Some x) \<longrightarrow> m' x = m x)"

lemma copied_append:
  assumes "copied m A b n m1" "copied m1 (\<lambda>i. A (n + i)) (\<lambda>i. b (n + i)) k m2"
    "\<And>i j. i < n \<Longrightarrow> j < k \<Longrightarrow> A i \<noteq> None \<Longrightarrow> A i \<noteq> A (n + j)"
  shows "copied m A b (n + k) m2"
  unfolding copied_def
proof (intro conjI allI impI)
  fix i a assume i: "i < n + k" "A i = Some a"
  show "m2 a = b i"
  proof (cases "i < n")
    case True
    then have "A (n + j) \<noteq> Some a" if "j < k" for j using assms(3) [OF True that] i by auto
    then have "m2 a = m1 a" using assms(2) by (auto simp: copied_def)
    also have "\<dots> = b i" using assms(1) True i by (auto simp: copied_def)
    finally show ?thesis .
  next
    case False
    then have "i - n < k" "A (n + (i - n)) = Some a" "b (n + (i - n)) = b i" using i by auto
    then show ?thesis using assms(2) unfolding copied_def by metis
  qed
next
  fix x assume x: "\<forall>i < n + k. A i \<noteq> Some x"
  then show "m2 x = m x" using assms(1,2) by (auto simp: copied_def)
qed

lemma chunk_rest_addr:
  "i < unat (len - chunk va len) \<Longrightarrow> PGROUNDDOWN va + PGSIZE + of_nat i = va + of_nat (unat (chunk va len) + i)"
  using chunk_end [of va len] by (cases "chunk va len = len") (auto simp: algebra_simps)

lemma copyout_bytes_aux:
  assumes "confined s pt ps" "\<forall>i < unat len. utrans (mem s) pt (dstva + of_nat i) \<noteq> None"
    "inj_on (\<lambda>i. utrans (mem s) pt (dstva + of_nat i)) {..<unat len}"
    "\<forall>i < unat len. PGROUNDDOWN (src + of_nat i) \<notin> uframe (mem s) pt" "unat src + unat len < 2 ^ 64"
  shows "wp (copyout pt dstva src len) (\<lambda>r t. r = 0 \<and> copied (mem s)
    (\<lambda>i. utrans (mem s) pt (dstva + of_nat i)) (\<lambda>i. mem s (src + of_nat i)) (unat len) (mem t)) s"
  using assms
proof (induction "unat len" arbitrary: s dstva src len rule: less_induct)
  case less
  let ?n = "chunk dstva len"
  define A where "A = (\<lambda>i. utrans (mem s) pt (dstva + of_nat i))"
  define B where "B = (\<lambda>i. mem s (src + of_nat i))"
  have tr: "\<forall>i < unat len. A i \<noteq> None" and inj: "inj_on A {..<unat len}"
    using less.prems(2,3) by (auto simp: A_def)
  have "wp (copyout pt dstva src len) (\<lambda>r t. r = 0 \<and> copied (mem s) A B (unat len) (mem t)) s"
  proof (cases "len = 0")
    case True
    then show ?thesis by (subst copyout.simps) (simp add: copied_def)
  next
    case False
    have nl: "unat ?n \<le> unat len" "unat ?n + unat (len - ?n) = unat len" "unat ?n < 4097"
      using chunk_le [of dstva len] by (simp_all add: chunk_rest)
    have "0 < unat len" using False by (simp add: unat_gt_0)
    then obtain pa where pa: "utrans (mem s) pt dstva = Some pa"
      using tr by (auto simp: A_def dest!: spec [of _ 0])
    let ?m = "memmove (mem s) pa src (unat ?n)"
    let ?s = "s\<lparr>mem := ?m\<rparr>"
    have m: "\<forall>x. PGROUNDDOWN x \<notin> uframe (mem s) pt \<longrightarrow> ?m x = mem s x"
      using memmove_page [OF pa] by blast
    note w = confined_write [OF less.prems(1) m]
    have A1: "A i = Some (pa + of_nat i)" if "i < unat ?n" for i using that pa by (simp add: A_def chunk_utrans)
    have A2: "utrans ?m pt (PGROUNDDOWN dstva + PGSIZE + of_nat i) = A (unat ?n + i)"
      if "i < unat (len - ?n)" for i by (simp only: A_def chunk_rest_addr [OF that] w(3))
    have "?m = (\<lambda>x. if in_range pa (unat ?n) x then mem s (src + (x - pa)) else mem s x)"
      using less.prems(5) nl by (intro memmove_eq) auto
    then have first: "copied (mem s) A B (unat ?n) ?m"
      using A1 nl(3) by (auto simp: copied_def in_chunk B_def)
    have src: "src + ?n + of_nat i = src + of_nat (unat ?n + i)" for i by (simp add: algebra_simps)
    have srcok: "PGROUNDDOWN (src + ?n + of_nat i) \<notin> uframe (mem s) pt" if "i < unat (len - ?n)" for i
      using less.prems(4) [rule_format, of "unat ?n + i"] that nl(2) by (simp add: add.assoc)
    have "wp (copyout pt (PGROUNDDOWN dstva + PGSIZE) (src + ?n) (len - ?n)) (\<lambda>r t. r = 0 \<and> copied (mem ?s)
        (\<lambda>i. utrans (mem ?s) pt (PGROUNDDOWN dstva + PGSIZE + of_nat i)) (\<lambda>i. mem ?s (src + ?n + of_nat i))
        (unat (len - ?n)) (mem t)) ?s"
    proof (rule less.hyps [OF chunk_decr [OF False] w(1)])
      show "\<forall>i < unat (len - ?n). utrans (mem ?s) pt (PGROUNDDOWN dstva + PGSIZE + of_nat i) \<noteq> None"
        using tr nl A2 by simp
      show "inj_on (\<lambda>i. utrans (mem ?s) pt (PGROUNDDOWN dstva + PGSIZE + of_nat i)) {..<unat (len - ?n)}"
      proof (rule inj_onI)
        fix i j assume ij: "i \<in> {..<unat (len - ?n)}" "j \<in> {..<unat (len - ?n)}"
          "utrans (mem ?s) pt (PGROUNDDOWN dstva + PGSIZE + of_nat i) =
           utrans (mem ?s) pt (PGROUNDDOWN dstva + PGSIZE + of_nat j)"
        then have "A (unat ?n + i) = A (unat ?n + j)" using A2 [of i] A2 [of j] by simp
        then have "unat ?n + i = unat ?n + j" 
          using inj_onD [OF inj, of "unat ?n + i" "unat ?n + j"] ij(1,2) nl(2) by simp
        then show "i = j" by simp
      qed
      show "\<forall>i < unat (len - ?n). PGROUNDDOWN (src + ?n + of_nat i) \<notin> uframe (mem ?s) pt"
        using srcok w(4) by simp
      show "unat (src + ?n) + unat (len - ?n) < 2 ^ 64"
        using less.prems(5) nl by (simp add: unat_word_ariths)
    qed
    then obtain t where t: "copyout pt (PGROUNDDOWN dstva + PGSIZE) (src + ?n) (len - ?n) ?s = Ok 0 t"
      "copied ?m (\<lambda>i. utrans ?m pt (PGROUNDDOWN dstva + PGSIZE + of_nat i)) (\<lambda>i. ?m (src + ?n + of_nat i))
        (unat (len - ?n)) (mem t)" by (auto simp: wp_iff)
    have "?m (src + ?n + of_nat i) = B (unat ?n + i)" if "i < unat (len - ?n)" for i
      using srcok [OF that] m by (simp add: B_def add.assoc)
    then have "copied ?m (\<lambda>i. A (unat ?n + i)) (\<lambda>i. B (unat ?n + i)) (unat (len - ?n)) (mem t)"
      using t(2) unfolding copied_def by (simp add: A2)
    moreover have "A i \<noteq> A (unat ?n + j)" if "i < unat ?n" "j < unat (len - ?n)" for i j
      using inj_onD [OF inj, of i "unat ?n + j"] that nl(2) by auto
    ultimately have "copied (mem s) A B (unat ?n + unat (len - ?n)) (mem t)"
      by (intro copied_append [OF first]) auto
    then show ?thesis
      using copyout_step [OF less.prems(1) False, of dstva src] pa t(1) nl(2) by (simp add: wp_def)
  qed
  then show ?case by (simp only: A_def B_def)
qed

section \<open>The bytes copied in\<close>

lemma confined_kwrite:
  assumes c: "confined s pt ps" and m: "\<And>x. PGROUNDDOWN x \<in> tabs (mem s) pt \<union> set ps \<Longrightarrow> m x = mem s x"
  shows "confined (s\<lparr>mem := m\<rparr>) pt ps" "leaf m pt = leaf (mem s) pt" "utrans m pt = utrans (mem s) pt"
    "uframe m pt = uframe (mem s) pt" "tabs m pt = tabs (mem s) pt"
proof -
  have inv: "vm_inv s pt ps" using c by (simp add: confined_def)
  note w = vm_inv_write [OF inv m]
  show l: "leaf m pt = leaf (mem s) pt" and t: "tabs m pt = tabs (mem s) pt" using w by auto
  show u: "utrans m pt = utrans (mem s) pt" by (simp add: utrans_def [abs_def] l)
  show f: "uframe m pt = uframe (mem s) pt" by (simp add: uframe_def u)
  show "confined (s\<lparr>mem := m\<rparr>) pt ps" using c w(1) f t by (simp add: confined_def)
qed

lemma copyin_step:
  fixes srcva :: uint64
  assumes c: "confined s pt ps" and l: "len \<noteq> 0"
  defines "n \<equiv> chunk srcva len"
  shows "copyin pt dst srcva len s = (case utrans (mem s) pt srcva of None \<Rightarrow> Ok (-1) s
    | Some pa \<Rightarrow> copyin pt (dst + n) (PGROUNDDOWN srcva + PGSIZE) (len - n)
        (s\<lparr>mem := memmove (mem s) dst pa (unat n)\<rparr>))"
proof (cases "utrans (mem s) pt srcva")
  case None
  then show ?thesis using l walkaddr_utrans(1) [OF c] by (subst copyin.simps) (simp add: Let_def)
next
  case (Some pa)
  have "PGROUNDDOWN pa + (srcva - PGROUNDDOWN srcva) = pa" using walkaddr_utrans(3) [OF c Some] by simp
  then show ?thesis using l walkaddr_utrans(1,2) [OF c] Some
    by (subst copyin.simps) (simp add: n_def kmemmove_def Let_def)
qed

definition kbuf :: "'a kmem_scheme \<Rightarrow> uint64 \<Rightarrow> uint64 list \<Rightarrow> uint64 \<Rightarrow> nat \<Rightarrow> bool" where
  \<comment> \<open>a kernel buffer: no part of it is free, a table page or accessible to the user\<close>
  "kbuf s pt ps a n \<longleftrightarrow> (\<forall>i < n. PGROUNDDOWN (a + of_nat i) \<notin> uframe (mem s) pt \<union> tabs (mem s) pt \<union> set ps)"

lemma of_nat_offset:
  assumes "i < n" "j < k" "n + k \<le> unat (len :: uint64)"
  shows "(dst :: uint64) + of_nat i \<noteq> dst + of_nat (n + j)"
proof
  assume "dst + of_nat i = dst + of_nat (n + j)"
  then have "(of_nat i :: uint64) = of_nat (n + j)" by (simp only: add_left_cancel)
  then have "unat (of_nat i :: uint64) = unat (of_nat (n + j) :: uint64)" by (rule arg_cong)
  moreover have "i < 2 ^ 64" "n + j < 2 ^ 64" using assms unat_lt64 [of len] by simp_all
  ultimately have "i = n + j" by (simp only: unat_of_nat64)
  then show False using assms by simp
qed

lemma copyin_aux:
  assumes "confined s pt ps" "kbuf s pt ps dst (unat len)"
  shows "wp (copyin pt dst srcva len) (\<lambda>r t. only_mem s t \<and> confined t pt ps \<and> leaf (mem t) pt = leaf (mem s) pt
    \<and> (\<forall>x. \<not> in_range dst (unat len) x \<longrightarrow> mem t x = mem s x)
    \<and> (if \<forall>i < unat len. utrans (mem s) pt (srcva + of_nat i) \<noteq> None
       then r = 0 \<and> copied (mem s) (\<lambda>i. Some (dst + of_nat i))
         (\<lambda>i. mem s (the (utrans (mem s) pt (srcva + of_nat i)))) (unat len) (mem t)
       else r = -1)) s"
  using assms
proof (induction "unat len" arbitrary: s dst srcva len rule: less_induct)
  case less
  let ?n = "chunk srcva len"
  define A where "A = (\<lambda>i :: nat. Some (dst + of_nat i))"
  define B where "B = (\<lambda>i. mem s (the (utrans (mem s) pt (srcva + of_nat i))))"
  define T where "T = (\<lambda>l va. \<forall>i < unat (l :: uint64). utrans (mem s) pt (va + of_nat i) \<noteq> None)"
  define Q where "Q = (\<lambda>r t. only_mem s t \<and> confined t pt ps \<and> leaf (mem t) pt = leaf (mem s) pt
    \<and> (\<forall>x. \<not> in_range dst (unat len) x \<longrightarrow> mem t x = mem s x)
    \<and> (if T len srcva then r = 0 \<and> copied (mem s) A B (unat len) (mem t) else r = (-1 :: int)))"
  have "wp (copyin pt dst srcva len) Q s"
  proof (cases "len = 0")
    case True
    then show ?thesis using less.prems by (subst copyin.simps) (simp add: Q_def T_def copied_def)
  next
    case False
    have nl: "unat ?n \<le> unat len" "unat ?n + unat (len - ?n) = unat len" "unat ?n < 4097"
      using chunk_le [of srcva len] by (simp_all add: chunk_rest)
    have T: "T len srcva \<longleftrightarrow> (\<forall>i < unat ?n. utrans (mem s) pt (srcva + of_nat i) \<noteq> None)
        \<and> T (len - ?n) (PGROUNDDOWN srcva + PGSIZE)"
      using range_split [OF False, where P = "\<lambda>a. utrans (mem s) pt a \<noteq> None"] by (simp add: T_def)
    show ?thesis
    proof (cases "utrans (mem s) pt srcva")
      case None
      have "\<not> T len srcva" unfolding T using None chunk_pos [OF False, of srcva] by (auto dest!: spec [of _ 0])
      then have "Q (-1) s" using less.prems by (simp add: Q_def)
      then show ?thesis using copyin_step [OF less.prems(1) False] None by (simp add: wp_def)
    next
      case (Some pa)
      let ?m = "memmove (mem s) dst pa (unat ?n)"
      let ?s = "s\<lparr>mem := ?m\<rparr>"
      have meq: "?m = (\<lambda>x. if in_range dst (unat ?n) x then mem s (pa + (x - dst)) else mem s x)"
        using utrans_bound [OF less.prems(1) Some] nl by (intro memmove_eq) auto
      have m: "?m x = mem s x" if "PGROUNDDOWN x \<in> uframe (mem s) pt \<union> tabs (mem s) pt \<union> set ps" for x
        using that less.prems(2) nl unfolding meq kbuf_def by (auto simp: in_chunk)
      then have m': "?m x = mem s x" if "PGROUNDDOWN x \<in> tabs (mem s) pt \<union> set ps" for x using that by blast
      note w = confined_kwrite [OF less.prems(1) m', simplified]
      have A1: "utrans (mem s) pt (srcva + of_nat i) = Some (pa + of_nat i)" if "i < unat ?n" for i
        using that Some by (simp add: chunk_utrans)
      have first: "copied (mem s) A B (unat ?n) ?m"
        using A1 nl(3) by (auto simp: copied_def meq in_chunk A_def B_def)
      have kb: "kbuf ?s pt ps (dst + ?n) (unat (len - ?n))"
        unfolding kbuf_def
      proof (intro allI impI)
        fix i assume i: "i < unat (len - ?n)"
        then have "PGROUNDDOWN (dst + of_nat (unat ?n + i)) \<notin> uframe (mem s) pt \<union> tabs (mem s) pt \<union> set ps"
          using less.prems(2) nl(2) unfolding kbuf_def by (metis nat_add_left_cancel_less)
        then show "PGROUNDDOWN (dst + ?n + of_nat i) \<notin> uframe (mem ?s) pt \<union> tabs (mem ?s) pt \<union> set ps"
          using w(4,5) by (simp add: add.assoc)
      qed
      let ?va = "PGROUNDDOWN srcva + PGSIZE" and ?l = "len - ?n"
      have mm: "mem ?s = ?m" by simp
      obtain r t where t: "copyin pt (dst + ?n) ?va ?l ?s = Ok r t" "only_mem ?s t" "confined t pt ps"
        "leaf (mem t) pt = leaf ?m pt" "\<forall>x. \<not> in_range (dst + ?n) (unat ?l) x \<longrightarrow> mem t x = ?m x"
        "if T ?l ?va then r = 0 \<and> copied ?m (\<lambda>i. Some (dst + ?n + of_nat i))
           (\<lambda>i. ?m (the (utrans (mem s) pt (?va + of_nat i)))) (unat ?l) (mem t) else r = -1"
        using less.hyps [OF chunk_decr [OF False] w(1) kb, of ?va] unfolding wp_iff mm w(3) T_def by blast
      have A2: "Some (dst + ?n + of_nat i) = A (unat ?n + i)" for i by (simp add: A_def add.assoc)
      have B2: "?m (the (utrans (mem s) pt (?va + of_nat i))) = B (unat ?n + i)" if a: "T ?l ?va" "i < unat ?l" for i
      proof -
        obtain p where p: "utrans (mem s) pt (?va + of_nat i) = Some p" 
          using a unfolding T_def by blast
        then have "PGROUNDDOWN p \<in> uframe (mem s) pt" by (auto simp: uframe_def)
        then have "?m p = mem s p" using m [of p] by blast
        moreover have "utrans (mem s) pt (srcva + of_nat (unat ?n + i)) = Some p"
          using p unfolding chunk_rest_addr [OF a(2)] .
        ultimately show ?thesis unfolding B_def p by (simp only: option.sel)
      qed
      have Tl: "T len srcva \<longleftrightarrow> T ?l ?va" unfolding T using A1 by auto
      have "copied (mem s) A B (unat len) (mem t)" if "T ?l ?va"
      proof -
        have "copied ?m (\<lambda>i. A (unat ?n + i)) (\<lambda>i. B (unat ?n + i)) (unat ?l) (mem t)"
          using t(6) that B2 unfolding A2 copied_def by simp
        then have "copied (mem s) A B (unat ?n + unat ?l) (mem t)"
          using of_nat_offset [of _ "unat ?n" _ "unat ?l" len dst] nl(2)
          by (intro copied_append [OF first]) (auto simp: A_def)
        then show ?thesis by (simp only: nl(2))
      qed
      moreover have "mem t x = mem s x" if x: "\<not> in_range dst (unat len) x" for x
      proof -
        have "\<not> in_range (dst + ?n) (unat ?l) x"
        proof
          assume "in_range (dst + ?n) (unat ?l) x"
          then obtain i where "i < unat ?l" "x = dst + of_nat (unat ?n + i)"
            using unat_lt64 [of ?l] by (auto simp: in_chunk add.assoc)
          then show False using x nl(2) unat_lt64 [of len] in_range_offset [of "unat ?n + i" "unat len" dst] by simp
        qed
        moreover have "\<not> in_range dst (unat ?n) x" using x in_range_mono nl(1) by blast
        ultimately show ?thesis using t(5) by (simp add: meq)
      qed
      ultimately have "Q r t" using t(2-4,6) w(2) only_mem_trans [of s ?s t] by (simp add: Q_def Tl)
      then show ?thesis using copyin_step [OF less.prems(1) False] Some t(1) by (simp add: wp_def)
    qed
  qed
  then show ?case by (simp only: Q_def A_def B_def T_def)
qed

section \<open>The concrete address space\<close>

lemma sample_utrans:
  "utrans sample_mem sample_pt va =
    (if va < MAXVA \<and> PGROUNDDOWN va = 0 then Some (0x80103000 + va) else None)"
proof -
  let ?pte = "PA2PTE 0x80103000 OR UPERM OR PTE_V"
  have z: "PGROUNDDOWN 0 = 0" "(0 :: uint64) < MAXVA" by (simp_all add: PGROUNDDOWN_def const_defs)
  have "?pte AND PTE_U \<noteq> 0" "?pte AND PTE_V \<noteq> 0"
    by (simp_all only: and_flag_iff bit_or_iff flag_bits) simp_all
  moreover have "PTE2PA ?pte = 0x80103000" using new_pte(2) [OF sample_aligned(4) UPERM_user] .
  ultimately show ?thesis
    using agree3_page [of 0 va] z by (auto simp: utrans_def sample_tree(3))
qed

lemma sample_uframe: "uframe sample_mem sample_pt = {0x80103000}"
proof
  show "uframe sample_mem sample_pt \<subseteq> {0x80103000}"
  proof
    fix p assume "p \<in> uframe sample_mem sample_pt"
    then obtain va where va: "PGROUNDDOWN va = 0" "p = PGROUNDDOWN (0x80103000 + va)"
      by (auto simp: uframe_def sample_utrans split: if_splits)
    then have "unat va < 4096" using off_less [of va] by simp
    then show "p \<in> {0x80103000}" using page_offset [OF sample_aligned(4)] va(2) by simp
  qed
  have "utrans sample_mem sample_pt 0 = Some 0x80103000" by (simp add: sample_utrans PGROUNDDOWN_def const_defs)
  moreover have "PGROUNDDOWN 0x80103000 = 0x80103000" by simp
  ultimately show "{0x80103000} \<subseteq> uframe sample_mem sample_pt" unfolding uframe_def by force
qed

lemma sample_confined: "confined sample_vm sample_pt []"
proof -
  have "phys_page sample_vm 0x80103000"
    by (simp add: phys_page_def sample_vm_def page_aligned_def const_defs)
  then show ?thesis using sample_uspace sample_uframe sample_tree(2)
    by (simp add: confined_def uspace_def sample_vm_def)
qed

lemma sample_kbuf:
  assumes "unat off + n \<le> 4096"
  shows "kbuf sample_vm sample_pt [] (0x80000000 + off) n"
  unfolding kbuf_def
proof (intro allI impI)
  fix i assume "i < n"
  then have "unat (off + of_nat i) < 4096" using assms by (simp add: unat_word_ariths)
  moreover have "page_aligned 0x80000000" by (simp add: page_aligned_def PGSIZE_def)
  ultimately have "PGROUNDDOWN (0x80000000 + off + of_nat i) = 0x80000000"
    using page_offset [of "0x80000000" "off + of_nat i"] by (simp add: add.assoc)
  moreover have "0x80000000 \<noteq> sample_pt" by (simp add: sample_pt_def)
  ultimately show "PGROUNDDOWN (0x80000000 + off + of_nat i)
      \<notin> uframe (mem sample_vm) sample_pt \<union> tabs (mem sample_vm) sample_pt \<union> set []"
    by (simp add: sample_vm_def sample_uframe sample_tree(2))
qed

section \<open>Properties\<close>

text \<open>
  C4.  Whatever address and length a process passes, \<^verbatim>\<open>copyout\<close> returns; it returns 0 exactly
  when every byte of the destination is in a valid user page, and it changes no byte of
  memory outside the pages the process may access, in particular no page table and no free page.
\<close>

theorem copyout_confined:
  assumes "confined s pt ps"
  shows "wp (copyout pt dstva src len) (\<lambda>r t. confined t pt ps \<and> leaf (mem t) pt = leaf (mem s) pt
    \<and> (\<forall>x. PGROUNDDOWN x \<notin> uframe (mem s) pt \<longrightarrow> mem t x = mem s x)
    \<and> r = (if \<forall>i < unat len. utrans (mem s) pt (dstva + of_nat i) \<noteq> None then 0 else -1)) s"
  using copyout_confined_aux [OF assms] by (rule wp_mono) blast

theorem copyout_confined_witness:
  "wp (copyout sample_pt 4094 0x80000000 4) (\<lambda>r t. r = -1 \<and> mem t 0x80104000 = mem sample_vm 0x80104000) sample_vm"
proof -
  have "\<not> (\<forall>i < unat (4 :: uint64). utrans (mem sample_vm) sample_pt (4094 + of_nat i) \<noteq> None)"
    by (intro notI, drule_tac spec [of _ 2]) (simp add: sample_vm_def sample_utrans PGROUNDDOWN_def const_defs)
  moreover have "PGROUNDDOWN 0x80104000 \<notin> uframe (mem sample_vm) sample_pt"
    by (simp add: sample_vm_def sample_uframe PGROUNDDOWN_def PGSIZE_def)
  ultimately show ?thesis using copyout_confined [OF sample_confined, of 4094 "0x80000000" 4]
    by (auto elim!: wp_mono)
qed

text \<open>
  C16.  Round trip through user memory: bytes that \<^verbatim>\<open>copyout\<close> has stored at a user address are
  what a following \<^verbatim>\<open>copyin\<close> from that address delivers into another kernel buffer.
\<close>

theorem copyout_copyin_roundtrip:
  assumes "confined s pt ps" "\<forall>i < unat len. utrans (mem s) pt (va + of_nat i) \<noteq> None"
    "inj_on (\<lambda>i. utrans (mem s) pt (va + of_nat i)) {..<unat len}"
    "kbuf s pt ps src (unat len)" "unat src + unat len < 2 ^ 64" "kbuf s pt ps dst (unat len)"
  shows "wp (bnd (copyout pt va src len) (\<lambda>r1. bnd (copyin pt dst va len) (\<lambda>r2. ret (r1, r2))))
    (\<lambda>r t. r = (0, 0) \<and> (\<forall>i < unat len. mem t (dst + of_nat i) = mem s (src + of_nat i))) s"
proof -
  have "\<forall>i < unat len. PGROUNDDOWN (src + of_nat i) \<notin> uframe (mem s) pt" using assms(4) by (simp add: kbuf_def)
  then obtain t where o: "copyout pt va src len s = Ok 0 t"
    "copied (mem s) (\<lambda>i. utrans (mem s) pt (va + of_nat i)) (\<lambda>i. mem s (src + of_nat i)) (unat len) (mem t)"
    using copyout_bytes_aux [OF assms(1-3) _ assms(5)] by (auto simp: wp_iff)
  have c: "confined t pt ps" and l: "leaf (mem t) pt = leaf (mem s) pt"
    using copyout_confined_aux [OF assms(1), of va src len] o(1) by (auto simp: wp_def)
  have u: "utrans (mem t) pt = utrans (mem s) pt" by (simp add: utrans_def [abs_def] l)
  have "tabs (mem t) pt = tabs (mem s) pt"
    using copyout_tabs [OF assms(1), of va src len] o(1) by (simp add: wp_def)
  then have "kbuf t pt ps dst (unat len)" using assms(6) u by (simp add: kbuf_def uframe_def)
  from copyin_aux [OF c this, of va] obtain t' where i: "copyin pt dst va len t = Ok 0 t'"
    "copied (mem t) (\<lambda>i. Some (dst + of_nat i)) (\<lambda>i. mem t (the (utrans (mem s) pt (va + of_nat i)))) (unat len) (mem t')"
    using assms(2) by (auto simp: wp_iff u)
  have "mem t' (dst + of_nat i) = mem s (src + of_nat i)" if "i < unat len" for i
  proof -
    obtain a where a: "utrans (mem s) pt (va + of_nat i) = Some a" using assms(2) \<open>i < unat len\<close> by blast
    have "mem t' (dst + of_nat i) = mem t a" using i(2) a that by (simp add: copied_def)
    also have "\<dots> = mem s (src + of_nat i)" using o(2) a that by (simp add: copied_def)
    finally show ?thesis .
  qed
  then show ?thesis using o(1) i(1) by (simp add: wp_def)
qed

theorem copyout_copyin_roundtrip_witness:
  "wp (bnd (copyout sample_pt 16 0x80000000 2) (\<lambda>r1. bnd (copyin sample_pt 0x80000100 16 2) (\<lambda>r2. ret (r1, r2))))
    (\<lambda>r t. r = (0, 0) \<and> mem t 0x80000101 = mem sample_vm 0x80000001) sample_vm"
proof -
  have two: "i = 0 \<or> i = 1" if "i < unat (2 :: uint64)" for i using that by auto
  have u: "utrans (mem sample_vm) sample_pt (16 + of_nat i) = Some (0x80103010 + of_nat i)" if "i < unat (2 :: uint64)" for i
    using two [OF that] by (auto simp: sample_vm_def sample_utrans PGROUNDDOWN_def const_defs)
  have kb: "kbuf sample_vm sample_pt [] 0x80000000 (unat (2 :: uint64))"
    "kbuf sample_vm sample_pt [] 0x80000100 (unat (2 :: uint64))"
    using sample_kbuf [of 0 2] sample_kbuf [of "0x100" 2] by simp_all
  have inj: "inj_on (\<lambda>i. utrans (mem sample_vm) sample_pt (16 + of_nat i)) {..<unat (2 :: uint64)}"
  proof (rule inj_onI)
    fix i j
    assume ij: "i \<in> {..<unat (2 :: uint64)}" "j \<in> {..<unat (2 :: uint64)}"
      "utrans (mem sample_vm) sample_pt (16 + of_nat i) = utrans (mem sample_vm) sample_pt (16 + of_nat j)"
    then have "(of_nat i :: uint64) = of_nat j" using u [of i] u [of j] by simp
    then show "i = j" using two [of i] two [of j] ij(1,2) by auto
  qed
  have tr: "\<forall>i < unat (2 :: uint64). utrans (mem sample_vm) sample_pt (16 + of_nat i) \<noteq> None" using u by simp
  have "unat (0x80000000 :: uint64) + unat (2 :: uint64) < 2 ^ 64" by simp
  from copyout_copyin_roundtrip [OF sample_confined tr inj kb(1) this kb(2)]
  show ?thesis by (rule wp_mono) (auto dest: spec [of _ 1])
qed

end
