(* ===== verification/Proc.thy ===== *)
theory Proc
  imports Uaccess
begin

text \<open>
  \<^verbatim>\<open>kernel/proc.h\<close>, \<^verbatim>\<open>kernel/swtch.S\<close> and the part of \<^verbatim>\<open>kernel/proc.c\<close> below the file
  system: the process table, \<^verbatim>\<open>allocproc\<close>/\<^verbatim>\<open>freeproc\<close>, the scheduler's switches,
  \<^verbatim>\<open>sleep\<close>/\<^verbatim>\<open>wakeup\<close>, \<^verbatim>\<open>wait\<close> and \<^verbatim>\<open>kill\<close>; and the construction of the kernel page
  table (\<^verbatim>\<open>kvmmake\<close> of \<^verbatim>\<open>kernel/vm.c\<close>), which maps the kernel stacks.  A
  \<^verbatim>\<open>struct proc*\<close> is an index of the table.  The rest of \<^verbatim>\<open>proc.c\<close> calls the file system
  and is in the theory \<^verbatim>\<open>Process\<close>.

  The lemmas give closed forms of \<^verbatim>\<open>myproc\<close>, \<^verbatim>\<open>wakeup\<close>, \<^verbatim>\<open>kill\<close> and \<^verbatim>\<open>reparent\<close> under free
  process locks, which the components above use.
\<close>

section \<open>The process table\<close>

datatype procstate = UNUSED | USED | SLEEPING | RUNNABLE | RUNNING | ZOMBIE

record proc =
  pstate :: procstate
  pchan :: "chan option"      \<comment> \<open>\<open>None\<close> is the null pointer\<close>
  killed :: bool
  xstate :: int32
  pid :: int32
  parent :: "nat option"
  kstack :: uint64
  psz :: uint64
  pagetable :: uint64
  trapframe :: uint64         \<comment> \<open>physical address of the trapframe page, or 0\<close>
  pcontext :: kcontext
  ofile :: "nat option list"  \<comment> \<open>indices of \<^verbatim>\<open>ftable.file[]\<close>\<close>
  cwd :: "nat option"         \<comment> \<open>index of \<^verbatim>\<open>itable.inode[]\<close>\<close>
  pname :: "uint8 list"

text \<open>The fields of \<^verbatim>\<open>struct trapframe\<close>, in order; each takes eight bytes.\<close>

datatype tfreg =
    Kernel_satp | Kernel_sp | Kernel_trap | Epc | Kernel_hartid
  | Ra | Sp | Gp | Tp | T0 | T1 | T2 | S0 | S1
  | A0 | A1 | A2 | A3 | A4 | A5 | A6 | A7
  | S2 | S3 | S4 | S5 | S6 | S7 | S8 | S9 | S10 | S11
  | T3 | T4 | T5 | T6

definition tfregs :: "tfreg list" where
  "tfregs = [Kernel_satp, Kernel_sp, Kernel_trap, Epc, Kernel_hartid,
     Ra, Sp, Gp, Tp, T0, T1, T2, S0, S1, A0, A1, A2, A3, A4, A5, A6, A7,
     S2, S3, S4, S5, S6, S7, S8, S9, S10, S11, T3, T4, T5, T6]"

fun pos_of :: "'b \<Rightarrow> 'b list \<Rightarrow> nat" where
  "pos_of x [] = 0"
| "pos_of x (y # ys) = (if x = y then 0 else Suc (pos_of x ys))"

definition tf_off :: "tfreg \<Rightarrow> uint64" where
  "tf_off r = 8 * of_nat (pos_of r tfregs)"

text \<open>Addresses the linker and the assembler files define.\<close>

record ksyms =
  etext :: uint64
  trampoline :: uint64
  uservec :: uint64
  userret :: uint64
  kernelvec :: uint64
  timervec :: uint64
  usertrap_addr :: uint64
  forkret_addr :: uint64
  kmain_addr :: uint64
  initcode_addr :: uint64
  timer_scratch_addr :: uint64
  disk_pages_addr :: uint64

record kproc = kmem +
  procs :: "nat \<Rightarrow> proc"
  nextpid :: int32
  initproc :: "nat option"
  kregs :: "nat \<Rightarrow> kcontext"  \<comment> \<open>the callee-saved registers of each hart\<close>
  kernel_pagetable :: uint64
  ksym :: ksyms

definition upd_proc :: "nat \<Rightarrow> (proc \<Rightarrow> proc) \<Rightarrow> 'a kproc_scheme \<Rightarrow> 'a kproc_scheme" where
  "upd_proc i f s = s\<lparr>procs := (procs s)(i := f (procs s i))\<rparr>"

definition set_proc :: "nat \<Rightarrow> (proc \<Rightarrow> proc) \<Rightarrow> ('a kproc_scheme, unit) kmon" where
  "set_proc i f = modify (upd_proc i f)"

definition getp :: "nat \<Rightarrow> (proc \<Rightarrow> 'b) \<Rightarrow> ('a kproc_scheme, 'b) kmon" where
  "getp i f = gets (\<lambda>s. f (procs s i))"

definition tf_set :: "uint64 \<Rightarrow> tfreg \<Rightarrow> uint64 \<Rightarrow> ('a kproc_scheme, unit) kmon" where
  "tf_set tf r v = modify (\<lambda>s. s\<lparr>mem := store64 (mem s) (tf + tf_off r) v\<rparr>)"

definition tf_get :: "uint64 \<Rightarrow> tfreg \<Rightarrow> ('a kproc_scheme, uint64) kmon" where
  "tf_get tf r = gets (\<lambda>s. load64 (mem s) (tf + tf_off r))"

section \<open>The kernel page table (kernel/vm.c)\<close>

definition proc_mapstacks :: "uint64 \<Rightarrow> ('a kproc_scheme, unit) kmon" where
  "proc_mapstacks kpgtbl = foreach [0..<NPROC] (\<lambda>i.
     bnd kalloc (\<lambda>pa.
     bnd (assert_or (pa \<noteq> 0) ''kalloc'') (\<lambda>_.
     kvmmap kpgtbl (KSTACK (of_nat i)) pa PGSIZE (PTE_R OR PTE_W))))"

definition kvmmake :: "('a kproc_scheme, uint64) kmon" where
  "kvmmake =
     bnd kalloc (\<lambda>kpgtbl.
     bnd (kmemset kpgtbl 0 4096) (\<lambda>_.
     bnd (kvmmap kpgtbl UART0 UART0 PGSIZE (PTE_R OR PTE_W)) (\<lambda>_.
     bnd (kvmmap kpgtbl VIRTIO0 VIRTIO0 PGSIZE (PTE_R OR PTE_W)) (\<lambda>_.
     bnd (kvmmap kpgtbl PLIC PLIC 0x400000 (PTE_R OR PTE_W)) (\<lambda>_.
     bnd (gets (\<lambda>s. etext (ksym s))) (\<lambda>etext.
     bnd (kvmmap kpgtbl KERNBASE KERNBASE (etext - KERNBASE) (PTE_R OR PTE_X)) (\<lambda>_.
     bnd (kvmmap kpgtbl etext etext (PHYSTOP - etext) (PTE_R OR PTE_W)) (\<lambda>_.
     bnd (gets (\<lambda>s. trampoline (ksym s))) (\<lambda>trampoline.
     bnd (kvmmap kpgtbl TRAMPOLINE trampoline PGSIZE (PTE_R OR PTE_X)) (\<lambda>_.
     bnd (proc_mapstacks kpgtbl) (\<lambda>_.
     ret kpgtbl)))))))))))"

definition kvminit :: "('a kproc_scheme, unit) kmon" where
  "kvminit = bnd kvmmake (\<lambda>pt. modify (\<lambda>s. s\<lparr>kernel_pagetable := pt\<rparr>))"

definition w_satp :: "uint64 \<Rightarrow> 'a mach_scheme \<Rightarrow> 'a mach_scheme" where
  "w_satp x = upd_hart (\<lambda>h. h\<lparr>satp := x\<rparr>)"

definition kvminithart :: "('a kproc_scheme, unit) kmon" where
  \<comment> \<open>\<^verbatim>\<open>sfence_vma()\<close> flushes the TLB, which is not part of the state\<close>
  "kvminithart = modify (\<lambda>s. w_satp (MAKE_SATP (kernel_pagetable s)) s)"

section \<open>The current process\<close>

definition procinit :: "('a kproc_scheme, unit) kmon" where
  "procinit =
     bnd (initlock LkPid ''nextpid'') (\<lambda>_.
     bnd (initlock LkWait ''wait_lock'') (\<lambda>_.
     foreach [0..<NPROC] (\<lambda>i.
       bnd (initlock (LkProc i) ''proc'') (\<lambda>_.
       set_proc i (\<lambda>p. p\<lparr>kstack := KSTACK (of_nat i)\<rparr>)))))"

definition myproc :: "('a mach_scheme, nat option) kmon" where
  "myproc =
     bnd push_off (\<lambda>_.
     bnd (gets (\<lambda>s. cpu_proc (mycpu s))) (\<lambda>p.
     bnd pop_off (\<lambda>_. ret p)))"

definition deref :: "nat option \<Rightarrow> ('s, nat) kmon" where
  \<comment> \<open>a load through the null pointer faults, and a fault in the kernel ends in
      \<^verbatim>\<open>panic("kerneltrap")\<close>\<close>
  "deref p = (case p of None \<Rightarrow> panic ''kerneltrap'' | Some i \<Rightarrow> ret i)"

definition curproc :: "('a mach_scheme, nat) kmon" where
  "curproc = bnd myproc deref"

section \<open>Creating and freeing processes\<close>

definition allocpid :: "('a kproc_scheme, int32) kmon" where
  "allocpid =
     bnd (acquire LkPid) (\<lambda>_.
     bnd (gets nextpid) (\<lambda>pid.
     bnd (modify (\<lambda>s. s\<lparr>nextpid := nextpid s + 1\<rparr>)) (\<lambda>_.
     bnd (release LkPid) (\<lambda>_.
     ret pid))))"

definition proc_pagetable :: "nat \<Rightarrow> ('a kproc_scheme, uint64) kmon" where
  "proc_pagetable p =
     bnd uvmcreate (\<lambda>pt.
     if pt = 0 then ret 0
     else
       bnd (gets (\<lambda>s. trampoline (ksym s))) (\<lambda>trampoline.
       bnd (mappages pt TRAMPOLINE PGSIZE trampoline (PTE_R OR PTE_X)) (\<lambda>r.
       if r < 0 then bnd (uvmfree pt 0) (\<lambda>_. ret 0)
       else
         bnd (getp p trapframe) (\<lambda>tf.
         bnd (mappages pt TRAPFRAME PGSIZE tf (PTE_R OR PTE_W)) (\<lambda>r.
         if r < 0
         then bnd (uvmunmap pt TRAMPOLINE 1 False) (\<lambda>_. bnd (uvmfree pt 0) (\<lambda>_. ret 0))
         else ret pt)))))"

definition proc_freepagetable :: "uint64 \<Rightarrow> uint64 \<Rightarrow> ('a kmem_scheme, unit) kmon" where
  "proc_freepagetable pt sz =
     bnd (uvmunmap pt TRAMPOLINE 1 False) (\<lambda>_.
     bnd (uvmunmap pt TRAPFRAME 1 False) (\<lambda>_.
     uvmfree pt sz))"

definition freeproc :: "nat \<Rightarrow> ('a kproc_scheme, unit) kmon" where
  "freeproc p =
     bnd (getp p trapframe) (\<lambda>tf.
     bnd (whenk (tf \<noteq> 0) (kfree tf)) (\<lambda>_.
     bnd (set_proc p (\<lambda>q. q\<lparr>trapframe := 0\<rparr>)) (\<lambda>_.
     bnd (getp p pagetable) (\<lambda>pt.
     bnd (getp p psz) (\<lambda>sz.
     bnd (whenk (pt \<noteq> 0) (proc_freepagetable pt sz)) (\<lambda>_.
     set_proc p (\<lambda>q. q\<lparr>pagetable := 0, psz := 0, pid := 0, parent := None,
       pname := (pname q)[0 := 0], pchan := None, killed := False, xstate := 0,
       pstate := UNUSED\<rparr>)))))))"

fun find_unused :: "nat list \<Rightarrow> ('a kproc_scheme, nat option) kmon" where
  \<comment> \<open>the loop before \<^verbatim>\<open>found:\<close>; the lock of the process it returns is held\<close>
  "find_unused [] = ret None"
| "find_unused (i # is) =
     bnd (acquire (LkProc i)) (\<lambda>_.
     bnd (getp i pstate) (\<lambda>st.
     if st = UNUSED then ret (Some i)
     else bnd (release (LkProc i)) (\<lambda>_. find_unused is)))"

definition allocproc :: "('a kproc_scheme, nat option) kmon" where
  "allocproc =
     bnd (find_unused [0..<NPROC]) (\<lambda>r. case r of None \<Rightarrow> ret None | Some p \<Rightarrow>
     bnd allocpid (\<lambda>n.
     bnd (set_proc p (\<lambda>q. q\<lparr>pid := n, pstate := USED\<rparr>)) (\<lambda>_.
     bnd kalloc (\<lambda>tf.
     bnd (set_proc p (\<lambda>q. q\<lparr>trapframe := tf\<rparr>)) (\<lambda>_.
     if tf = 0
     then bnd (freeproc p) (\<lambda>_. bnd (release (LkProc p)) (\<lambda>_. ret None))
     else
       bnd (proc_pagetable p) (\<lambda>pt.
       bnd (set_proc p (\<lambda>q. q\<lparr>pagetable := pt\<rparr>)) (\<lambda>_.
       if pt = 0
       then bnd (freeproc p) (\<lambda>_. bnd (release (LkProc p)) (\<lambda>_. ret None))
       else
         bnd (gets (\<lambda>s. forkret_addr (ksym s))) (\<lambda>forkret.
         bnd (set_proc p (\<lambda>q. q\<lparr>pcontext :=
            zero_context\<lparr>ctx_ra := forkret, ctx_sp := kstack q + PGSIZE\<rparr>\<rparr>)) (\<lambda>_.
         ret (Some p))))))))))"

definition growproc :: "int32 \<Rightarrow> ('a kproc_scheme, int) kmon" where
  \<comment> \<open>\<^verbatim>\<open>sz\<close> is a 32-bit variable: the 64-bit \<^verbatim>\<open>p->sz\<close> and the results are truncated\<close>
  "growproc n =
     bnd curproc (\<lambda>p.
     bnd (getp p pagetable) (\<lambda>pt.
     bnd (getp p (\<lambda>q. ucast (psz q))) (\<lambda>sz :: uint32.
     if 0 < sint n
     then bnd (uvmalloc pt (ucast sz) (ucast (sz + n))) (\<lambda>r.
       let sz' = (ucast r :: uint32) in
       if sz' = 0 then ret (-1)
       else bnd (set_proc p (\<lambda>q. q\<lparr>psz := ucast sz'\<rparr>)) (\<lambda>_. ret 0))
     else if sint n < 0
     then bnd (uvmdealloc pt (ucast sz) (ucast (sz + n))) (\<lambda>r.
       bnd (set_proc p (\<lambda>q. q\<lparr>psz := ucast (ucast r :: uint32)\<rparr>)) (\<lambda>_. ret 0))
     else bnd (set_proc p (\<lambda>q. q\<lparr>psz := ucast sz\<rparr>)) (\<lambda>_. ret 0))))"

section \<open>Context switches (kernel/swtch.S)\<close>

definition swtch :: "(kcontext \<Rightarrow> 'a kproc_scheme \<Rightarrow> 'a kproc_scheme) \<Rightarrow>
    ('a kproc_scheme \<Rightarrow> kcontext) \<Rightarrow> 'a kproc_scheme \<Rightarrow> 'a kproc_scheme" where
  \<comment> \<open>save the callee-saved registers in \<open>*old\<close>, then load them from \<open>*new\<close>\<close>
  "swtch set_old get_new s = (let t = set_old (kregs s (this_hart s)) s in
     t\<lparr>kregs := (kregs t)(this_hart t := get_new t)\<rparr>)"

definition to_scheduler :: "nat \<Rightarrow> 'a kproc_scheme \<Rightarrow> 'a kproc_scheme" where
  \<comment> \<open>\<^verbatim>\<open>swtch(&p->context, &mycpu()->context)\<close>\<close>
  "to_scheduler p = swtch (\<lambda>c. upd_proc p (\<lambda>q. q\<lparr>pcontext := c\<rparr>)) (\<lambda>s. cpu_context (mycpu s))"

definition to_process :: "nat \<Rightarrow> 'a kproc_scheme \<Rightarrow> 'a kproc_scheme" where
  \<comment> \<open>\<^verbatim>\<open>swtch(&c->context, &p->context)\<close>\<close>
  "to_process p = swtch (\<lambda>c. upd_mycpu (\<lambda>k. k\<lparr>cpu_context := c\<rparr>)) (\<lambda>s. pcontext (procs s p))"

section \<open>Giving up and getting back the CPU\<close>

definition sched_check :: "('a kproc_scheme, nat \<times> bool) kmon" where
  \<comment> \<open>the checks of \<^verbatim>\<open>sched\<close>, and the \<^verbatim>\<open>intena\<close> that it keeps on its stack\<close>
  "sched_check =
     bnd curproc (\<lambda>p.
     bnd (gets (holding (LkProc p))) (\<lambda>h.
     bnd (assert_or h ''sched p->lock'') (\<lambda>_.
     bnd (gets (\<lambda>s. noff (mycpu s))) (\<lambda>n.
     bnd (assert_or (n = 1) ''sched locks'') (\<lambda>_.
     bnd (getp p pstate) (\<lambda>st.
     bnd (assert_or (st \<noteq> RUNNING) ''sched running'') (\<lambda>_.
     bnd (gets intr_get) (\<lambda>on.
     bnd (assert_or (\<not> on) ''sched interruptible'') (\<lambda>_.
     gets (\<lambda>s. (p, intena (mycpu s))))))))))))"

definition sched :: "('a kproc_scheme, 'b) kmon" where
  "sched = bnd sched_check (\<lambda>(p, intena). (\<lambda>s. Sched (to_scheduler p s)))"

definition sched_resume :: "bool \<Rightarrow> ('a kproc_scheme, unit) kmon" where
  \<comment> \<open>what \<^verbatim>\<open>sched\<close> does when the scheduler has switched back to it\<close>
  "sched_resume b = modify (upd_mycpu (\<lambda>c. c\<lparr>intena := b\<rparr>))"

definition yield :: "('a kproc_scheme, unit) kmon" where
  "yield =
     bnd curproc (\<lambda>p.
     bnd (acquire (LkProc p)) (\<lambda>_.
     bnd (set_proc p (\<lambda>q. q\<lparr>pstate := RUNNABLE\<rparr>)) (\<lambda>_.
     sched)))"

definition yield_resume :: "bool \<Rightarrow> ('a kproc_scheme, unit) kmon" where
  "yield_resume b =
     bnd (sched_resume b) (\<lambda>_.
     bnd curproc (\<lambda>p. release (LkProc p)))"

definition sleep :: "chan \<Rightarrow> lockid \<Rightarrow> ('a kproc_scheme, 'b) kmon" where
  "sleep chan l =
     bnd curproc (\<lambda>p.
     bnd (acquire (LkProc p)) (\<lambda>_.
     bnd (release l) (\<lambda>_.
     bnd (set_proc p (\<lambda>q. q\<lparr>pchan := Some chan, pstate := SLEEPING\<rparr>)) (\<lambda>_.
     sched))))"

definition sleep_resume :: "bool \<Rightarrow> lockid \<Rightarrow> ('a kproc_scheme, unit) kmon" where
  "sleep_resume b l =
     bnd (sched_resume b) (\<lambda>_.
     bnd curproc (\<lambda>p.
     bnd (set_proc p (\<lambda>q. q\<lparr>pchan := None\<rparr>)) (\<lambda>_.
     bnd (release (LkProc p)) (\<lambda>_.
     acquire l))))"

definition wakeup_proc :: "chan option \<Rightarrow> nat \<Rightarrow> ('a kproc_scheme, unit) kmon" where
  \<comment> \<open>the body of the loop of \<^verbatim>\<open>wakeup\<close>\<close>
  "wakeup_proc chan i =
     bnd myproc (\<lambda>me.
     whenk (Some i \<noteq> me)
       (bnd (acquire (LkProc i)) (\<lambda>_.
        bnd (getp i (\<lambda>p. pstate p = SLEEPING \<and> pchan p = chan)) (\<lambda>b.
        bnd (whenk b (set_proc i (\<lambda>p. p\<lparr>pstate := RUNNABLE\<rparr>))) (\<lambda>_.
        release (LkProc i))))))"

definition wakeup :: "chan option \<Rightarrow> ('a kproc_scheme, unit) kmon" where
  "wakeup chan = foreach [0..<NPROC] (wakeup_proc chan)"

text \<open>
  One iteration of the scheduler's inner loop, up to the switch to the chosen process
  (\<open>True\<close>) or to its end; \<open>scheduler_back\<close> is what follows the switch.
\<close>

definition scheduler_enter :: "('a kproc_scheme, unit) kmon" where
  "scheduler_enter = modify (upd_mycpu (\<lambda>c. c\<lparr>cpu_proc := None\<rparr>))"

definition scheduler_try :: "nat \<Rightarrow> ('a kproc_scheme, bool) kmon" where
  "scheduler_try i =
     bnd (acquire (LkProc i)) (\<lambda>_.
     bnd (getp i pstate) (\<lambda>st.
     if st = RUNNABLE
     then
       bnd (set_proc i (\<lambda>p. p\<lparr>pstate := RUNNING\<rparr>)) (\<lambda>_.
       bnd (modify (upd_mycpu (\<lambda>c. c\<lparr>cpu_proc := Some i\<rparr>))) (\<lambda>_.
       bnd (modify (to_process i)) (\<lambda>_. ret True)))
     else bnd (release (LkProc i)) (\<lambda>_. ret False)))"

definition scheduler_back :: "nat \<Rightarrow> ('a kproc_scheme, unit) kmon" where
  "scheduler_back i =
     bnd (modify (upd_mycpu (\<lambda>c. c\<lparr>cpu_proc := None\<rparr>))) (\<lambda>_.
     release (LkProc i))"

fun scheduler_scan :: "nat list \<Rightarrow> ('a kproc_scheme, nat option) kmon" where
  \<comment> \<open>the inner loop up to the first switch: the process switched to, if any\<close>
  "scheduler_scan [] = ret None"
| "scheduler_scan (i # is) =
     bnd (scheduler_try i) (\<lambda>b. if b then ret (Some i) else scheduler_scan is)"

primrec scheduler_resume :: "nat option \<Rightarrow> ('a kproc_scheme, nat option) kmon" where
  \<comment> \<open>the two loops from one switch to the next: a round begins (\<open>None\<close>), or process \<open>i\<close> has
      switched back and the inner loop goes on behind it (\<open>Some i\<close>); the result is the process
      switched to, or \<open>None\<close> at the end of the round, and the argument of the next call\<close>
  "scheduler_resume None = bnd (modify intr_on) (\<lambda>_. scheduler_scan [0..<NPROC])"
| "scheduler_resume (Some i) = bnd (scheduler_back i) (\<lambda>_. scheduler_scan [Suc i..<NPROC])"

section \<open>Killing, waiting, orphans\<close>

fun kill_scan :: "int32 \<Rightarrow> nat list \<Rightarrow> ('a kproc_scheme, int) kmon" where
  "kill_scan n [] = ret (-1)"
| "kill_scan n (i # is) =
     bnd (acquire (LkProc i)) (\<lambda>_.
     bnd (getp i pid) (\<lambda>m.
     if m = n
     then
       bnd (set_proc i (\<lambda>p. p\<lparr>killed := True\<rparr>)) (\<lambda>_.
       bnd (getp i pstate) (\<lambda>st.
       bnd (whenk (st = SLEEPING) (set_proc i (\<lambda>p. p\<lparr>pstate := RUNNABLE\<rparr>))) (\<lambda>_.
       bnd (release (LkProc i)) (\<lambda>_. ret 0))))
     else bnd (release (LkProc i)) (\<lambda>_. kill_scan n is)))"

definition kill :: "int32 \<Rightarrow> ('a kproc_scheme, int) kmon" where
  "kill n = kill_scan n [0..<NPROC]"

definition reparent :: "nat \<Rightarrow> ('a kproc_scheme, unit) kmon" where
  "reparent p = foreach [0..<NPROC] (\<lambda>i.
     bnd (getp i parent) (\<lambda>pp.
     whenk (pp = Some p)
       (bnd (gets initproc) (\<lambda>init.
        bnd (set_proc i (\<lambda>q. q\<lparr>parent := init\<rparr>)) (\<lambda>_.
        wakeup (map_option ChProc init))))))"

fun wait_scan :: "nat \<Rightarrow> uint64 \<Rightarrow> nat list \<Rightarrow> bool \<Rightarrow> ('a kproc_scheme, int + bool) kmon" where
  \<comment> \<open>the scan of the table: a result to return, or \<^verbatim>\<open>havekids\<close>\<close>
  "wait_scan p addr [] havekids = ret (Inr havekids)"
| "wait_scan p addr (i # is) havekids =
     bnd (getp i parent) (\<lambda>pp.
     if pp \<noteq> Some p then wait_scan p addr is havekids
     else
       bnd (acquire (LkProc i)) (\<lambda>_.
       bnd (getp i pstate) (\<lambda>st.
       if st = ZOMBIE
       then
         bnd (getp i pid) (\<lambda>n.
         bnd (getp p pagetable) (\<lambda>pt.
         bnd (getp i (\<lambda>q. le_split 4 (xstate q))) (\<lambda>bs.
         bnd (if addr \<noteq> 0 then copyout_b pt addr bs else ret 0) (\<lambda>r.
         if r < 0
         then bnd (release (LkProc i)) (\<lambda>_. bnd (release LkWait) (\<lambda>_. ret (Inl (-1))))
         else
           bnd (freeproc i) (\<lambda>_.
           bnd (release (LkProc i)) (\<lambda>_.
           bnd (release LkWait) (\<lambda>_. ret (Inl (sint n)))))))))
       else bnd (release (LkProc i)) (\<lambda>_. wait_scan p addr is True))))"

definition wait_pass :: "uint64 \<Rightarrow> ('a kproc_scheme, int) kmon" where
  \<comment> \<open>one pass of \<^verbatim>\<open>for(;;)\<close>; a process that slept in it resumes with the next pass\<close>
  "wait_pass addr =
     bnd curproc (\<lambda>p.
     bnd (wait_scan p addr [0..<NPROC] False) (\<lambda>r.
     case r of Inl v \<Rightarrow> ret v
     | Inr havekids \<Rightarrow>
         bnd (getp p killed) (\<lambda>k.
         if \<not> havekids \<or> k then bnd (release LkWait) (\<lambda>_. ret (-1))
         else sleep (ChProc p) LkWait)))"

definition wait :: "uint64 \<Rightarrow> ('a kproc_scheme, int) kmon" where
  "wait addr = bnd (acquire LkWait) (\<lambda>_. wait_pass addr)"

definition wait_resume :: "bool \<Rightarrow> uint64 \<Rightarrow> ('a kproc_scheme, int) kmon" where
  "wait_resume b addr = bnd (sleep_resume b LkWait) (\<lambda>_. wait_pass addr)"

section \<open>Copies to and from user or kernel memory\<close>

text \<open>
  Both routines are given the bytes on the kernel's side, and deliver them there; see
  \<open>copyout_b\<close>.
\<close>

definition either_copyout :: "bool \<Rightarrow> uint64 \<Rightarrow> uint8 list \<Rightarrow> ('a kproc_scheme, int) kmon" where
  "either_copyout user_dst dst bs =
     bnd myproc (\<lambda>me.
     if user_dst
     then bnd (deref me) (\<lambda>p. bnd (getp p pagetable) (\<lambda>pt. copyout_b pt dst bs))
     else bnd (modify (\<lambda>s. s\<lparr>mem := store_bytes (mem s) dst bs\<rparr>)) (\<lambda>_. ret 0))"

definition either_copyin :: "bool \<Rightarrow> uint64 \<Rightarrow> nat \<Rightarrow> ('a kproc_scheme, uint8 list \<times> bool) kmon" where
  "either_copyin user_src src len =
     bnd myproc (\<lambda>me.
     if user_src
     then bnd (deref me) (\<lambda>p. bnd (getp p pagetable) (\<lambda>pt. copyin_b pt src len))
     else gets (\<lambda>s. (load_bytes (mem s) src len, True)))"

section \<open>Locks and the process fields are independent\<close>

lemma acq_kproc [simp]:
  "procs (acq l s) = procs s" "nextpid (acq l s) = nextpid s" "initproc (acq l s) = initproc s" 
  "kregs (acq l s) = kregs s" "kernel_pagetable (acq l s) = kernel_pagetable s"
  by (simp_all add: acq_def mach_defs)

lemma acq_kproc_upd [simp]:
  "procs_update f0 (acq l s) = acq l (procs_update f0 s)" 
  "nextpid_update f1 (acq l s) = acq l (nextpid_update f1 s)" 
  "initproc_update f2 (acq l s) = acq l (initproc_update f2 s)" 
  "kregs_update f3 (acq l s) = acq l (kregs_update f3 s)" 
  "kernel_pagetable_update f4 (acq l s) = acq l (kernel_pagetable_update f4 s)"
  by (simp_all add: acq_def mach_defs)

lemma cpu_ok_kproc [simp]:
  "cpu_ok (procs_update f0 s) = cpu_ok s" "cpu_ok (nextpid_update f1 s) = cpu_ok s" 
  "cpu_ok (initproc_update f2 s) = cpu_ok s" "cpu_ok (kregs_update f3 s) = cpu_ok s" 
  "cpu_ok (kernel_pagetable_update f4 s) = cpu_ok s"
  by (simp_all add: cpu_ok_def intr_get_def mach_defs)

lemma lock_free_kproc [simp]:
  "lock_free l (procs_update f0 s) = lock_free l s" 
  "lock_free l (nextpid_update f1 s) = lock_free l s" 
  "lock_free l (initproc_update f2 s) = lock_free l s" 
  "lock_free l (kregs_update f3 s) = lock_free l s" 
  "lock_free l (kernel_pagetable_update f4 s) = lock_free l s"
  by (simp_all add: lock_free_def)

lemma mycpu_kproc [simp]:
  "mycpu (procs_update f0 s) = mycpu s" "mycpu (nextpid_update f1 s) = mycpu s" 
  "mycpu (initproc_update f2 s) = mycpu s" "mycpu (kregs_update f3 s) = mycpu s" 
  "mycpu (kernel_pagetable_update f4 s) = mycpu s"
  by (simp_all add: mach_defs)

lemma mycpu_acq [simp]:
  "cpu_proc (mycpu (acq l s)) = cpu_proc (mycpu s)" "cpuid (acq l s) = cpuid s"
  by (simp_all add: acq_def mach_defs)

section \<open>Closed forms\<close>

lemma pop_push:
  assumes "cpu_ok s"
  shows "pop_off (upd_mycpu (\<lambda>c. c\<lparr>noff := noff c + 1\<rparr>) (intr_off s)) = Ok () s"
proof -
  let ?c = "mycpu s"
  have "pop_off (upd_mycpu (\<lambda>c. c\<lparr>noff := noff c + 1\<rparr>) (intr_off s)) =
      (if noff ?c = 0 \<and> intena ?c then Ok () (intr_on (intr_off s)) else Ok () (intr_off s))"
    using assms by (auto simp: pop_off_def cpu_ok_def upd_commute upd_mycpu_id)
  also have "\<dots> = Ok () s"
    using assms by (auto simp: cpu_ok_def intr_on_off intr_off_id)
  finally show ?thesis .
qed

lemma myproc_eq [simp]: "cpu_ok s \<Longrightarrow> myproc s = Ok (cpu_proc (mycpu s)) s"
  by (simp add: myproc_def push_off_ok pop_push)

lemma curproc_eq:
  "cpu_ok s \<Longrightarrow> curproc s = (case cpu_proc (mycpu s) of None \<Rightarrow> Panic ''kerneltrap'' | Some p \<Rightarrow> Ok p s)"
  by (simp add: curproc_def deref_def split: option.split)

text \<open>\<open>running p s\<close>: this CPU runs process \<open>p\<close>.\<close>

definition running :: "nat \<Rightarrow> 'a mach_scheme \<Rightarrow> bool" where
  "running p s \<longleftrightarrow> cpu_proc (mycpu s) = Some p"

lemma curproc_running [simp]: "cpu_ok s \<Longrightarrow> running p s \<Longrightarrow> curproc s = Ok p s"
  by (simp add: curproc_eq running_def)

lemma running_acq [simp]: "running p (acq l s) = running p s"
  by (simp add: running_def)

definition procs_free :: "'a mach_scheme \<Rightarrow> bool" where
  \<comment> \<open>every process lock can be taken\<close>
  "procs_free s \<longleftrightarrow> cpu_ok s \<and> (\<forall>i<NPROC. lock_free (LkProc i) s)"

lemma procs_free_acq [simp]:
  "procs_free s \<Longrightarrow> (\<And>i. l \<noteq> LkProc i) \<Longrightarrow> procs_free (acq l s)"
  by (auto simp: procs_free_def)

lemma procs_free_cpu [simp]: "procs_free s \<Longrightarrow> cpu_ok s" by (simp add: procs_free_def)

definition woken :: "nat set \<Rightarrow> chan option \<Rightarrow> (nat \<Rightarrow> proc) \<Rightarrow> nat \<Rightarrow> proc" where
  "woken I ch P = (\<lambda>i. if i \<in> I \<and> pstate (P i) = SLEEPING \<and> pchan (P i) = ch
     then (P i)\<lparr>pstate := RUNNABLE\<rparr> else P i)"

lemma woken_insert: "woken I ch (woken {i} ch P) = woken (insert i I) ch P"
  by (auto simp: woken_def)

lemma woken_empty [simp]: "woken {} ch P = P" by (simp add: woken_def)

lemma wakeup_proc_eq:
  assumes "cpu_ok s" "lock_free (LkProc i) s"
  shows "wakeup_proc ch i s =
    Ok () (s\<lparr>procs := woken ({i} - {j. cpu_proc (mycpu s) = Some j}) ch (procs s)\<rparr>)"
  using assms
  by (auto simp: wakeup_proc_def getp_def set_proc_def upd_proc_def woken_def fun_eq_iff
      intro!: arg_cong [where f = "\<lambda>P. s\<lparr>procs := P\<rparr>"])

lemma wakeup_each:
  "cpu_ok s \<Longrightarrow> (\<forall>i \<in> set xs. lock_free (LkProc i) s) \<Longrightarrow>
   foreach xs (wakeup_proc ch) s =
   Ok () (s\<lparr>procs := woken (set xs - {j. cpu_proc (mycpu s) = Some j}) ch (procs s)\<rparr>)"
proof (induction xs arbitrary: s)
  case Nil
  then show ?case by simp
next
  case (Cons x xs)
  let ?J = "{j. cpu_proc (mycpu s) = Some j}"
  have "woken (set xs - ?J) ch (woken ({x} - ?J) ch (procs s)) = woken (set (x # xs) - ?J) ch (procs s)"
    by (auto simp: woken_def fun_eq_iff)
  with Cons show ?case by (simp add: wakeup_proc_eq)
qed

lemma wakeup_eq:
  assumes "procs_free s"
  shows "wakeup ch s =
    Ok () (s\<lparr>procs := woken ({..<NPROC} - {j. cpu_proc (mycpu s) = Some j}) ch (procs s)\<rparr>)"
  unfolding wakeup_def using assms
  by (subst wakeup_each) (auto simp: procs_free_def atLeast0LessThan)

text \<open>A process table in which nobody sleeps on \<open>ch\<close> is not changed.\<close>

lemma woken_none: "(\<forall>i \<in> I. \<not> (pstate (P i) = SLEEPING \<and> pchan (P i) = ch)) \<Longrightarrow> woken I ch P = P"
  by (auto simp: woken_def)

section \<open>Context switches\<close>

lemma acq_upd_mycpu:
  assumes "\<And>c. f (c\<lparr>noff := noff c + 1\<rparr>) = (f c)\<lparr>noff := noff (f c) + 1\<rparr>"
  shows "upd_mycpu f (acq l s) = acq l (upd_mycpu f s)"
  using assms by (simp add: acq_def mach_defs)

lemma cpu_ok_upd_mycpu:
  "(\<And>c. noff (f c) = noff c) \<Longrightarrow> (\<And>c. intena (f c) = intena c) \<Longrightarrow>
    cpu_ok (upd_mycpu f s) = cpu_ok s"
  by (simp add: cpu_ok_def)

lemma lock_free_upd_mycpu [simp]: "lock_free l (upd_mycpu f s) = lock_free l s"
  by (simp add: lock_free_def)

lemma cpu_fields_acq [simp]:
  "cpu_context (mycpu (acq l s)) = cpu_context (mycpu s)" "intena (mycpu (acq l s)) = intena (mycpu s)"
  "noff (mycpu (acq l s)) = noff (mycpu s) + 1" "\<not> intr_get (acq l s)"
  "this_hart (acq l s) = this_hart s"
  by (simp_all add: acq_def) (simp_all add: mach_defs)

lemma to_scheduler_eq:
  "to_scheduler p s = s\<lparr>procs := (procs s)(p := (procs s p)\<lparr>pcontext := kregs s (this_hart s)\<rparr>),
     kregs := (kregs s)(this_hart s := cpu_context (mycpu s))\<rparr>"
  by (simp add: to_scheduler_def swtch_def upd_proc_def)

lemma to_process_eq:
  "to_process p s = (upd_mycpu (\<lambda>c. c\<lparr>cpu_context := kregs s (this_hart s)\<rparr>) s)
     \<lparr>kregs := (kregs s)(this_hart s := pcontext (procs s p))\<rparr>"
  by (simp add: to_process_def swtch_def upd_mycpu_def)

lemma to_scheduler_acq: "to_scheduler p (acq l s) = acq l (to_scheduler p s)"
  by (simp add: to_scheduler_eq)

lemma to_process_acq: "to_process p (acq l s) = acq l (to_process p s)"
  by (simp add: to_process_eq acq_upd_mycpu)

lemma sched_acq:
  assumes "cpu_ok s" "running p s" "noff (mycpu s) = 0" "pstate (procs s p) \<noteq> RUNNING"
  shows "sched (acq (LkProc p) s) = Sched (acq (LkProc p) (to_scheduler p s))"
  using assms by (simp add: sched_def sched_check_def getp_def to_scheduler_acq)

lemma sleep_eq:
  assumes "cpu_ok s" "running p s" "noff (mycpu s) = 0" "lock_free (LkProc p) s" "lock_free l s"
    "l \<noteq> LkProc p"
  shows "sleep ch l (acq l s) = Sched (acq (LkProc p) (to_scheduler p
     (s\<lparr>procs := (procs s)(p := (procs s p)\<lparr>pchan := Some ch, pstate := SLEEPING\<rparr>)\<rparr>)))"
  using assms
  by (simp add: sleep_def release_acq_other set_proc_def upd_proc_def sched_acq running_def)

section \<open>A concrete state\<close>

text \<open>Process 0 runs on CPU 0 with one page of user memory; every other slot is unused.\<close>

definition zero_proc :: proc where
  "zero_proc = \<lparr>pstate = UNUSED, pchan = None, killed = False, xstate = 0, pid = 0, parent = None,
     kstack = 0, psz = 0, pagetable = 0, trapframe = 0, pcontext = zero_context,
     ofile = replicate NOFILE None, cwd = None, pname = replicate 16 0\<rparr>"

definition one_proc :: proc where
  "one_proc = zero_proc\<lparr>pstate := RUNNING, pid := 1, psz := 4096, pagetable := sample_pt\<rparr>"

definition zero_syms :: ksyms where
  "zero_syms = \<lparr>etext = 0x80008000, trampoline = 0x80007000, uservec = 0x80007000,
     userret = 0x80007090, kernelvec = 0x80005000, timervec = 0x80005080,
     usertrap_addr = 0x80002000, forkret_addr = 0x80001a00, kmain_addr = 0x80000e00,
     initcode_addr = 0x80008800, timer_scratch_addr = 0x80009000, disk_pages_addr = 0x8001a000\<rparr>"

definition one_kproc :: kproc where
  "one_kproc = kmem.extend (sample_vm\<lparr>cpus := (\<lambda>_. zero_cpu\<lparr>cpu_proc := Some 0\<rparr>)\<rparr>)
     (kproc.fields ((\<lambda>_. zero_proc)(0 := one_proc)) 2 (Some 0) (\<lambda>_. zero_context) 0 zero_syms)"

lemma one_kproc_simps [simp]:
  "cpu_ok one_kproc" "lock_free l one_kproc" "running 0 one_kproc" "procs_free one_kproc"
  "noff (mycpu one_kproc) = 0" "procs one_kproc 0 = one_proc"
  "i \<noteq> 0 \<Longrightarrow> procs one_kproc i = zero_proc" "mem one_kproc = sample_mem"
  by (simp_all add: procs_free_def cpu_ok_def lock_free_def intr_get_bit mach_defs running_def
      one_kproc_def kmem.extend_def kproc.fields_def sample_vm_def zero_kmem_def zero_cpu_def
      zero_hart_def zero_lock_def)

end
