(* ===== verification/Uart.thy ===== *)
theory Uart
  imports Proc
begin

text \<open>
  \<^verbatim>\<open>kernel/uart.c\<close>: the driver of the 16550 UART.  The chip is its receive queue, the
  number of bytes its transmitter accepts before the idle bit goes off, and the bytes
  written to it; what arrives and how fast it sends is up to the environment, which may
  change these fields between any two routines.  A busy-wait on a chip that is not idle is
  the outcome \<open>Spin\<close>.  The record \<open>kdev\<close> holds the state of all character devices and of
  the interrupt controller.
\<close>

section \<open>The chip\<close>

record uart16550 =
  uart_rx :: "uint8 list"      \<comment> \<open>received and not yet read\<close>
  uart_room :: nat             \<comment> \<open>how many more bytes the transmitter takes\<close>
  uart_sent :: "uint8 list"    \<comment> \<open>bytes written to the transmitter so far\<close>
  uart_latch :: bool           \<comment> \<open>the baud-rate latch is selected\<close>
  uart_ier :: uint8

definition RHR :: nat where "RHR = 0"
definition THR :: nat where "THR = 0"
definition IER :: nat where "IER = 1"
definition IER_RX_ENABLE :: uint8 where "IER_RX_ENABLE = push_bit 0 1"
definition IER_TX_ENABLE :: uint8 where "IER_TX_ENABLE = push_bit 1 1"
definition FCR :: nat where "FCR = 2"
definition FCR_FIFO_ENABLE :: uint8 where "FCR_FIFO_ENABLE = push_bit 0 1"
definition FCR_FIFO_CLEAR :: uint8 where "FCR_FIFO_CLEAR = push_bit 1 3"
definition LCR :: nat where "LCR = 3"
definition LCR_EIGHT_BITS :: uint8 where "LCR_EIGHT_BITS = push_bit 0 3"
definition LCR_BAUD_LATCH :: uint8 where "LCR_BAUD_LATCH = push_bit 7 1"
definition LSR :: nat where "LSR = 5"
definition LSR_RX_READY :: uint8 where "LSR_RX_READY = push_bit 0 1"
definition LSR_TX_IDLE :: uint8 where "LSR_TX_IDLE = push_bit 5 1"

definition chip_read :: "nat \<Rightarrow> uart16550 \<Rightarrow> uint8 \<times> uart16550" where
  "chip_read r u =
     (if r = LSR then ((if uart_rx u \<noteq> [] then LSR_RX_READY else 0) OR
                       (if 0 < uart_room u then LSR_TX_IDLE else 0), u)
      else if r = RHR \<and> uart_rx u \<noteq> [] then (hd (uart_rx u), u\<lparr>uart_rx := tl (uart_rx u)\<rparr>)
      else (0, u))"

definition chip_write :: "nat \<Rightarrow> uint8 \<Rightarrow> uart16550 \<Rightarrow> uart16550" where
  "chip_write r v u =
     (if r = LCR then u\<lparr>uart_latch := (v AND LCR_BAUD_LATCH \<noteq> 0)\<rparr>
      else if uart_latch u then u
      else if r = THR then u\<lparr>uart_sent := uart_sent u @ [v], uart_room := uart_room u - 1\<rparr>
      else if r = IER then u\<lparr>uart_ier := v\<rparr>
      else if r = FCR \<and> v AND FCR_FIFO_CLEAR \<noteq> 0 then u\<lparr>uart_rx := []\<rparr>
      else u)"

section \<open>State\<close>

datatype devfn = Consoleread | Consolewrite

record kdev = kproc +
  uart :: uart16550
  uart_tx_buf :: "uint8 list"
  uart_tx_w :: uint64
  uart_tx_r :: uint64
  panicked :: bool
  pr_locking :: bool
  cons_buf :: "uint8 list"
  cons_r :: uint32
  cons_w :: uint32
  cons_e :: uint32
  devsw_read :: "nat \<Rightarrow> devfn option"
  devsw_write :: "nat \<Rightarrow> devfn option"
  ticks :: uint32
  plic_regs :: "uint64 \<Rightarrow> uint32"
  plic_pending :: "uint32 list"   \<comment> \<open>interrupts the PLIC will hand out, in order\<close>
  started :: bool

definition ReadReg :: "nat \<Rightarrow> ('a kdev_scheme, uint8) kmon" where
  "ReadReg r = (\<lambda>s. case chip_read r (uart s) of (v, u) \<Rightarrow> Ok v (s\<lparr>uart := u\<rparr>))"

definition WriteReg :: "nat \<Rightarrow> uint8 \<Rightarrow> ('a kdev_scheme, unit) kmon" where
  "WriteReg r v = modify (\<lambda>s. s\<lparr>uart := chip_write r v (uart s)\<rparr>)"

section \<open>uart.c\<close>

definition UART_TX_BUF_SIZE :: nat where "UART_TX_BUF_SIZE = 32"

definition uartinit :: "('a kdev_scheme, unit) kmon" where
  "uartinit =
     bnd (WriteReg IER 0) (\<lambda>_.
     bnd (WriteReg LCR LCR_BAUD_LATCH) (\<lambda>_.
     bnd (WriteReg 0 3) (\<lambda>_.
     bnd (WriteReg 1 0) (\<lambda>_.
     bnd (WriteReg LCR LCR_EIGHT_BITS) (\<lambda>_.
     bnd (WriteReg FCR (FCR_FIFO_ENABLE OR FCR_FIFO_CLEAR)) (\<lambda>_.
     bnd (WriteReg IER (IER_TX_ENABLE OR IER_RX_ENABLE)) (\<lambda>_.
     initlock LkUart ''uart'')))))))"

fun uartstart_loop :: "nat \<Rightarrow> ('a kdev_scheme, unit) kmon" where
  "uartstart_loop 0 = (\<lambda>s. Spin)"
| "uartstart_loop (Suc n) =
     bnd (gets (\<lambda>s. uart_tx_w s = uart_tx_r s)) (\<lambda>empty.
     if empty then ret ()
     else
       bnd (ReadReg LSR) (\<lambda>lsr.
       if lsr AND LSR_TX_IDLE = 0 then ret ()
       else
         bnd (gets (\<lambda>s. uart_tx_buf s ! (unat (uart_tx_r s) mod UART_TX_BUF_SIZE))) (\<lambda>c.
         bnd (modify (\<lambda>s. s\<lparr>uart_tx_r := uart_tx_r s + 1\<rparr>)) (\<lambda>_.
         bnd (wakeup (Some ChUart)) (\<lambda>_.
         bnd (WriteReg THR c) (\<lambda>_. uartstart_loop n))))))"

definition uartstart :: "('a kdev_scheme, unit) kmon" where
  \<comment> \<open>the loop ends before it has sent more bytes than are in the buffer\<close>
  "uartstart = (\<lambda>s. uartstart_loop (Suc (unat (uart_tx_w s - uart_tx_r s))) s)"

definition uartputc_pass :: "uint8 \<Rightarrow> ('a kdev_scheme, unit) kmon" where
  \<comment> \<open>one pass of \<^verbatim>\<open>while(1)\<close>; a process that slept in it resumes with the next pass\<close>
  "uartputc_pass c =
     bnd (gets (\<lambda>s. uart_tx_w s = uart_tx_r s + of_nat UART_TX_BUF_SIZE)) (\<lambda>full.
     if full then sleep ChUart LkUart
     else
       bnd (modify (\<lambda>s. s\<lparr>uart_tx_buf :=
          (uart_tx_buf s)[unat (uart_tx_w s) mod UART_TX_BUF_SIZE := c]\<rparr>)) (\<lambda>_.
       bnd (modify (\<lambda>s. s\<lparr>uart_tx_w := uart_tx_w s + 1\<rparr>)) (\<lambda>_.
       bnd uartstart (\<lambda>_. release LkUart))))"

definition uartputc :: "uint8 \<Rightarrow> ('a kdev_scheme, unit) kmon" where
  "uartputc c =
     bnd (acquire LkUart) (\<lambda>_.
     bnd (gets panicked) (\<lambda>p.
     if p then (\<lambda>s. Spin) else uartputc_pass c))"

definition uartputc_sync :: "uint8 \<Rightarrow> ('a kdev_scheme, unit) kmon" where
  "uartputc_sync c =
     bnd push_off (\<lambda>_.
     bnd (gets panicked) (\<lambda>p.
     if p then (\<lambda>s. Spin)
     else
       bnd (ReadReg LSR) (\<lambda>lsr.
       if lsr AND LSR_TX_IDLE = 0 then (\<lambda>s. Spin)
       else bnd (WriteReg THR c) (\<lambda>_. pop_off))))"

definition uartgetc :: "('a kdev_scheme, int) kmon" where
  "uartgetc =
     bnd (ReadReg LSR) (\<lambda>lsr.
     if lsr AND 1 \<noteq> 0 then bnd (ReadReg RHR) (\<lambda>v. ret (uint v)) else ret (-1))"

end
