(* ===== verification/Printf.thy ===== *)
theory Printf
  imports Uart
begin

text \<open>
  \<^verbatim>\<open>kernel/printf.c\<close>, with \<^verbatim>\<open>consputc\<close> of \<^verbatim>\<open>kernel/console.c\<close> and \<^verbatim>\<open>procdump\<close> of
  \<^verbatim>\<open>kernel/proc.c\<close>.  A variable argument is an integer, a pointer-sized number or a string;
  arguments that do not match the format are undefined behaviour in C, and stop the model.
\<close>

section \<open>consputc\<close>

definition BACKSPACE :: nat where "BACKSPACE = 0x100"

definition consputc :: "nat \<Rightarrow> ('a kdev_scheme, unit) kmon" where
  "consputc c =
     (if c = BACKSPACE
      then bnd (uartputc_sync 8) (\<lambda>_. bnd (uartputc_sync 32) (\<lambda>_. uartputc_sync 8))
      else uartputc_sync (of_nat c))"

definition cputs :: "nat list \<Rightarrow> ('a kdev_scheme, unit) kmon" where
  "cputs cs = foreach cs consputc"

section \<open>Numbers\<close>

definition digits :: "nat list" where
  "digits = map of_char ''0123456789abcdef''"

lemma div_base_less: "\<not> base < 2 \<Longrightarrow> 0 < x div base \<Longrightarrow> x div base < (x :: nat)"
  by (rule div_less_dividend) (auto intro: gr0I)

function digit_loop :: "nat \<Rightarrow> nat \<Rightarrow> nat list" where
  \<comment> \<open>\<^verbatim>\<open>do buf[i++] = digits[x % base]; while((x /= base) != 0)\<close>; the base is 10 or 16 in
      every call\<close>
  "digit_loop base x = digits ! (x mod base) #
     (if base < 2 \<or> x div base = 0 then [] else digit_loop base (x div base))"
  by auto

termination
  by (relation "measure snd") (auto simp: div_base_less)

declare digit_loop.simps [simp del]

definition printint_buf :: "int32 \<Rightarrow> nat \<Rightarrow> bool \<Rightarrow> nat list" where
  \<comment> \<open>\<^verbatim>\<open>buf[0..i]\<close> before it is printed backwards\<close>
  "printint_buf xx base sign =
     (let neg = (sign \<and> sint xx < 0);
          x = (if neg then - xx else xx)
      in digit_loop base (unat x) @ (if neg then [of_char CHR ''-''] else []))"

definition printint :: "int32 \<Rightarrow> nat \<Rightarrow> bool \<Rightarrow> ('a kdev_scheme, unit) kmon" where
  "printint xx base sign = cputs (rev (printint_buf xx base sign))"

definition printptr_digits :: "uint64 \<Rightarrow> nat list" where
  "printptr_digits x = map (\<lambda>i. digits ! unat (drop_bit 60 (push_bit (4 * i) x))) [0..<16]"

definition printptr :: "uint64 \<Rightarrow> ('a kdev_scheme, unit) kmon" where
  "printptr x =
     bnd (consputc (of_char CHR ''0'')) (\<lambda>_.
     bnd (consputc (of_char CHR ''x'')) (\<lambda>_.
     cputs (printptr_digits x)))"

section \<open>printf\<close>

datatype varg = VInt int32 | VPtr uint64 | VStr "nat list option"

fun printf_loop :: "string \<Rightarrow> varg list \<Rightarrow> ('a kdev_scheme, unit) kmon" where
  "printf_loop [] ap = ret ()"
| "printf_loop [c] ap = (if c = CHR ''%'' then ret () else consputc (of_char c))"
| "printf_loop (c # d # fmt) ap =
     (if c \<noteq> CHR ''%'' then bnd (consputc (of_char c)) (\<lambda>_. printf_loop (d # fmt) ap)
      else if d = CHR ''d'' then
        (case ap of VInt x # ap' \<Rightarrow> bnd (printint x 10 True) (\<lambda>_. printf_loop fmt ap')
         | _ \<Rightarrow> ub)
      else if d = CHR ''x'' then
        (case ap of VInt x # ap' \<Rightarrow> bnd (printint x 16 True) (\<lambda>_. printf_loop fmt ap')
         | _ \<Rightarrow> ub)
      else if d = CHR ''p'' then
        (case ap of VPtr x # ap' \<Rightarrow> bnd (printptr x) (\<lambda>_. printf_loop fmt ap')
         | _ \<Rightarrow> ub)
      else if d = CHR ''s'' then
        (case ap of VStr s # ap' \<Rightarrow>
           bnd (cputs (case s of None \<Rightarrow> map of_char ''(null)'' | Some t \<Rightarrow> takeWhile (\<lambda>x. x \<noteq> 0) t))
             (\<lambda>_. printf_loop fmt ap')
         | _ \<Rightarrow> ub)
      else if d = CHR ''%'' then bnd (consputc (of_char CHR ''%'')) (\<lambda>_. printf_loop fmt ap)
      else bnd (consputc (of_char CHR ''%'')) (\<lambda>_.
           bnd (consputc (of_char d)) (\<lambda>_. printf_loop fmt ap)))"

definition printf :: "string option \<Rightarrow> varg list \<Rightarrow> ('a kdev_scheme, unit) kmon" where
  "printf fmt ap =
     bnd (gets pr_locking) (\<lambda>locking.
     bnd (whenk locking (acquire LkPr)) (\<lambda>_.
     case fmt of None \<Rightarrow> panic ''null fmt''
     | Some f \<Rightarrow> bnd (printf_loop f ap) (\<lambda>_. whenk locking (release LkPr))))"

definition panic_print :: "string \<Rightarrow> ('a kdev_scheme, unit) kmon" where
  \<comment> \<open>the body of \<^verbatim>\<open>panic(s)\<close> before its endless loop; the message is used as the format\<close>
  "panic_print msg =
     bnd (modify (\<lambda>s. s\<lparr>pr_locking := False\<rparr>)) (\<lambda>_.
     bnd (printf (Some ''panic: '') []) (\<lambda>_.
     bnd (printf (Some msg) []) (\<lambda>_.
     bnd (printf (Some [CHR 0x0A]) []) (\<lambda>_.
     modify (\<lambda>s. s\<lparr>panicked := True\<rparr>)))))"

definition printfinit :: "('a kdev_scheme, unit) kmon" where
  "printfinit =
     bnd (initlock LkPr ''pr'') (\<lambda>_. modify (\<lambda>s. s\<lparr>pr_locking := True\<rparr>))"

section \<open>procdump (kernel/proc.c)\<close>

fun state_name :: "procstate \<Rightarrow> string" where
  "state_name UNUSED = ''unused''"
| "state_name USED = ''???''"
| "state_name SLEEPING = ''sleep ''"
| "state_name RUNNABLE = ''runble''"
| "state_name RUNNING = ''run   ''"
| "state_name ZOMBIE = ''zombie''"

definition procdump :: "('a kdev_scheme, unit) kmon" where
  "procdump =
     bnd (printf (Some [CHR 0x0A]) []) (\<lambda>_.
     foreach [0..<NPROC] (\<lambda>i.
       bnd (getp i id) (\<lambda>p.
       whenk (pstate p \<noteq> UNUSED)
         (bnd (printf (Some ''%d %s %s'')
            [VInt (pid p), VStr (Some (map of_char (state_name (pstate p)))),
             VStr (Some (map unat (pname p)))]) (\<lambda>_.
          printf (Some [CHR 0x0A]) [])))))"

end
