(* ===== verification/Console.thy ===== *)
theory Console
  imports Printf
begin

text \<open>
  \<^verbatim>\<open>kernel/console.c\<close> and \<^verbatim>\<open>uartintr\<close> of \<^verbatim>\<open>kernel/uart.c\<close>: line input with editing, in a ring
  buffer with a read, a write and an edit index, and console output.
\<close>

section \<open>Reading and writing\<close>

definition INPUT_BUF :: nat where "INPUT_BUF = 128"

definition C_ctl :: "char \<Rightarrow> nat" where
  \<comment> \<open>\<^verbatim>\<open>C(x)\<close>\<close>
  "C_ctl x = of_char x - of_char CHR ''@''"

fun consolewrite_loop :: "bool \<Rightarrow> uint64 \<Rightarrow> nat \<Rightarrow> nat \<Rightarrow> ('a kdev_scheme, int) kmon" where
  \<comment> \<open>\<open>k\<close> bytes are left, \<open>i\<close> are written\<close>
  "consolewrite_loop user_src src 0 i = ret (int i)"
| "consolewrite_loop user_src src (Suc k) i =
     bnd (either_copyin user_src (src + of_nat i) 1) (\<lambda>(bs, ok).
     if \<not> ok then ret (int i)
     else bnd (uartputc (hd bs)) (\<lambda>_. consolewrite_loop user_src src k (Suc i)))"

definition consolewrite :: "bool \<Rightarrow> uint64 \<Rightarrow> int32 \<Rightarrow> ('a kdev_scheme, int) kmon" where
  "consolewrite user_src src n = consolewrite_loop user_src src (nat (sint n)) 0"

fun consoleread_loop :: "bool \<Rightarrow> uint64 \<Rightarrow> nat \<Rightarrow> nat \<Rightarrow> ('a kdev_scheme, int) kmon" where
  \<comment> \<open>a process that slept in it resumes with the same arguments\<close>
  "consoleread_loop user_dst dst target 0 =
     bnd (release LkCons) (\<lambda>_. ret (int target))"
| "consoleread_loop user_dst dst target (Suc k) =
     bnd (gets (\<lambda>s. cons_r s = cons_w s)) (\<lambda>empty.
     if empty
     then
       bnd curproc (\<lambda>p.
       bnd (getp p killed) (\<lambda>dead.
       if dead then bnd (release LkCons) (\<lambda>_. ret (-1))
       else sleep ChCons LkCons))
     else
       bnd (gets (\<lambda>s. cons_buf s ! (unat (cons_r s) mod INPUT_BUF))) (\<lambda>c.
       bnd (modify (\<lambda>s. s\<lparr>cons_r := cons_r s + 1\<rparr>)) (\<lambda>_.
       if unat c = C_ctl CHR ''D''
       then
         bnd (whenk (Suc k < target) (modify (\<lambda>s. s\<lparr>cons_r := cons_r s - 1\<rparr>))) (\<lambda>_.
         bnd (release LkCons) (\<lambda>_. ret (int target - int (Suc k))))
       else
         bnd (either_copyout user_dst dst [c]) (\<lambda>r.
         if r = -1
         then bnd (release LkCons) (\<lambda>_. ret (int target - int (Suc k)))
         else if c = 10
         then bnd (release LkCons) (\<lambda>_. ret (int target - int k))
         else consoleread_loop user_dst (dst + 1) target k))))"

definition consoleread :: "bool \<Rightarrow> uint64 \<Rightarrow> int32 \<Rightarrow> ('a kdev_scheme, int) kmon" where
  \<comment> \<open>for \<open>n \<le> 0\<close> the loop is not entered and \<^verbatim>\<open>target - n\<close> is 0\<close>
  "consoleread user_dst dst n =
     bnd (acquire LkCons) (\<lambda>_.
     consoleread_loop user_dst dst (nat (sint n)) (nat (sint n)))"

section \<open>The interrupt handler\<close>

function kill_line :: "uint32 \<Rightarrow> uint32 \<Rightarrow> ('a kdev_scheme, unit) kmon" where
  \<comment> \<open>the loop of Control-U, from write index \<open>w\<close> and edit index \<open>e\<close>\<close>
  "kill_line w e =
     (if e = w then ret ()
      else
        bnd (gets (\<lambda>s. cons_buf s ! (unat (e - 1) mod INPUT_BUF))) (\<lambda>c.
        if c = 10 then ret ()
        else
          bnd (modify (\<lambda>s. s\<lparr>cons_e := e - 1\<rparr>)) (\<lambda>_.
          bnd (consputc BACKSPACE) (\<lambda>_. kill_line w (e - 1)))))"
  by auto

termination
proof (relation "measure (\<lambda>(w, e). unat (e - w))")
  fix w e :: uint32
  assume "e \<noteq> w"
  then have "e - w \<noteq> 0" by simp
  then have "unat (e - w - 1) < unat (e - w)" by (simp add: unat_minus_one unat_gt_0)
  then show "((w, e - 1), w, e) \<in> measure (\<lambda>(w, e). unat (e - w))"
    by (simp add: algebra_simps)
qed simp

declare kill_line.simps [simp del]

definition consoleintr :: "nat \<Rightarrow> ('a kdev_scheme, unit) kmon" where
  "consoleintr c =
     bnd (acquire LkCons) (\<lambda>_.
     bnd (if c = C_ctl CHR ''P'' then procdump
          else if c = C_ctl CHR ''U'' then (\<lambda>s. kill_line (cons_w s) (cons_e s) s)
          else if c = C_ctl CHR ''H'' \<or> c = 0x7f then
            bnd (gets (\<lambda>s. cons_e s \<noteq> cons_w s)) (\<lambda>b.
            whenk b
              (bnd (modify (\<lambda>s. s\<lparr>cons_e := cons_e s - 1\<rparr>)) (\<lambda>_. consputc BACKSPACE)))
          else
            bnd (gets (\<lambda>s. cons_e s - cons_r s < of_nat INPUT_BUF)) (\<lambda>room.
            whenk (c \<noteq> 0 \<and> room)
              (let c' = (if c = 13 then 10 else c) in
               bnd (consputc c') (\<lambda>_.
               bnd (modify (\<lambda>s. s\<lparr>cons_buf :=
                  (cons_buf s)[unat (cons_e s) mod INPUT_BUF := of_nat c'],
                  cons_e := cons_e s + 1\<rparr>)) (\<lambda>_.
               bnd (gets (\<lambda>s. cons_e s = cons_r s + of_nat INPUT_BUF)) (\<lambda>full.
               whenk (c' = 10 \<or> c' = C_ctl CHR ''D'' \<or> full)
                 (bnd (modify (\<lambda>s. s\<lparr>cons_w := cons_e s\<rparr>)) (\<lambda>_.
                  wakeup (Some ChCons))))))))) (\<lambda>_.
     release LkCons))"

fun uartintr_loop :: "nat \<Rightarrow> ('a kdev_scheme, unit) kmon" where
  "uartintr_loop 0 = (\<lambda>s. Spin)"
| "uartintr_loop (Suc n) =
     bnd uartgetc (\<lambda>c. if c = -1 then ret ()
       else bnd (consoleintr (nat c)) (\<lambda>_. uartintr_loop n))"

definition uartintr :: "('a kdev_scheme, unit) kmon" where
  \<comment> \<open>the loop reads every byte the chip has received, and then finds it empty\<close>
  "uartintr =
     bnd (\<lambda>s. uartintr_loop (Suc (length (uart_rx (uart s)))) s) (\<lambda>_.
     bnd (acquire LkUart) (\<lambda>_.
     bnd uartstart (\<lambda>_.
     release LkUart)))"

definition CONSOLE :: nat where "CONSOLE = 1"

definition consoleinit :: "('a kdev_scheme, unit) kmon" where
  "consoleinit =
     bnd (initlock LkCons ''cons'') (\<lambda>_.
     bnd uartinit (\<lambda>_.
     modify (\<lambda>s. s\<lparr>devsw_read := (devsw_read s)(CONSOLE := Some Consoleread),
                    devsw_write := (devsw_write s)(CONSOLE := Some Consolewrite)\<rparr>)))"

end
