(* ===== verification/Sleeplock.thy ===== *)
theory Sleeplock
  imports Console
begin

text \<open>
  \<^verbatim>\<open>kernel/sleeplock.c\<close>: locks held across a sleep, one in every disk buffer and in every
  in-memory inode.
\<close>

record sleeplock =
  sl_locked :: bool
  sl_name :: string
  sl_pid :: int32

datatype slockid = SLBuf nat | SLInode nat

fun sl_lk :: "slockid \<Rightarrow> lockid" where
  \<comment> \<open>the spin lock \<^verbatim>\<open>lk->lk\<close> that protects the sleep lock\<close>
  "sl_lk (SLBuf i) = LkBufSleep i"
| "sl_lk (SLInode i) = LkInodeSleep i"

fun sl_chan :: "slockid \<Rightarrow> chan" where
  \<comment> \<open>the address of the sleep lock as a channel\<close>
  "sl_chan (SLBuf i) = ChBufLock i"
| "sl_chan (SLInode i) = ChInodeLock i"

record kslp = kdev +
  slocks :: "slockid \<Rightarrow> sleeplock"

definition upd_slock :: "slockid \<Rightarrow> (sleeplock \<Rightarrow> sleeplock) \<Rightarrow> ('a kslp_scheme, unit) kmon" where
  "upd_slock k f = modify (\<lambda>s. s\<lparr>slocks := (slocks s)(k := f (slocks s k))\<rparr>)"

definition initsleeplock :: "slockid \<Rightarrow> string \<Rightarrow> ('a kslp_scheme, unit) kmon" where
  "initsleeplock k name =
     bnd (initlock (sl_lk k) ''sleep lock'') (\<lambda>_.
     upd_slock k (\<lambda>_. \<lparr>sl_locked = False, sl_name = name, sl_pid = 0\<rparr>))"

definition acquiresleep_pass :: "slockid \<Rightarrow> ('a kslp_scheme, unit) kmon" where
  \<comment> \<open>from the test of \<^verbatim>\<open>while (lk->locked)\<close> on; a process that slept resumes here\<close>
  "acquiresleep_pass k =
     bnd (gets (\<lambda>s. sl_locked (slocks s k))) (\<lambda>held.
     if held then sleep (sl_chan k) (sl_lk k)
     else
       bnd (upd_slock k (\<lambda>l. l\<lparr>sl_locked := True\<rparr>)) (\<lambda>_.
       bnd curproc (\<lambda>p.
       bnd (getp p pid) (\<lambda>n.
       bnd (upd_slock k (\<lambda>l. l\<lparr>sl_pid := n\<rparr>)) (\<lambda>_.
       release (sl_lk k))))))"

definition acquiresleep :: "slockid \<Rightarrow> ('a kslp_scheme, unit) kmon" where
  "acquiresleep k = bnd (acquire (sl_lk k)) (\<lambda>_. acquiresleep_pass k)"

definition releasesleep :: "slockid \<Rightarrow> ('a kslp_scheme, unit) kmon" where
  "releasesleep k =
     bnd (acquire (sl_lk k)) (\<lambda>_.
     bnd (upd_slock k (\<lambda>l. l\<lparr>sl_locked := False\<rparr>)) (\<lambda>_.
     bnd (upd_slock k (\<lambda>l. l\<lparr>sl_pid := 0\<rparr>)) (\<lambda>_.
     bnd (wakeup (Some (sl_chan k))) (\<lambda>_.
     release (sl_lk k)))))"

definition holdingsleep :: "slockid \<Rightarrow> ('a kslp_scheme, bool) kmon" where
  "holdingsleep k =
     bnd (acquire (sl_lk k)) (\<lambda>_.
     bnd (gets (\<lambda>s. slocks s k)) (\<lambda>l.
     bnd (if sl_locked l
          then bnd curproc (\<lambda>p. bnd (getp p pid) (\<lambda>n. ret (sl_pid l = n)))
          else ret False) (\<lambda>r.
     bnd (release (sl_lk k)) (\<lambda>_. ret r))))"

section \<open>Closed forms\<close>

lemma acq_kslp [simp]:
  "slocks (acq l s) = slocks s"
  by (simp_all add: acq_def mach_defs)

lemma acq_kslp_upd [simp]:
  "slocks_update f0 (acq l s) = acq l (slocks_update f0 s)"
  by (simp_all add: acq_def mach_defs)

lemma cpu_ok_kslp [simp]:
  "cpu_ok (slocks_update f0 s) = cpu_ok s"
  by (simp_all add: cpu_ok_def intr_get_def mach_defs)

lemma lock_free_kslp [simp]:
  "lock_free l (slocks_update f0 s) = lock_free l s"
  by (simp_all add: lock_free_def)

lemma mycpu_kslp [simp]:
  "mycpu (slocks_update f0 s) = mycpu s"
  by (simp_all add: mach_defs)

lemma running_kslp [simp]:
  "running p (slocks_update f0 s) = running p s"
  by (simp_all add: running_def)

lemma procs_free_kslp [simp]:
  "procs_free (slocks_update f0 s) = procs_free s"
  by (simp_all add: procs_free_def)

lemma running_procs [simp]: "running p (procs_update f s) = running p s"
  by (simp add: running_def)

lemma procs_free_procs [simp]: "procs_free (procs_update f s) = procs_free s"
  by (simp add: procs_free_def)

lemma sl_lk_proc [simp]: "sl_lk k \<noteq> LkProc i"
  by (cases k) simp_all

text \<open>A free sleep-lock is taken at once, in the name of the calling process.\<close>

lemma acquiresleep_eq:
  assumes "cpu_ok s" "running p s" "lock_free (sl_lk k) s" "\<not> sl_locked (slocks s k)"
  shows "acquiresleep k s = Ok () (s\<lparr>slocks := (slocks s)
    (k := (slocks s k)\<lparr>sl_locked := True, sl_pid := pid (procs s p)\<rparr>)\<rparr>)"
  using assms by (simp add: acquiresleep_def acquiresleep_pass_def upd_slock_def getp_def)

text \<open>On a sleep-lock that is held the process goes to sleep.\<close>

lemma acquiresleep_sleeps:
  assumes "cpu_ok s" "running p s" "noff (mycpu s) = 0" "lock_free (LkProc p) s"
    "lock_free (sl_lk k) s" "sl_locked (slocks s k)"
  shows "acquiresleep k s = Sched (acq (LkProc p) (to_scheduler p
     (s\<lparr>procs := (procs s)(p := (procs s p)\<lparr>pchan := Some (sl_chan k), pstate := SLEEPING\<rparr>)\<rparr>)))"
  using assms by (simp add: acquiresleep_def acquiresleep_pass_def sleep_eq)

lemma holdingsleep_eq:
  assumes "cpu_ok s" "running p s" "lock_free (sl_lk k) s"
  shows "holdingsleep k s = Ok (sl_locked (slocks s k) \<and> sl_pid (slocks s k) = pid (procs s p)) s"
  using assms by (simp add: holdingsleep_def getp_def)

definition wakes :: "chan \<Rightarrow> 'a kproc_scheme \<Rightarrow> nat \<Rightarrow> proc" where
  \<comment> \<open>the process table after \<^verbatim>\<open>wakeup\<close> on a channel\<close>
  "wakes ch s = woken ({..<NPROC} - {j. cpu_proc (mycpu s) = Some j}) (Some ch) (procs s)"

lemma wakes_pid [simp]: "pid (wakes ch s i) = pid (procs s i)"
  by (simp add: wakes_def woken_def)

lemma releasesleep_eq:
  assumes "procs_free s" "lock_free (sl_lk k) s"
  shows "releasesleep k s = Ok () (s\<lparr>slocks := (slocks s)
      (k := (slocks s k)\<lparr>sl_locked := False, sl_pid := 0\<rparr>), procs := wakes (sl_chan k) s\<rparr>)"
  using assms by (simp add: releasesleep_def upd_slock_def wakeup_eq wakes_def)

end
