(* ===== verification/Virtio.thy ===== *)
theory Virtio
  imports Sleeplock
begin

text \<open>
  \<^verbatim>\<open>kernel/virtio_disk.c\<close>, \<^verbatim>\<open>kernel/virtio.h\<close> and \<^verbatim>\<open>kernel/buf.h\<close>: the driver of the virtio
  disk.  A request is a chain of three descriptors; the driver posts the head of the chain
  in the avail ring and sleeps, the device answers in the used ring and interrupts, and the
  interrupt handler wakes the sleeper.  Descriptor addresses name the object they point to.
  The memory-mapped registers that the driver reads are the argument \<open>mmio\<close> of
  \<open>virtio_disk_init\<close>.
\<close>

section \<open>Buffers (kernel/buf.h)\<close>

definition BSIZE :: nat where "BSIZE = 1024"

record buf =
  b_valid :: bool
  b_disk :: bool              \<comment> \<open>does the disk own the buffer?\<close>
  b_dev :: uint32
  b_blockno :: uint32
  b_refcnt :: uint32
  b_prev :: nat               \<comment> \<open>indices; \<^verbatim>\<open>NBUF\<close> is \<^verbatim>\<open>bcache.head\<close>\<close>
  b_next :: nat
  b_data :: "uint8 list"

section \<open>Rings (kernel/virtio.h)\<close>

definition NUM :: nat where "NUM = 8"
definition VRING_DESC_F_NEXT :: uint16 where "VRING_DESC_F_NEXT = 1"
definition VRING_DESC_F_WRITE :: uint16 where "VRING_DESC_F_WRITE = 2"
definition VIRTIO_BLK_T_IN :: uint32 where "VIRTIO_BLK_T_IN = 0"
definition VIRTIO_BLK_T_OUT :: uint32 where "VIRTIO_BLK_T_OUT = 1"

datatype daddr =
    DNull
  | DOps nat      \<comment> \<open>\<^verbatim>\<open>&disk.ops[i]\<close>\<close>
  | DData nat     \<comment> \<open>\<^verbatim>\<open>b->data\<close> of buffer \<open>i\<close>\<close>
  | DStatus nat   \<comment> \<open>\<^verbatim>\<open>&disk.info[i].status\<close>\<close>

record virtq_desc =
  d_addr :: daddr
  d_len :: uint32
  d_flags :: uint16
  d_next :: nat

record virtio_blk_req =
  r_type :: uint32
  r_reserved :: uint32
  r_sector :: uint64

record virtq_info =
  in_buf :: "nat option"
  in_status :: uint8

record vdisk =
  vq_desc :: "nat \<Rightarrow> virtq_desc"
  avail_idx :: uint16
  avail_ring :: "nat \<Rightarrow> nat"
  vu_idx :: uint16             \<comment> \<open>\<^verbatim>\<open>disk.used->idx\<close>, written by the device\<close>
  vu_ring :: "nat \<Rightarrow> nat"      \<comment> \<open>\<^verbatim>\<open>disk.used->ring[i].id\<close>\<close>
  dfree :: "nat \<Rightarrow> bool"
  used_idx :: uint16
  vinfo :: "nat \<Rightarrow> virtq_info"
  vops :: "nat \<Rightarrow> virtio_blk_req"
  vnotified :: bool            \<comment> \<open>\<^verbatim>\<open>QUEUE_NOTIFY\<close> has been written\<close>
  vregs :: "(nat \<times> uint32) list"  \<comment> \<open>the other registers written, newest last\<close>

record kblk = kslp +
  bufs :: "nat \<Rightarrow> buf"
  vdisk :: vdisk
  disk :: "uint32 \<Rightarrow> uint8 list"            \<comment> \<open>the blocks of the disk\<close>
  dwrites :: "(uint32 \<times> uint8 list) list"   \<comment> \<open>every block write so far, newest last\<close>

definition upd_buf :: "nat \<Rightarrow> (buf \<Rightarrow> buf) \<Rightarrow> ('a kblk_scheme, unit) kmon" where
  "upd_buf i f = modify (\<lambda>s. s\<lparr>bufs := (bufs s)(i := f (bufs s i))\<rparr>)"

definition getb :: "nat \<Rightarrow> (buf \<Rightarrow> 'b) \<Rightarrow> ('a kblk_scheme, 'b) kmon" where
  "getb i f = gets (\<lambda>s. f (bufs s i))"

definition upd_vdisk :: "(vdisk \<Rightarrow> vdisk) \<Rightarrow> ('a kblk_scheme, unit) kmon" where
  "upd_vdisk f = modify (\<lambda>s. s\<lparr>vdisk := f (vdisk s)\<rparr>)"

definition zero_desc :: virtq_desc where
  "zero_desc = \<lparr>d_addr = DNull, d_len = 0, d_flags = 0, d_next = 0\<rparr>"

section \<open>Initialisation\<close>

definition VIRTIO_MMIO_MAGIC_VALUE :: nat where "VIRTIO_MMIO_MAGIC_VALUE = 0x000"
definition VIRTIO_MMIO_VERSION :: nat where "VIRTIO_MMIO_VERSION = 0x004"
definition VIRTIO_MMIO_DEVICE_ID :: nat where "VIRTIO_MMIO_DEVICE_ID = 0x008"
definition VIRTIO_MMIO_VENDOR_ID :: nat where "VIRTIO_MMIO_VENDOR_ID = 0x00c"
definition VIRTIO_MMIO_DEVICE_FEATURES :: nat where "VIRTIO_MMIO_DEVICE_FEATURES = 0x010"
definition VIRTIO_MMIO_DRIVER_FEATURES :: nat where "VIRTIO_MMIO_DRIVER_FEATURES = 0x020"
definition VIRTIO_MMIO_GUEST_PAGE_SIZE :: nat where "VIRTIO_MMIO_GUEST_PAGE_SIZE = 0x028"
definition VIRTIO_MMIO_QUEUE_SEL :: nat where "VIRTIO_MMIO_QUEUE_SEL = 0x030"
definition VIRTIO_MMIO_QUEUE_NUM_MAX :: nat where "VIRTIO_MMIO_QUEUE_NUM_MAX = 0x034"
definition VIRTIO_MMIO_QUEUE_NUM :: nat where "VIRTIO_MMIO_QUEUE_NUM = 0x038"
definition VIRTIO_MMIO_QUEUE_PFN :: nat where "VIRTIO_MMIO_QUEUE_PFN = 0x040"
definition VIRTIO_MMIO_INTERRUPT_STATUS :: nat where "VIRTIO_MMIO_INTERRUPT_STATUS = 0x060"
definition VIRTIO_MMIO_INTERRUPT_ACK :: nat where "VIRTIO_MMIO_INTERRUPT_ACK = 0x064"
definition VIRTIO_MMIO_STATUS :: nat where "VIRTIO_MMIO_STATUS = 0x070"
definition VIRTIO_CONFIG_S_ACKNOWLEDGE :: uint32 where "VIRTIO_CONFIG_S_ACKNOWLEDGE = 1"
definition VIRTIO_CONFIG_S_DRIVER :: uint32 where "VIRTIO_CONFIG_S_DRIVER = 2"
definition VIRTIO_CONFIG_S_DRIVER_OK :: uint32 where "VIRTIO_CONFIG_S_DRIVER_OK = 4"
definition VIRTIO_CONFIG_S_FEATURES_OK :: uint32 where "VIRTIO_CONFIG_S_FEATURES_OK = 8"
definition VIRTIO_BLK_F_RO :: nat where "VIRTIO_BLK_F_RO = 5"
definition VIRTIO_BLK_F_SCSI :: nat where "VIRTIO_BLK_F_SCSI = 7"
definition VIRTIO_BLK_F_CONFIG_WCE :: nat where "VIRTIO_BLK_F_CONFIG_WCE = 11"
definition VIRTIO_BLK_F_MQ :: nat where "VIRTIO_BLK_F_MQ = 12"
definition VIRTIO_F_ANY_LAYOUT :: nat where "VIRTIO_F_ANY_LAYOUT = 27"
definition VIRTIO_RING_F_INDIRECT_DESC :: nat where "VIRTIO_RING_F_INDIRECT_DESC = 28"
definition VIRTIO_RING_F_EVENT_IDX :: nat where "VIRTIO_RING_F_EVENT_IDX = 29"

definition wreg :: "nat \<Rightarrow> uint32 \<Rightarrow> ('a kblk_scheme, unit) kmon" where
  "wreg r v = upd_vdisk (\<lambda>d. d\<lparr>vregs := vregs d @ [(r, v)]\<rparr>)"

definition virtio_features :: "uint32 \<Rightarrow> uint32" where
  "virtio_features f = unset_bit VIRTIO_RING_F_INDIRECT_DESC (unset_bit VIRTIO_RING_F_EVENT_IDX
     (unset_bit VIRTIO_F_ANY_LAYOUT (unset_bit VIRTIO_BLK_F_MQ (unset_bit VIRTIO_BLK_F_CONFIG_WCE
     (unset_bit VIRTIO_BLK_F_SCSI (unset_bit VIRTIO_BLK_F_RO f))))))"

definition virtio_disk_init :: "(nat \<Rightarrow> uint32) \<Rightarrow> uint64 \<Rightarrow> ('a kblk_scheme, unit) kmon" where
  \<comment> \<open>\<open>pages\<close> is the address of \<^verbatim>\<open>disk.pages\<close>\<close>
  "virtio_disk_init mmio pages =
     bnd (initlock LkDisk ''virtio_disk'') (\<lambda>_.
     if mmio VIRTIO_MMIO_MAGIC_VALUE \<noteq> 0x74726976 \<or> mmio VIRTIO_MMIO_VERSION \<noteq> 1
        \<or> mmio VIRTIO_MMIO_DEVICE_ID \<noteq> 2 \<or> mmio VIRTIO_MMIO_VENDOR_ID \<noteq> 0x554d4551
     then panic ''could not find virtio disk''
     else
       let st1 = VIRTIO_CONFIG_S_ACKNOWLEDGE;
           st2 = st1 OR VIRTIO_CONFIG_S_DRIVER;
           st3 = st2 OR VIRTIO_CONFIG_S_FEATURES_OK;
           st4 = st3 OR VIRTIO_CONFIG_S_DRIVER_OK;
           mx = mmio VIRTIO_MMIO_QUEUE_NUM_MAX in
       bnd (wreg VIRTIO_MMIO_STATUS st1) (\<lambda>_.
       bnd (wreg VIRTIO_MMIO_STATUS st2) (\<lambda>_.
       bnd (wreg VIRTIO_MMIO_DRIVER_FEATURES (virtio_features (mmio VIRTIO_MMIO_DEVICE_FEATURES))) (\<lambda>_.
       bnd (wreg VIRTIO_MMIO_STATUS st3) (\<lambda>_.
       bnd (wreg VIRTIO_MMIO_STATUS st4) (\<lambda>_.
       bnd (wreg VIRTIO_MMIO_GUEST_PAGE_SIZE 4096) (\<lambda>_.
       bnd (wreg VIRTIO_MMIO_QUEUE_SEL 0) (\<lambda>_.
       bnd (assert_or (mx \<noteq> 0) ''virtio disk has no queue 0'') (\<lambda>_.
       bnd (assert_or (\<not> mx < of_nat NUM) ''virtio disk max queue too short'') (\<lambda>_.
       bnd (wreg VIRTIO_MMIO_QUEUE_NUM (of_nat NUM)) (\<lambda>_.
       bnd (upd_vdisk (\<lambda>d. d\<lparr>vq_desc := (\<lambda>_. zero_desc), avail_idx := 0, avail_ring := (\<lambda>_. 0),
              vu_idx := 0, vu_ring := (\<lambda>_. 0)\<rparr>)) (\<lambda>_.
       bnd (wreg VIRTIO_MMIO_QUEUE_PFN (ucast (drop_bit PGSHIFT pages))) (\<lambda>_.
       upd_vdisk (\<lambda>d. d\<lparr>dfree := (\<lambda>i. i < NUM \<or> dfree d i)\<rparr>))))))))))))))"

section \<open>Descriptors\<close>

fun alloc_desc_from :: "nat list \<Rightarrow> ('a kblk_scheme, nat option) kmon" where
  "alloc_desc_from [] = ret None"
| "alloc_desc_from (i # is) =
     bnd (gets (\<lambda>s. dfree (vdisk s) i)) (\<lambda>free.
     if free
     then bnd (upd_vdisk (\<lambda>d. d\<lparr>dfree := (dfree d)(i := False)\<rparr>)) (\<lambda>_. ret (Some i))
     else alloc_desc_from is)"

definition alloc_desc :: "('a kblk_scheme, nat option) kmon" where
  "alloc_desc = alloc_desc_from [0..<NUM]"

definition free_desc :: "nat \<Rightarrow> ('a kblk_scheme, unit) kmon" where
  "free_desc i =
     bnd (assert_or (\<not> NUM \<le> i) ''free_desc 1'') (\<lambda>_.
     bnd (gets (\<lambda>s. dfree (vdisk s) i)) (\<lambda>free.
     bnd (assert_or (\<not> free) ''free_desc 2'') (\<lambda>_.
     bnd (upd_vdisk (\<lambda>d. d\<lparr>vq_desc := (vq_desc d)(i := zero_desc),
                            dfree := (dfree d)(i := True)\<rparr>)) (\<lambda>_.
     wakeup (Some ChDiskFree)))))"

fun free_chain_loop :: "nat \<Rightarrow> nat \<Rightarrow> ('a kblk_scheme, unit) kmon" where
  "free_chain_loop 0 i = (\<lambda>s. Spin)"
| "free_chain_loop (Suc n) i =
     bnd (gets (\<lambda>s. vq_desc (vdisk s) i)) (\<lambda>d.
     bnd (free_desc i) (\<lambda>_.
     if d_flags d AND VRING_DESC_F_NEXT \<noteq> 0 then free_chain_loop n (d_next d) else ret ()))"

definition free_chain :: "nat \<Rightarrow> ('a kblk_scheme, unit) kmon" where
  \<comment> \<open>\<^verbatim>\<open>free_desc\<close> panics on a descriptor that is free already, so that at most \<^verbatim>\<open>NUM\<close> steps
      return\<close>
  "free_chain i = free_chain_loop (Suc NUM) i"

definition alloc3_desc :: "('a kblk_scheme, (nat \<times> nat \<times> nat) option) kmon" where
  "alloc3_desc =
     bnd alloc_desc (\<lambda>r0. case r0 of None \<Rightarrow> ret None | Some i0 \<Rightarrow>
     bnd alloc_desc (\<lambda>r1. case r1 of None \<Rightarrow> bnd (free_desc i0) (\<lambda>_. ret None) | Some i1 \<Rightarrow>
     bnd alloc_desc (\<lambda>r2. case r2 of None \<Rightarrow>
         bnd (free_desc i0) (\<lambda>_. bnd (free_desc i1) (\<lambda>_. ret None))
     | Some i2 \<Rightarrow> ret (Some (i0, i1, i2)))))"

section \<open>Requests\<close>

definition virtio_submit :: "nat \<Rightarrow> bool \<Rightarrow> uint64 \<Rightarrow> nat \<times> nat \<times> nat \<Rightarrow> ('a kblk_scheme, unit) kmon" where
  \<comment> \<open>format the three descriptors and post the chain\<close>
  "virtio_submit b write sector = (\<lambda>(i0, i1, i2).
     bnd (upd_vdisk (\<lambda>d. d\<lparr>
       vops := (vops d)(i0 := \<lparr>r_type = (if write then VIRTIO_BLK_T_OUT else VIRTIO_BLK_T_IN),
                               r_reserved = 0, r_sector = sector\<rparr>),
       vq_desc := ((vq_desc d)(i0 := \<lparr>d_addr = DOps i0, d_len = 16,
                                      d_flags = VRING_DESC_F_NEXT, d_next = i1\<rparr>))
                    (i1 := \<lparr>d_addr = DData b, d_len = 1024,
                           d_flags = (if write then 0 else VRING_DESC_F_WRITE) OR VRING_DESC_F_NEXT,
                           d_next = i2\<rparr>,
                     i2 := \<lparr>d_addr = DStatus i0, d_len = 1, d_flags = VRING_DESC_F_WRITE,
                           d_next = 0\<rparr>),
       vinfo := (vinfo d)(i0 := (vinfo d i0)\<lparr>in_status := 0xff\<rparr>)\<rparr>)) (\<lambda>_.
     bnd (upd_buf b (\<lambda>x. x\<lparr>b_disk := True\<rparr>)) (\<lambda>_.
     bnd (upd_vdisk (\<lambda>d. d\<lparr>vinfo := (vinfo d)(i0 := (vinfo d i0)\<lparr>in_buf := Some b\<rparr>)\<rparr>)) (\<lambda>_.
     bnd (upd_vdisk (\<lambda>d. d\<lparr>avail_ring := (avail_ring d)(unat (avail_idx d) mod NUM := i0)\<rparr>)) (\<lambda>_.
     bnd (upd_vdisk (\<lambda>d. d\<lparr>avail_idx := avail_idx d + 1\<rparr>)) (\<lambda>_.
     upd_vdisk (\<lambda>d. d\<lparr>vnotified := True\<rparr>)))))))"

definition virtio_wait :: "nat \<Rightarrow> nat \<Rightarrow> ('a kblk_scheme, unit) kmon" where
  \<comment> \<open>from the test of \<^verbatim>\<open>while(b->disk == 1)\<close> on; a process that slept resumes here\<close>
  "virtio_wait b i0 =
     bnd (getb b b_disk) (\<lambda>busy.
     if busy then sleep (ChBuf b) LkDisk
     else
       bnd (upd_vdisk (\<lambda>d. d\<lparr>vinfo := (vinfo d)(i0 := (vinfo d i0)\<lparr>in_buf := None\<rparr>)\<rparr>)) (\<lambda>_.
       bnd (free_chain i0) (\<lambda>_.
       release LkDisk)))"

definition virtio_start :: "nat \<Rightarrow> bool \<Rightarrow> ('a kblk_scheme, unit) kmon" where
  \<comment> \<open>from the allocation loop on; a process that slept there resumes here\<close>
  "virtio_start b write =
     bnd alloc3_desc (\<lambda>r. case r of None \<Rightarrow> sleep ChDiskFree LkDisk
     | Some idx \<Rightarrow>
         bnd (getb b (\<lambda>x. ucast (b_blockno x * 2))) (\<lambda>sector.
         bnd (virtio_submit b write sector idx) (\<lambda>_.
         virtio_wait b (fst idx))))"

definition virtio_disk_rw :: "nat \<Rightarrow> bool \<Rightarrow> ('a kblk_scheme, unit) kmon" where
  "virtio_disk_rw b write = bnd (acquire LkDisk) (\<lambda>_. virtio_start b write)"

fun virtio_intr_loop :: "nat \<Rightarrow> ('a kblk_scheme, unit) kmon" where
  "virtio_intr_loop 0 = (\<lambda>s. Spin)"
| "virtio_intr_loop (Suc n) =
     bnd (gets vdisk) (\<lambda>d.
     if used_idx d = vu_idx d then ret ()
     else
       let i = vu_ring d (unat (used_idx d) mod NUM) in
       bnd (assert_or (in_status (vinfo d i) = 0) ''virtio_disk_intr status'') (\<lambda>_.
       bnd (deref (in_buf (vinfo d i))) (\<lambda>b.
       bnd (upd_buf b (\<lambda>x. x\<lparr>b_disk := False\<rparr>)) (\<lambda>_.
       bnd (wakeup (Some (ChBuf b))) (\<lambda>_.
       bnd (upd_vdisk (\<lambda>d. d\<lparr>used_idx := used_idx d + 1\<rparr>)) (\<lambda>_.
       virtio_intr_loop n))))))"

definition virtio_disk_intr :: "uint32 \<Rightarrow> ('a kblk_scheme, unit) kmon" where
  \<comment> \<open>\<open>st\<close> is what the interrupt status register reads; the loop ends when \<^verbatim>\<open>used_idx\<close> has
      caught up with the ring\<close>
  "virtio_disk_intr st =
     bnd (acquire LkDisk) (\<lambda>_.
     bnd (wreg VIRTIO_MMIO_INTERRUPT_ACK (st AND 3)) (\<lambda>_.
     bnd (\<lambda>s. virtio_intr_loop (Suc (unat (vu_idx (vdisk s) - used_idx (vdisk s)))) s) (\<lambda>_.
     release LkDisk)))"

end
