(* ===== verification/Bio.thy ===== *)
theory Bio
  imports Virtio
begin

text \<open>
  \<^verbatim>\<open>kernel/bio.c\<close>: the buffer cache, a doubly linked list of buffers in least-recently-used
  order, with pointers as indices and \<^verbatim>\<open>NBUF\<close> for \<^verbatim>\<open>bcache.head\<close>.

  From here on a disk request is the transfer that \<^verbatim>\<open>virtio_disk_rw\<close> has made when it returns
  (\<open>disk_rw\<close>).
\<close>

section \<open>The disk as its clients see it\<close>

definition disk_rw :: "nat \<Rightarrow> bool \<Rightarrow> ('a kblk_scheme, unit) kmon" where
  "disk_rw b write =
     (if write
      then modify (\<lambda>s. s\<lparr>disk := (disk s)(b_blockno (bufs s b) := b_data (bufs s b)),
                        dwrites := dwrites s @ [(b_blockno (bufs s b), b_data (bufs s b))]\<rparr>)
      else modify (\<lambda>s. s\<lparr>bufs := (bufs s)(b := (bufs s b)\<lparr>b_data := disk s (b_blockno (bufs s b))\<rparr>)\<rparr>))"

section \<open>bio.c\<close>

definition binit :: "('a kblk_scheme, unit) kmon" where
  "binit =
     bnd (initlock LkBcache ''bcache'') (\<lambda>_.
     bnd (upd_buf NBUF (\<lambda>h. h\<lparr>b_prev := NBUF, b_next := NBUF\<rparr>)) (\<lambda>_.
     foreach [0..<NBUF] (\<lambda>b.
       bnd (getb NBUF b_next) (\<lambda>nx.
       bnd (upd_buf b (\<lambda>x. x\<lparr>b_next := nx, b_prev := NBUF\<rparr>)) (\<lambda>_.
       bnd (initsleeplock (SLBuf b) ''buffer'') (\<lambda>_.
       bnd (getb NBUF b_next) (\<lambda>nx.
       bnd (upd_buf nx (\<lambda>x. x\<lparr>b_prev := b\<rparr>)) (\<lambda>_.
       upd_buf NBUF (\<lambda>h. h\<lparr>b_next := b\<rparr>)))))))))"

fun find_cached :: "nat \<Rightarrow> uint32 \<Rightarrow> uint32 \<Rightarrow> nat \<Rightarrow> ('a kblk_scheme, nat option) kmon" where
  \<comment> \<open>\<open>for(b = bcache.head.next; b != &bcache.head; b = b->next)\<close>; a list with more than \<^verbatim>\<open>NBUF\<close>
      elements would be cyclic\<close>
  "find_cached 0 dev blockno b = (\<lambda>s. Spin)"
| "find_cached (Suc n) dev blockno b =
     (if b = NBUF then ret None
      else
        bnd (getb b id) (\<lambda>x.
        if b_dev x = dev \<and> b_blockno x = blockno then ret (Some b)
        else find_cached n dev blockno (b_next x)))"

fun find_lru :: "nat \<Rightarrow> nat \<Rightarrow> ('a kblk_scheme, nat option) kmon" where
  "find_lru 0 b = (\<lambda>s. Spin)"
| "find_lru (Suc n) b =
     (if b = NBUF then ret None
      else
        bnd (getb b id) (\<lambda>x.
        if b_refcnt x = 0 then ret (Some b) else find_lru n (b_prev x)))"

definition bget :: "uint32 \<Rightarrow> uint32 \<Rightarrow> ('a kblk_scheme, nat) kmon" where
  "bget dev blockno =
     bnd (acquire LkBcache) (\<lambda>_.
     bnd (getb NBUF b_next) (\<lambda>b0.
     bnd (find_cached (Suc NBUF) dev blockno b0) (\<lambda>r.
     case r of Some b \<Rightarrow>
       bnd (upd_buf b (\<lambda>x. x\<lparr>b_refcnt := b_refcnt x + 1\<rparr>)) (\<lambda>_.
       bnd (release LkBcache) (\<lambda>_.
       bnd (acquiresleep (SLBuf b)) (\<lambda>_. ret b)))
     | None \<Rightarrow>
         bnd (getb NBUF b_prev) (\<lambda>b1.
         bnd (find_lru (Suc NBUF) b1) (\<lambda>r.
         case r of Some b \<Rightarrow>
           bnd (upd_buf b (\<lambda>x. x\<lparr>b_dev := dev, b_blockno := blockno, b_valid := False,
             b_refcnt := 1\<rparr>)) (\<lambda>_.
           bnd (release LkBcache) (\<lambda>_.
           bnd (acquiresleep (SLBuf b)) (\<lambda>_. ret b)))
         | None \<Rightarrow> panic ''bget: no buffers'')))))"

definition bread :: "uint32 \<Rightarrow> uint32 \<Rightarrow> ('a kblk_scheme, nat) kmon" where
  "bread dev blockno =
     bnd (bget dev blockno) (\<lambda>b.
     bnd (getb b b_valid) (\<lambda>valid.
     bnd (whenk (\<not> valid)
       (bnd (disk_rw b False) (\<lambda>_. upd_buf b (\<lambda>x. x\<lparr>b_valid := True\<rparr>)))) (\<lambda>_.
     ret b)))"

definition bwrite :: "nat \<Rightarrow> ('a kblk_scheme, unit) kmon" where
  "bwrite b =
     bnd (holdingsleep (SLBuf b)) (\<lambda>h.
     bnd (assert_or h ''bwrite'') (\<lambda>_.
     disk_rw b True))"

definition move_to_head :: "nat \<Rightarrow> ('a kblk_scheme, unit) kmon" where
  "move_to_head b =
     bnd (getb b id) (\<lambda>x.
     bnd (upd_buf (b_next x) (\<lambda>y. y\<lparr>b_prev := b_prev x\<rparr>)) (\<lambda>_.
     bnd (getb b id) (\<lambda>x.
     bnd (upd_buf (b_prev x) (\<lambda>y. y\<lparr>b_next := b_next x\<rparr>)) (\<lambda>_.
     bnd (getb NBUF b_next) (\<lambda>nx.
     bnd (upd_buf b (\<lambda>y. y\<lparr>b_next := nx\<rparr>)) (\<lambda>_.
     bnd (upd_buf b (\<lambda>y. y\<lparr>b_prev := NBUF\<rparr>)) (\<lambda>_.
     bnd (getb NBUF b_next) (\<lambda>nx.
     bnd (upd_buf nx (\<lambda>y. y\<lparr>b_prev := b\<rparr>)) (\<lambda>_.
     upd_buf NBUF (\<lambda>y. y\<lparr>b_next := b\<rparr>))))))))))"

definition brelse :: "nat \<Rightarrow> ('a kblk_scheme, unit) kmon" where
  "brelse b =
     bnd (holdingsleep (SLBuf b)) (\<lambda>h.
     bnd (assert_or h ''brelse'') (\<lambda>_.
     bnd (releasesleep (SLBuf b)) (\<lambda>_.
     bnd (acquire LkBcache) (\<lambda>_.
     bnd (upd_buf b (\<lambda>x. x\<lparr>b_refcnt := b_refcnt x - 1\<rparr>)) (\<lambda>_.
     bnd (getb b b_refcnt) (\<lambda>n.
     bnd (whenk (n = 0) (move_to_head b)) (\<lambda>_.
     release LkBcache)))))))"

definition bpin :: "nat \<Rightarrow> ('a kblk_scheme, unit) kmon" where
  "bpin b =
     bnd (acquire LkBcache) (\<lambda>_.
     bnd (upd_buf b (\<lambda>x. x\<lparr>b_refcnt := b_refcnt x + 1\<rparr>)) (\<lambda>_.
     release LkBcache))"

definition bunpin :: "nat \<Rightarrow> ('a kblk_scheme, unit) kmon" where
  "bunpin b =
     bnd (acquire LkBcache) (\<lambda>_.
     bnd (upd_buf b (\<lambda>x. x\<lparr>b_refcnt := b_refcnt x - 1\<rparr>)) (\<lambda>_.
     release LkBcache))"

end
