(* ===== verification/Log.thy ===== *)
theory Log
  imports Bio
begin

text \<open>
  \<^verbatim>\<open>kernel/log.c\<close>: the redo log that makes a file-system call atomic with respect to crashes.
  The in-memory header has room for \<^verbatim>\<open>LOGSIZE\<close> block numbers; a header read from the disk
  with more is an overflow of that array, which stops the model.
\<close>

section \<open>Little-endian fields of a block\<close>

definition get32 :: "uint8 list \<Rightarrow> nat \<Rightarrow> uint32" where
  "get32 d off = le_join (take 4 (drop off d))"

definition put_bytes :: "uint8 list \<Rightarrow> nat \<Rightarrow> uint8 list \<Rightarrow> uint8 list" where
  "put_bytes d off bs = take off d @ bs @ drop (off + length bs) d"

definition put32 :: "uint8 list \<Rightarrow> nat \<Rightarrow> uint32 \<Rightarrow> uint8 list" where
  "put32 d off v = put_bytes d off (le_split 4 v)"

section \<open>State\<close>

record superblock =
  sb_magic :: uint32
  sb_size :: uint32
  sb_nblocks :: uint32
  sb_ninodes :: uint32
  sb_nlog :: uint32
  sb_logstart :: uint32
  sb_inodestart :: uint32
  sb_bmapstart :: uint32

record klog = kblk +
  log_start :: int
  log_size :: int
  log_outstanding :: int
  log_committing :: bool
  log_dev :: uint32
  lh_n :: int
  lh_block :: "uint32 list"

section \<open>Moving blocks between the log and their homes\<close>

definition copy_block :: "nat \<Rightarrow> nat \<Rightarrow> ('a kblk_scheme, unit) kmon" where
  \<comment> \<open>\<^verbatim>\<open>memmove(to->data, from->data, BSIZE)\<close>\<close>
  "copy_block to from = modify (\<lambda>s. s\<lparr>bufs := (bufs s)(to := (bufs s to)\<lparr>b_data := b_data (bufs s from)\<rparr>)\<rparr>)"

fun install_trans_loop :: "bool \<Rightarrow> nat \<Rightarrow> nat \<Rightarrow> ('a klog_scheme, unit) kmon" where
  \<comment> \<open>\<open>k\<close> blocks are left, from \<^verbatim>\<open>tail\<close> on\<close>
  "install_trans_loop recovering 0 tail = ret ()"
| "install_trans_loop recovering (Suc k) tail =
     bnd (gets (\<lambda>s. (log_dev s, log_start s, lh_block s))) (\<lambda>(dev, start, bl).
     if length bl \<le> tail then ub else
     bnd (bread dev (of_int (start + int tail + 1))) (\<lambda>lbuf.
     bnd (bread dev (bl ! tail)) (\<lambda>dbuf.
     bnd (copy_block dbuf lbuf) (\<lambda>_.
     bnd (bwrite dbuf) (\<lambda>_.
     bnd (whenk (\<not> recovering) (bunpin dbuf)) (\<lambda>_.
     bnd (brelse lbuf) (\<lambda>_.
     bnd (brelse dbuf) (\<lambda>_.
     install_trans_loop recovering k (Suc tail)))))))))"

definition install_trans :: "bool \<Rightarrow> ('a klog_scheme, unit) kmon" where
  "install_trans recovering = (\<lambda>s. install_trans_loop recovering (nat (lh_n s)) 0 s)"

fun read_blocks :: "nat \<Rightarrow> nat \<Rightarrow> uint8 list \<Rightarrow> ('a klog_scheme, unit) kmon" where
  "read_blocks 0 i d = ret ()"
| "read_blocks (Suc k) i d =
     bnd (gets (\<lambda>s. length (lh_block s))) (\<lambda>l.
     if l \<le> i then ub else
     bnd (modify (\<lambda>s. s\<lparr>lh_block := (lh_block s)[i := get32 d (4 + 4 * i)]\<rparr>)) (\<lambda>_.
     read_blocks k (Suc i) d))"

definition read_head :: "('a klog_scheme, unit) kmon" where
  "read_head =
     bnd (gets (\<lambda>s. (log_dev s, log_start s))) (\<lambda>(dev, start).
     bnd (bread dev (of_int start)) (\<lambda>b.
     bnd (getb b b_data) (\<lambda>d.
     bnd (modify (\<lambda>s. s\<lparr>lh_n := sint (get32 d 0)\<rparr>)) (\<lambda>_.
     bnd (\<lambda>s. read_blocks (nat (lh_n s)) 0 d s) (\<lambda>_.
     brelse b)))))"

fun put_blocks :: "uint8 list \<Rightarrow> nat \<Rightarrow> uint32 list \<Rightarrow> uint8 list" where
  \<comment> \<open>\<^verbatim>\<open>hb->block[i] = log.lh.block[i]\<close> for the blocks from \<open>i\<close> on\<close>
  "put_blocks d i [] = d"
| "put_blocks d i (v # vs) = put_blocks (put32 d (4 + 4 * i) v) (Suc i) vs"

definition write_head :: "('a klog_scheme, unit) kmon" where
  "write_head =
     bnd (gets (\<lambda>s. (log_dev s, log_start s, lh_n s, lh_block s))) (\<lambda>(dev, start, n, bl).
     bnd (bread dev (of_int start)) (\<lambda>b.
     if int (length bl) < n then ub else
     bnd (upd_buf b (\<lambda>x. x\<lparr>b_data := put_blocks (put32 (b_data x) 0 (of_int n)) 0 (take (nat n) bl)\<rparr>)) (\<lambda>_.
     bnd (bwrite b) (\<lambda>_.
     brelse b))))"

definition recover_from_log :: "('a klog_scheme, unit) kmon" where
  "recover_from_log =
     bnd read_head (\<lambda>_.
     bnd (install_trans True) (\<lambda>_.
     bnd (modify (\<lambda>s. s\<lparr>lh_n := 0\<rparr>)) (\<lambda>_.
     write_head)))"

definition initlog :: "uint32 \<Rightarrow> superblock \<Rightarrow> ('a klog_scheme, unit) kmon" where
  \<comment> \<open>the header has \<^verbatim>\<open>LOGSIZE + 1\<close> words\<close>
  "initlog dev sb =
     bnd (assert_or (\<not> BSIZE \<le> 4 * (LOGSIZE + 1)) ''initlog: too big logheader'') (\<lambda>_.
     bnd (initlock LkLog ''log'') (\<lambda>_.
     bnd (modify (\<lambda>s. s\<lparr>log_start := sint (sb_logstart sb), log_size := sint (sb_nlog sb),
            log_dev := dev\<rparr>)) (\<lambda>_.
     recover_from_log)))"

section \<open>Transactions\<close>

definition begin_op_pass :: "('a klog_scheme, unit) kmon" where
  \<comment> \<open>one pass of \<^verbatim>\<open>while(1)\<close>; a process that slept in it resumes with the next pass\<close>
  "begin_op_pass =
     bnd (gets (\<lambda>s. (log_committing s, lh_n s, log_outstanding s))) (\<lambda>(committing, n, outstanding).
     if committing then sleep ChLog LkLog
     else if int LOGSIZE < n + (outstanding + 1) * int MAXOPBLOCKS then sleep ChLog LkLog
     else
       bnd (modify (\<lambda>s. s\<lparr>log_outstanding := log_outstanding s + 1\<rparr>)) (\<lambda>_.
       release LkLog))"

definition begin_op :: "('a klog_scheme, unit) kmon" where
  "begin_op = bnd (acquire LkLog) (\<lambda>_. begin_op_pass)"

fun write_log_loop :: "nat \<Rightarrow> nat \<Rightarrow> ('a klog_scheme, unit) kmon" where
  "write_log_loop 0 tail = ret ()"
| "write_log_loop (Suc k) tail =
     bnd (gets (\<lambda>s. (log_dev s, log_start s, lh_block s))) (\<lambda>(dev, start, bl).
     if length bl \<le> tail then ub else
     bnd (bread dev (of_int (start + int tail + 1))) (\<lambda>to.
     bnd (bread dev (bl ! tail)) (\<lambda>from.
     bnd (copy_block to from) (\<lambda>_.
     bnd (bwrite to) (\<lambda>_.
     bnd (brelse from) (\<lambda>_.
     bnd (brelse to) (\<lambda>_.
     write_log_loop k (Suc tail))))))))"

definition write_log :: "('a klog_scheme, unit) kmon" where
  "write_log = (\<lambda>s. write_log_loop (nat (lh_n s)) 0 s)"

definition commit :: "('a klog_scheme, unit) kmon" where
  "commit =
     bnd (gets lh_n) (\<lambda>n.
     whenk (0 < n)
       (bnd write_log (\<lambda>_.
        bnd write_head (\<lambda>_.
        bnd (install_trans False) (\<lambda>_.
        bnd (modify (\<lambda>s. s\<lparr>lh_n := 0\<rparr>)) (\<lambda>_.
        write_head))))))"

definition end_op :: "('a klog_scheme, unit) kmon" where
  "end_op =
     bnd (acquire LkLog) (\<lambda>_.
     bnd (modify (\<lambda>s. s\<lparr>log_outstanding := log_outstanding s - 1\<rparr>)) (\<lambda>_.
     bnd (gets log_committing) (\<lambda>committing.
     bnd (assert_or (\<not> committing) ''log.committing'') (\<lambda>_.
     bnd (gets (\<lambda>s. log_outstanding s = 0)) (\<lambda>do_commit.
     bnd (if do_commit then modify (\<lambda>s. s\<lparr>log_committing := True\<rparr>)
          else wakeup (Some ChLog)) (\<lambda>_.
     bnd (release LkLog) (\<lambda>_.
     whenk do_commit
       (bnd commit (\<lambda>_.
        bnd (acquire LkLog) (\<lambda>_.
        bnd (modify (\<lambda>s. s\<lparr>log_committing := False\<rparr>)) (\<lambda>_.
        bnd (wakeup (Some ChLog)) (\<lambda>_.
        release LkLog))))))))))))"

definition log_index :: "int \<Rightarrow> uint32 list \<Rightarrow> uint32 \<Rightarrow> nat" where
  \<comment> \<open>the loop \<^verbatim>\<open>for (i = 0; i < log.lh.n; i++) if (log.lh.block[i] == b->blockno) break\<close>\<close>
  "log_index n bl blockno = length (takeWhile (\<lambda>v. v \<noteq> blockno) (take (nat n) bl))"

definition log_write :: "nat \<Rightarrow> ('a klog_scheme, unit) kmon" where
  "log_write b =
     bnd (acquire LkLog) (\<lambda>_.
     bnd (gets (\<lambda>s. (lh_n s, log_size s, log_outstanding s))) (\<lambda>(n, sz, outstanding).
     if int LOGSIZE \<le> n \<or> sz - 1 \<le> n then panic ''too big a transaction''
     else if outstanding < 1 then panic ''log_write outside of trans''
     else
       bnd (getb b b_blockno) (\<lambda>blockno.
       bnd (gets (\<lambda>s. log_index n (lh_block s) blockno)) (\<lambda>i.
       bnd (modify (\<lambda>s. s\<lparr>lh_block := (lh_block s)[i := blockno]\<rparr>)) (\<lambda>_.
       bnd (whenk (int i = n)
         (bnd (bpin b) (\<lambda>_. modify (\<lambda>s. s\<lparr>lh_n := lh_n s + 1\<rparr>)))) (\<lambda>_.
       release LkLog))))))"

end
