(* ===== verification/Fs.thy ===== *)
theory Fs
  imports Log
begin

text \<open>
  \<^verbatim>\<open>kernel/fs.c\<close>, \<^verbatim>\<open>kernel/fs.h\<close>, and the inode of \<^verbatim>\<open>kernel/file.h\<close>: block allocation, inodes,
  file contents, directories and path names.  An inode pointer is an index of the inode
  table.  Structures on the disk are read and written at their byte offsets in a block.

  \<^verbatim>\<open>readi\<close> and \<^verbatim>\<open>writei\<close> have a flag for user or kernel addresses; the model has the address
  or, for a local variable of the kernel, the bytes themselves.
\<close>

section \<open>On-disk layout (kernel/fs.h)\<close>

definition ROOTINO :: uint32 where "ROOTINO = 1"
definition FSMAGIC :: uint32 where "FSMAGIC = 0x10203040"
definition NDIRECT :: nat where "NDIRECT = 12"
definition NINDIRECT :: nat where "NINDIRECT = BSIZE div 4"
definition MAXFILE :: nat where "MAXFILE = NDIRECT + NINDIRECT"
definition IPB :: nat where "IPB = BSIZE div 64"
definition BPB :: nat where "BPB = BSIZE * 8"
definition DIRSIZ :: nat where "DIRSIZ = 14"
definition T_DIR :: uint16 where "T_DIR = 1"
definition T_FILE :: uint16 where "T_FILE = 2"
definition T_DEVICE :: uint16 where "T_DEVICE = 3"

definition IBLOCK :: "uint32 \<Rightarrow> superblock \<Rightarrow> uint32" where
  "IBLOCK i sb = i div of_nat IPB + sb_inodestart sb"

definition BBLOCK :: "uint32 \<Rightarrow> superblock \<Rightarrow> uint32" where
  "BBLOCK b sb = b div of_nat BPB + sb_bmapstart sb"

definition get16 :: "uint8 list \<Rightarrow> nat \<Rightarrow> uint16" where
  "get16 d off = le_join (take 2 (drop off d))"

definition put16 :: "uint8 list \<Rightarrow> nat \<Rightarrow> uint16 \<Rightarrow> uint8 list" where
  "put16 d off v = put_bytes d off (le_split 2 v)"

record dinode =
  di_type :: uint16
  di_major :: uint16
  di_minor :: uint16
  di_nlink :: uint16
  di_size :: uint32
  di_addrs :: "uint32 list"

definition get_dinode :: "uint8 list \<Rightarrow> nat \<Rightarrow> dinode" where
  \<comment> \<open>the dinode at byte \<open>off\<close> of a block\<close>
  "get_dinode d off = \<lparr>di_type = get16 d off, di_major = get16 d (off + 2), di_minor = get16 d (off + 4),
     di_nlink = get16 d (off + 6), di_size = get32 d (off + 8),
     di_addrs = map (\<lambda>i. get32 d (off + 12 + 4 * i)) [0..<NDIRECT + 1]\<rparr>"

definition dinode_bytes :: "dinode \<Rightarrow> uint8 list" where
  "dinode_bytes x = le_split 2 (di_type x) @ le_split 2 (di_major x) @ le_split 2 (di_minor x) @
     le_split 2 (di_nlink x) @ le_split 4 (di_size x) @ concat (map (le_split 4) (di_addrs x))"

definition put_dinode :: "uint8 list \<Rightarrow> nat \<Rightarrow> dinode \<Rightarrow> uint8 list" where
  "put_dinode d off x = put_bytes d off (dinode_bytes x)"

definition dinode_off :: "uint32 \<Rightarrow> nat" where
  \<comment> \<open>\<^verbatim>\<open>(struct dinode* )bp->data + inum%IPB\<close>\<close>
  "dinode_off inum = 64 * (unat inum mod IPB)"

definition get_superblock :: "uint8 list \<Rightarrow> superblock" where
  "get_superblock d = \<lparr>sb_magic = get32 d 0, sb_size = get32 d 4, sb_nblocks = get32 d 8,
     sb_ninodes = get32 d 12, sb_nlog = get32 d 16, sb_logstart = get32 d 20,
     sb_inodestart = get32 d 24, sb_bmapstart = get32 d 28\<rparr>"

section \<open>State\<close>

record inode =
  i_dev :: uint32
  i_inum :: uint32
  i_ref :: int
  i_valid :: bool
  i_type :: uint16
  i_major :: uint16
  i_minor :: uint16
  i_nlink :: uint16
  i_size :: uint32
  i_addrs :: "uint32 list"

record kfs = klog +
  fs_sb :: superblock
  inodes :: "nat \<Rightarrow> inode"

definition upd_inode :: "nat \<Rightarrow> (inode \<Rightarrow> inode) \<Rightarrow> ('a kfs_scheme, unit) kmon" where
  "upd_inode ip f = modify (\<lambda>s. s\<lparr>inodes := (inodes s)(ip := f (inodes s ip))\<rparr>)"

definition geti :: "nat \<Rightarrow> (inode \<Rightarrow> 'b) \<Rightarrow> ('a kfs_scheme, 'b) kmon" where
  "geti ip f = gets (\<lambda>s. f (inodes s ip))"

definition upd_data :: "nat \<Rightarrow> (uint8 list \<Rightarrow> uint8 list) \<Rightarrow> ('a kblk_scheme, unit) kmon" where
  "upd_data b f = upd_buf b (\<lambda>x. x\<lparr>b_data := f (b_data x)\<rparr>)"

section \<open>Blocks\<close>

definition readsb :: "uint32 \<Rightarrow> ('a kfs_scheme, unit) kmon" where
  "readsb dev =
     bnd (bread dev 1) (\<lambda>bp.
     bnd (getb bp b_data) (\<lambda>d.
     bnd (modify (\<lambda>s. s\<lparr>fs_sb := get_superblock d\<rparr>)) (\<lambda>_.
     brelse bp)))"

definition fsinit :: "uint32 \<Rightarrow> ('a kfs_scheme, unit) kmon" where
  "fsinit dev =
     bnd (readsb dev) (\<lambda>_.
     bnd (gets fs_sb) (\<lambda>sb.
     bnd (assert_or (sb_magic sb = FSMAGIC) ''invalid file system'') (\<lambda>_.
     initlog dev sb)))"

definition bzero :: "uint32 \<Rightarrow> uint32 \<Rightarrow> ('a kfs_scheme, unit) kmon" where
  "bzero dev bno =
     bnd (bread dev bno) (\<lambda>bp.
     bnd (upd_data bp (\<lambda>d. replicate BSIZE 0)) (\<lambda>_.
     bnd (log_write bp) (\<lambda>_.
     brelse bp)))"

definition bit_used :: "uint8 list \<Rightarrow> nat \<Rightarrow> bool" where
  \<comment> \<open>\<^verbatim>\<open>(bp->data[bi/8] & m) != 0\<close> with \<^verbatim>\<open>m = 1 << (bi % 8)\<close>\<close>
  "bit_used d bi = (d ! (bi div 8) AND push_bit (bi mod 8) 1 \<noteq> 0)"

definition mark_bit :: "uint8 list \<Rightarrow> nat \<Rightarrow> uint8 list" where
  "mark_bit d bi = d[bi div 8 := d ! (bi div 8) OR push_bit (bi mod 8) 1]"

definition clear_bit :: "uint8 list \<Rightarrow> nat \<Rightarrow> uint8 list" where
  "clear_bit d bi = d[bi div 8 := d ! (bi div 8) AND NOT (push_bit (bi mod 8) 1)]"

definition free_bit :: "uint8 list \<Rightarrow> nat \<Rightarrow> nat \<Rightarrow> nat option" where
  \<comment> \<open>the inner loop of \<^verbatim>\<open>balloc\<close>\<close>
  "free_bit d b sz = find (\<lambda>bi. b + bi < sz \<and> \<not> bit_used d bi) [0..<BPB]"

fun balloc_loop :: "uint32 \<Rightarrow> nat list \<Rightarrow> ('a kfs_scheme, uint32) kmon" where
  \<comment> \<open>the list is the sequence of values of \<^verbatim>\<open>int b\<close>, which do not overflow while \<^verbatim>\<open>sb.size\<close> is below \<open>2 ^ 31\<close>\<close>
  "balloc_loop dev [] = panic ''balloc: out of blocks''"
| "balloc_loop dev (b # bs) =
     bnd (gets fs_sb) (\<lambda>sb.
     bnd (bread dev (BBLOCK (of_nat b) sb)) (\<lambda>bp.
     bnd (getb bp b_data) (\<lambda>d.
     case free_bit d b (unat (sb_size sb)) of
       Some bi \<Rightarrow>
         bnd (upd_data bp (\<lambda>d. mark_bit d bi)) (\<lambda>_.
         bnd (log_write bp) (\<lambda>_.
         bnd (brelse bp) (\<lambda>_.
         bnd (bzero dev (of_nat (b + bi))) (\<lambda>_.
         ret (of_nat (b + bi))))))
     | None \<Rightarrow> bnd (brelse bp) (\<lambda>_. balloc_loop dev bs))))"

definition balloc :: "uint32 \<Rightarrow> ('a kfs_scheme, uint32) kmon" where
  "balloc dev =
     bnd (gets (\<lambda>s. unat (sb_size (fs_sb s)))) (\<lambda>sz.
     balloc_loop dev (map (\<lambda>k. k * BPB) [0..<(sz + BPB - 1) div BPB]))"

definition bfree :: "uint32 \<Rightarrow> uint32 \<Rightarrow> ('a kfs_scheme, unit) kmon" where
  "bfree dev b =
     bnd (gets fs_sb) (\<lambda>sb.
     bnd (bread dev (BBLOCK b sb)) (\<lambda>bp.
     let bi = unat b mod BPB in
     bnd (getb bp b_data) (\<lambda>d.
     bnd (assert_or (bit_used d bi) ''freeing free block'') (\<lambda>_.
     bnd (upd_data bp (\<lambda>d. clear_bit d bi)) (\<lambda>_.
     bnd (log_write bp) (\<lambda>_.
     brelse bp))))))"

section \<open>Inodes\<close>

definition iinit :: "('a kfs_scheme, unit) kmon" where
  "iinit =
     bnd (initlock LkItable ''itable'') (\<lambda>_.
     foreach [0..<NINODE] (\<lambda>i. initsleeplock (SLInode i) ''inode''))"

fun iget_scan :: "uint32 \<Rightarrow> uint32 \<Rightarrow> nat list \<Rightarrow> nat option \<Rightarrow> ('a kfs_scheme, nat + nat option) kmon" where
  \<comment> \<open>the entry of this inode, or the first empty slot\<close>
  "iget_scan dev inum [] slot = ret (Inr slot)"
| "iget_scan dev inum (ip # ips) slot =
     bnd (geti ip id) (\<lambda>x.
     if 0 < i_ref x \<and> i_dev x = dev \<and> i_inum x = inum then ret (Inl ip)
     else iget_scan dev inum ips
       (if slot = None \<and> i_ref x = 0 then Some ip else slot))"

definition iget :: "uint32 \<Rightarrow> uint32 \<Rightarrow> ('a kfs_scheme, nat) kmon" where
  "iget dev inum =
     bnd (acquire LkItable) (\<lambda>_.
     bnd (iget_scan dev inum [0..<NINODE] None) (\<lambda>r.
     case r of
       Inl ip \<Rightarrow>
         bnd (upd_inode ip (\<lambda>x. x\<lparr>i_ref := i_ref x + 1\<rparr>)) (\<lambda>_.
         bnd (release LkItable) (\<lambda>_. ret ip))
     | Inr None \<Rightarrow> panic ''iget: no inodes''
     | Inr (Some ip) \<Rightarrow>
         bnd (upd_inode ip (\<lambda>x. x\<lparr>i_dev := dev, i_inum := inum, i_ref := 1, i_valid := False\<rparr>)) (\<lambda>_.
         bnd (release LkItable) (\<lambda>_. ret ip))))"

fun ialloc_loop :: "uint32 \<Rightarrow> uint16 \<Rightarrow> nat list \<Rightarrow> ('a kfs_scheme, nat) kmon" where
  "ialloc_loop dev type [] = panic ''ialloc: no inodes''"
| "ialloc_loop dev type (inum # is) =
     bnd (gets fs_sb) (\<lambda>sb.
     bnd (bread dev (IBLOCK (of_nat inum) sb)) (\<lambda>bp.
     let off = dinode_off (of_nat inum) in
     bnd (getb bp (\<lambda>b. di_type (get_dinode (b_data b) off))) (\<lambda>t.
     if t = 0
     then
       bnd (upd_data bp (\<lambda>d. put16 (put_bytes d off (replicate 64 0)) off type)) (\<lambda>_.
       bnd (log_write bp) (\<lambda>_.
       bnd (brelse bp) (\<lambda>_.
       iget dev (of_nat inum))))
     else bnd (brelse bp) (\<lambda>_. ialloc_loop dev type is))))"

definition ialloc :: "uint32 \<Rightarrow> uint16 \<Rightarrow> ('a kfs_scheme, nat) kmon" where
  "ialloc dev type =
     bnd (gets (\<lambda>s. unat (sb_ninodes (fs_sb s)))) (\<lambda>n. ialloc_loop dev type [1..<n])"

definition to_dinode :: "inode \<Rightarrow> dinode" where
  "to_dinode x = \<lparr>di_type = i_type x, di_major = i_major x, di_minor = i_minor x,
     di_nlink = i_nlink x, di_size = i_size x, di_addrs = i_addrs x\<rparr>"

definition iupdate :: "nat \<Rightarrow> ('a kfs_scheme, unit) kmon" where
  "iupdate ip =
     bnd (gets fs_sb) (\<lambda>sb.
     bnd (geti ip id) (\<lambda>x.
     bnd (bread (i_dev x) (IBLOCK (i_inum x) sb)) (\<lambda>bp.
     bnd (upd_data bp (\<lambda>d. put_dinode d (dinode_off (i_inum x)) (to_dinode x))) (\<lambda>_.
     bnd (log_write bp) (\<lambda>_.
     brelse bp)))))"

definition idup :: "nat \<Rightarrow> ('a kfs_scheme, nat) kmon" where
  "idup ip =
     bnd (acquire LkItable) (\<lambda>_.
     bnd (upd_inode ip (\<lambda>x. x\<lparr>i_ref := i_ref x + 1\<rparr>)) (\<lambda>_.
     bnd (release LkItable) (\<lambda>_. ret ip)))"

definition ilock :: "nat \<Rightarrow> ('a kfs_scheme, unit) kmon" where
  "ilock ip =
     bnd (geti ip i_ref) (\<lambda>n.
     bnd (assert_or (\<not> n < 1) ''ilock'') (\<lambda>_.
     bnd (acquiresleep (SLInode ip)) (\<lambda>_.
     bnd (geti ip id) (\<lambda>x.
     whenk (\<not> i_valid x)
       (bnd (gets fs_sb) (\<lambda>sb.
        bnd (bread (i_dev x) (IBLOCK (i_inum x) sb)) (\<lambda>bp.
        bnd (getb bp (\<lambda>b. get_dinode (b_data b) (dinode_off (i_inum x)))) (\<lambda>d.
        bnd (upd_inode ip (\<lambda>x. x\<lparr>i_type := di_type d, i_major := di_major d, i_minor := di_minor d,
               i_nlink := di_nlink d, i_size := di_size d, i_addrs := di_addrs d\<rparr>)) (\<lambda>_.
        bnd (brelse bp) (\<lambda>_.
        bnd (upd_inode ip (\<lambda>x. x\<lparr>i_valid := True\<rparr>)) (\<lambda>_.
        assert_or (di_type d \<noteq> 0) ''ilock: no type'')))))))))))"

definition iunlock :: "nat \<Rightarrow> ('a kfs_scheme, unit) kmon" where
  "iunlock ip =
     bnd (holdingsleep (SLInode ip)) (\<lambda>h.
     bnd (geti ip i_ref) (\<lambda>n.
     bnd (assert_or (h \<and> \<not> n < 1) ''iunlock'') (\<lambda>_.
     releasesleep (SLInode ip))))"

section \<open>Inode content\<close>

definition bmap :: "nat \<Rightarrow> nat \<Rightarrow> ('a kfs_scheme, uint32) kmon" where
  "bmap ip bn =
     bnd (geti ip id) (\<lambda>x.
     if bn < NDIRECT
     then
       (if i_addrs x ! bn \<noteq> 0 then ret (i_addrs x ! bn)
        else
          bnd (balloc (i_dev x)) (\<lambda>addr.
          bnd (upd_inode ip (\<lambda>x. x\<lparr>i_addrs := (i_addrs x)[bn := addr]\<rparr>)) (\<lambda>_. ret addr)))
     else if bn - NDIRECT < NINDIRECT
     then
       bnd (if i_addrs x ! NDIRECT \<noteq> 0 then ret (i_addrs x ! NDIRECT)
            else
              bnd (balloc (i_dev x)) (\<lambda>addr.
              bnd (upd_inode ip (\<lambda>x. x\<lparr>i_addrs := (i_addrs x)[NDIRECT := addr]\<rparr>)) (\<lambda>_. ret addr)))
         (\<lambda>ind.
       bnd (bread (i_dev x) ind) (\<lambda>bp.
       bnd (getb bp (\<lambda>b. get32 (b_data b) (4 * (bn - NDIRECT)))) (\<lambda>addr.
       bnd (if addr \<noteq> 0 then ret addr
            else
              bnd (balloc (i_dev x)) (\<lambda>addr.
              bnd (upd_data bp (\<lambda>d. put32 d (4 * (bn - NDIRECT)) addr)) (\<lambda>_.
              bnd (log_write bp) (\<lambda>_. ret addr)))) (\<lambda>addr.
       bnd (brelse bp) (\<lambda>_. ret addr)))))
     else panic ''bmap: out of range'')"

definition itrunc :: "nat \<Rightarrow> ('a kfs_scheme, unit) kmon" where
  "itrunc ip =
     bnd (foreach [0..<NDIRECT] (\<lambda>i.
       bnd (geti ip id) (\<lambda>x.
       whenk (i_addrs x ! i \<noteq> 0)
         (bnd (bfree (i_dev x) (i_addrs x ! i)) (\<lambda>_.
          upd_inode ip (\<lambda>x. x\<lparr>i_addrs := (i_addrs x)[i := 0]\<rparr>)))))) (\<lambda>_.
     bnd (geti ip id) (\<lambda>x.
     bnd (whenk (i_addrs x ! NDIRECT \<noteq> 0)
       (bnd (bread (i_dev x) (i_addrs x ! NDIRECT)) (\<lambda>bp.
        bnd (foreach [0..<NINDIRECT] (\<lambda>j.
          bnd (getb bp (\<lambda>b. get32 (b_data b) (4 * j))) (\<lambda>a.
          whenk (a \<noteq> 0) (bfree (i_dev x) a)))) (\<lambda>_.
        bnd (brelse bp) (\<lambda>_.
        bnd (bfree (i_dev x) (i_addrs x ! NDIRECT)) (\<lambda>_.
        upd_inode ip (\<lambda>x. x\<lparr>i_addrs := (i_addrs x)[NDIRECT := 0]\<rparr>))))))) (\<lambda>_.
     bnd (upd_inode ip (\<lambda>x. x\<lparr>i_size := 0\<rparr>)) (\<lambda>_.
     iupdate ip))))"

definition iput :: "nat \<Rightarrow> ('a kfs_scheme, unit) kmon" where
  "iput ip =
     bnd (acquire LkItable) (\<lambda>_.
     bnd (geti ip id) (\<lambda>x.
     bnd (whenk (i_ref x = 1 \<and> i_valid x \<and> i_nlink x = 0)
       (bnd (acquiresleep (SLInode ip)) (\<lambda>_.
        bnd (release LkItable) (\<lambda>_.
        bnd (itrunc ip) (\<lambda>_.
        bnd (upd_inode ip (\<lambda>x. x\<lparr>i_type := 0\<rparr>)) (\<lambda>_.
        bnd (iupdate ip) (\<lambda>_.
        bnd (upd_inode ip (\<lambda>x. x\<lparr>i_valid := False\<rparr>)) (\<lambda>_.
        bnd (releasesleep (SLInode ip)) (\<lambda>_.
        acquire LkItable))))))))) (\<lambda>_.
     bnd (upd_inode ip (\<lambda>x. x\<lparr>i_ref := i_ref x - 1\<rparr>)) (\<lambda>_.
     release LkItable))))"

definition iunlockput :: "nat \<Rightarrow> ('a kfs_scheme, unit) kmon" where
  "iunlockput ip = bnd (iunlock ip) (\<lambda>_. iput ip)"

record stat =
  st_dev :: uint32
  st_ino :: uint32
  st_type :: uint16
  st_nlink :: uint16
  st_size :: uint64

definition stati :: "nat \<Rightarrow> ('a kfs_scheme, stat) kmon" where
  "stati ip = geti ip (\<lambda>x. \<lparr>st_dev = i_dev x, st_ino = i_inum x, st_type = i_type x,
     st_nlink = i_nlink x, st_size = ucast (i_size x)\<rparr>)"

section \<open>Reading and writing files\<close>

datatype rdst = ToUser uint64 | ToKern uint64 | ToLocal

fun rdst_add :: "rdst \<Rightarrow> nat \<Rightarrow> rdst" where
  "rdst_add (ToUser a) n = ToUser (a + of_nat n)"
| "rdst_add (ToKern a) n = ToKern (a + of_nat n)"
| "rdst_add ToLocal n = ToLocal"

fun copy_to :: "rdst \<Rightarrow> uint8 list \<Rightarrow> ('a kproc_scheme, int) kmon" where
  "copy_to (ToUser a) bs = either_copyout True a bs"
| "copy_to (ToKern a) bs = either_copyout False a bs"
| "copy_to ToLocal bs = ret 0"

datatype wsrc = FromUser uint64 | FromLocal "uint8 list"

fun wsrc_add :: "wsrc \<Rightarrow> nat \<Rightarrow> wsrc" where
  "wsrc_add (FromUser a) n = FromUser (a + of_nat n)"
| "wsrc_add (FromLocal bs) n = FromLocal (drop n bs)"

fun copy_from :: "wsrc \<Rightarrow> nat \<Rightarrow> ('a kproc_scheme, uint8 list \<times> bool) kmon" where
  "copy_from (FromUser a) m = either_copyin True a m"
| "copy_from (FromLocal bs) m = ret (take m bs, True)"

function readi_loop :: "nat \<Rightarrow> rdst \<Rightarrow> nat \<Rightarrow> nat \<Rightarrow> ('a kfs_scheme, uint8 list option) kmon" where
  \<comment> \<open>\<open>k\<close> bytes are left to read from offset \<open>off\<close>; \<open>None\<close> stands for \<^verbatim>\<open>tot = -1\<close>\<close>
  "readi_loop ip dst off k =
     (if k = 0 then ret (Some [])
      else let m = min k (BSIZE - off mod BSIZE) in
        bnd (bmap ip (off div BSIZE)) (\<lambda>a.
        bnd (geti ip i_dev) (\<lambda>dev.
        bnd (bread dev a) (\<lambda>bp.
        bnd (getb bp (\<lambda>b. take m (drop (off mod BSIZE) (b_data b)))) (\<lambda>bs.
        bnd (copy_to dst bs) (\<lambda>r.
        bnd (brelse bp) (\<lambda>_.
        if r = -1 then ret None
        else
          bnd (readi_loop ip (rdst_add dst m) (off + m) (k - m)) (\<lambda>cs.
          ret (map_option (\<lambda>cs. bs @ cs) cs)))))))))"
  by auto

termination
  by (relation "measure (\<lambda>(ip, dst, off, k). k)") (auto simp: BSIZE_def)

declare readi_loop.simps [simp del]

definition readi :: "nat \<Rightarrow> rdst \<Rightarrow> uint32 \<Rightarrow> uint32 \<Rightarrow> ('a kfs_scheme, int \<times> uint8 list) kmon" where
  \<comment> \<open>the result and, for a local destination, the bytes read\<close>
  "readi ip dst off n =
     bnd (geti ip i_size) (\<lambda>size.
     if size < off \<or> off + n < off then ret (0, [])
     else
       let n' = (if size < off + n then size - off else n) in
       bnd (readi_loop ip dst (unat off) (unat n')) (\<lambda>r.
       case r of None \<Rightarrow> ret (-1, []) | Some bs \<Rightarrow> ret (int (length bs), bs)))"

function writei_loop :: "nat \<Rightarrow> wsrc \<Rightarrow> nat \<Rightarrow> nat \<Rightarrow> ('a kfs_scheme, nat) kmon" where
  \<comment> \<open>the number of bytes written\<close>
  "writei_loop ip src off k =
     (if k = 0 then ret 0
      else let m = min k (BSIZE - off mod BSIZE) in
        bnd (bmap ip (off div BSIZE)) (\<lambda>a.
        bnd (geti ip i_dev) (\<lambda>dev.
        bnd (bread dev a) (\<lambda>bp.
        bnd (copy_from src m) (\<lambda>(bs, ok).
        bnd (upd_data bp (\<lambda>d. put_bytes d (off mod BSIZE) bs)) (\<lambda>_.
        if \<not> ok then bnd (brelse bp) (\<lambda>_. ret 0)
        else
          bnd (log_write bp) (\<lambda>_.
          bnd (brelse bp) (\<lambda>_.
          bnd (writei_loop ip (wsrc_add src m) (off + m) (k - m)) (\<lambda>tot.
          ret (m + tot))))))))))"
  by auto

termination
  by (relation "measure (\<lambda>(ip, src, off, k). k)") (auto simp: BSIZE_def)

declare writei_loop.simps [simp del]

definition writei :: "nat \<Rightarrow> wsrc \<Rightarrow> uint32 \<Rightarrow> uint32 \<Rightarrow> ('a kfs_scheme, int) kmon" where
  "writei ip src off n =
     bnd (geti ip i_size) (\<lambda>size.
     if size < off \<or> off + n < off then ret (-1)
     else if of_nat (MAXFILE * BSIZE) < off + n then ret (-1)
     else
       bnd (writei_loop ip src (unat off) (unat n)) (\<lambda>tot.
       bnd (upd_inode ip (\<lambda>x. if i_size x < off + of_nat tot
          then x\<lparr>i_size := off + of_nat tot\<rparr> else x)) (\<lambda>_.
       bnd (iupdate ip) (\<lambda>_.
       ret (int tot)))))"

section \<open>Directories\<close>

fun strncmp_b :: "nat \<Rightarrow> uint8 list \<Rightarrow> uint8 list \<Rightarrow> int" where
  \<comment> \<open>\<^verbatim>\<open>strncmp\<close> of \<^verbatim>\<open>kernel/string.c\<close> on strings whose end is a NUL\<close>
  "strncmp_b 0 p q = 0"
| "strncmp_b (Suc n) p q =
     (let a = (case p of [] \<Rightarrow> 0 | c # _ \<Rightarrow> c); b = (case q of [] \<Rightarrow> 0 | c # _ \<Rightarrow> c) in
      if a \<noteq> 0 \<and> a = b then strncmp_b n (tl p) (tl q) else uint a - uint b)"

definition namecmp :: "uint8 list \<Rightarrow> uint8 list \<Rightarrow> int" where
  "namecmp s t = strncmp_b DIRSIZ s t"

definition strncpy_b :: "nat \<Rightarrow> uint8 list \<Rightarrow> uint8 list" where
  \<comment> \<open>\<^verbatim>\<open>strncpy\<close> of \<^verbatim>\<open>kernel/string.c\<close> into a buffer of \<open>n\<close> bytes\<close>
  "strncpy_b n t = (let p = takeWhile (\<lambda>c. c \<noteq> 0) (take n t) in p @ replicate (n - length p) 0)"

definition de_inum :: "uint8 list \<Rightarrow> uint16" where
  \<comment> \<open>a \<^verbatim>\<open>struct dirent\<close> is its 16 bytes\<close>
  "de_inum de = get16 de 0"

definition de_name :: "uint8 list \<Rightarrow> uint8 list" where
  "de_name de = take DIRSIZ (drop 2 de)"

definition mk_dirent :: "uint16 \<Rightarrow> uint8 list \<Rightarrow> uint8 list" where
  "mk_dirent inum name = le_split 2 inum @ strncpy_b DIRSIZ name"

definition dir_offsets :: "nat \<Rightarrow> uint32 \<Rightarrow> nat list" where
  \<comment> \<open>\<^verbatim>\<open>for(off = start; off < dp->size; off += sizeof(de))\<close>\<close>
  "dir_offsets start sz = map (\<lambda>i. start + 16 * i) [0..<(unat sz - start + 15) div 16]"

definition read_dirent :: "nat \<Rightarrow> nat \<Rightarrow> string \<Rightarrow> ('a kfs_scheme, uint8 list) kmon" where
  "read_dirent dp off msg =
     bnd (readi dp ToLocal (of_nat off) 16) (\<lambda>(r, de).
     bnd (assert_or (r = 16) msg) (\<lambda>_. ret de))"

fun dirlookup_loop :: "nat \<Rightarrow> uint8 list \<Rightarrow> nat list \<Rightarrow> ('a kfs_scheme, (nat \<times> nat) option) kmon" where
  "dirlookup_loop dp name [] = ret None"
| "dirlookup_loop dp name (off # offs) =
     bnd (read_dirent dp off ''dirlookup read'') (\<lambda>de.
     if de_inum de = 0 then dirlookup_loop dp name offs
     else if namecmp name (de_name de) = 0
     then
       bnd (geti dp i_dev) (\<lambda>dev.
       bnd (iget dev (ucast (de_inum de))) (\<lambda>ip. ret (Some (ip, off))))
     else dirlookup_loop dp name offs)"

definition dirlookup :: "nat \<Rightarrow> uint8 list \<Rightarrow> ('a kfs_scheme, (nat \<times> nat) option) kmon" where
  \<comment> \<open>the inode and the offset of the entry\<close>
  "dirlookup dp name =
     bnd (geti dp id) (\<lambda>x.
     bnd (assert_or (i_type x = T_DIR) ''dirlookup not DIR'') (\<lambda>_.
     dirlookup_loop dp name (dir_offsets 0 (i_size x))))"

fun dirlink_loop :: "nat \<Rightarrow> nat list \<Rightarrow> nat \<Rightarrow> ('a kfs_scheme, nat) kmon" where
  \<comment> \<open>the offset of the first empty entry, or the offset after the last\<close>
  "dirlink_loop dp [] end = ret end"
| "dirlink_loop dp (off # offs) end =
     bnd (read_dirent dp off ''dirlink read'') (\<lambda>de.
     if de_inum de = 0 then ret off else dirlink_loop dp offs (off + 16))"

definition dirlink :: "nat \<Rightarrow> uint8 list \<Rightarrow> uint32 \<Rightarrow> ('a kfs_scheme, int) kmon" where
  "dirlink dp name inum =
     bnd (dirlookup dp name) (\<lambda>r.
     case r of Some (ip, off) \<Rightarrow> bnd (iput ip) (\<lambda>_. ret (-1))
     | None \<Rightarrow>
         bnd (geti dp i_size) (\<lambda>size.
         bnd (dirlink_loop dp (dir_offsets 0 size) 0) (\<lambda>off.
         bnd (writei dp (FromLocal (mk_dirent (ucast inum) name)) (of_nat off) 16) (\<lambda>r.
         bnd (assert_or (r = 16) ''dirlink'') (\<lambda>_. ret 0)))))"

section \<open>Paths\<close>

definition SLASH :: uint8 where "SLASH = 47"

definition skipelem :: "uint8 list \<Rightarrow> (uint8 list \<times> uint8 list) option" where
  \<comment> \<open>the rest of the path, and the name\<close>
  "skipelem path =
     (let p = dropWhile (\<lambda>c. c = SLASH) path in
      if p = [] then None
      else let s = takeWhile (\<lambda>c. c \<noteq> SLASH) p in
        Some (dropWhile (\<lambda>c. c = SLASH) (drop (length s) p), take DIRSIZ s))"

lemma skipelem_shorter: "skipelem path = Some (path', name) \<Longrightarrow> length path' < length path"
proof -
  assume a: "skipelem path = Some (path', name)"
  let ?p = "dropWhile (\<lambda>c. c = SLASH) path"
  from a have p: "?p \<noteq> []" and
    e: "path' = dropWhile (\<lambda>c. c = SLASH) (drop (length (takeWhile (\<lambda>c. c \<noteq> SLASH) ?p)) ?p)"
    by (auto simp: skipelem_def Let_def split: if_splits)
  have "hd ?p \<noteq> SLASH" using p by (rule hd_dropWhile)
  then have "takeWhile (\<lambda>c. c \<noteq> SLASH) ?p \<noteq> []" using p by (cases ?p) auto
  then have "length (drop (length (takeWhile (\<lambda>c. c \<noteq> SLASH) ?p)) ?p) < length ?p" using p by simp
  moreover have "length path' \<le> length (drop (length (takeWhile (\<lambda>c. c \<noteq> SLASH) ?p)) ?p)"
    unfolding e by (rule length_dropWhile_le)
  moreover have "length ?p \<le> length path" by (rule length_dropWhile_le)
  ultimately show ?thesis by linarith
qed

function namex_loop :: "nat \<Rightarrow> uint8 list \<Rightarrow> bool \<Rightarrow> ('a kfs_scheme, (nat \<times> uint8 list) option) kmon" where
  "namex_loop ip path par =
     (case skipelem path of
        None \<Rightarrow> if par then bnd (iput ip) (\<lambda>_. ret None) else ret (Some (ip, []))
      | Some (path', name) \<Rightarrow>
          bnd (ilock ip) (\<lambda>_.
          bnd (geti ip i_type) (\<lambda>t.
          if t \<noteq> T_DIR then bnd (iunlockput ip) (\<lambda>_. ret None)
          else if par \<and> path' = [] then bnd (iunlock ip) (\<lambda>_. ret (Some (ip, name)))
          else
            bnd (dirlookup ip name) (\<lambda>r.
            bnd (iunlockput ip) (\<lambda>_.
            case r of None \<Rightarrow> ret None | Some (nxt, off) \<Rightarrow> namex_loop nxt path' par)))))"
  by auto

termination
  by (relation "measure (\<lambda>(ip, path, par). length path)") (auto simp: skipelem_shorter)

declare namex_loop.simps [simp del]

definition namex :: "uint8 list \<Rightarrow> bool \<Rightarrow> ('a kfs_scheme, (nat \<times> uint8 list) option) kmon" where
  "namex path par =
     bnd (if path \<noteq> [] \<and> hd path = SLASH then iget ROOTDEV ROOTINO
          else
            bnd curproc (\<lambda>p.
            bnd (getp p cwd) (\<lambda>c.
            bnd (deref c) idup))) (\<lambda>ip.
     namex_loop ip path par)"

definition namei :: "uint8 list \<Rightarrow> ('a kfs_scheme, nat option) kmon" where
  "namei path = bnd (namex path False) (\<lambda>r. ret (map_option fst r))"

definition nameiparent :: "uint8 list \<Rightarrow> ('a kfs_scheme, (nat \<times> uint8 list) option) kmon" where
  "nameiparent path = namex path True"

end
