(* ===== verification/File.thy ===== *)
theory File
  imports Fs
begin

text \<open>
  \<^verbatim>\<open>kernel/file.c\<close>, \<^verbatim>\<open>kernel/file.h\<close> and \<^verbatim>\<open>kernel/pipe.c\<close>: the table of open files, and pipes.
  A \<^verbatim>\<open>struct file*\<close> is an index of the table; a pipe is named by the address of the page
  that \<^verbatim>\<open>kalloc\<close> gave it, and its fields are kept beside the memory.
\<close>

section \<open>State\<close>

datatype fdtype = FD_NONE | FD_PIPE | FD_INODE | FD_DEVICE

record ofile_t =
  f_type :: fdtype
  f_ref :: int
  f_readable :: bool
  f_writable :: bool
  f_pipe :: uint64
  f_ip :: nat
  f_off :: uint32
  f_major :: uint16

definition PIPESIZE :: nat where "PIPESIZE = 512"

record pipe =
  pi_data :: "uint8 list"
  pi_nread :: uint32
  pi_nwrite :: uint32
  pi_readopen :: bool
  pi_writeopen :: bool

record kfile = kfs +
  files :: "nat \<Rightarrow> ofile_t"
  pipes :: "uint64 \<Rightarrow> pipe"
  stat_pad :: "uint8 list"   \<comment> \<open>what the padding bytes of a \<^verbatim>\<open>struct stat\<close> on the stack hold\<close>

definition upd_file :: "nat \<Rightarrow> (ofile_t \<Rightarrow> ofile_t) \<Rightarrow> ('a kfile_scheme, unit) kmon" where
  "upd_file f g = modify (\<lambda>s. s\<lparr>files := (files s)(f := g (files s f))\<rparr>)"

definition getf :: "nat \<Rightarrow> (ofile_t \<Rightarrow> 'b) \<Rightarrow> ('a kfile_scheme, 'b) kmon" where
  "getf f g = gets (\<lambda>s. g (files s f))"

definition upd_pipe :: "uint64 \<Rightarrow> (pipe \<Rightarrow> pipe) \<Rightarrow> ('a kfile_scheme, unit) kmon" where
  "upd_pipe pi g = modify (\<lambda>s. s\<lparr>pipes := (pipes s)(pi := g (pipes s pi))\<rparr>)"

definition getpi :: "uint64 \<Rightarrow> (pipe \<Rightarrow> 'b) \<Rightarrow> ('a kfile_scheme, 'b) kmon" where
  "getpi pi g = gets (\<lambda>s. g (pipes s pi))"

section \<open>The file table\<close>

definition fileinit :: "('a kfile_scheme, unit) kmon" where
  "fileinit = initlock LkFtable ''ftable''"

fun filealloc_loop :: "nat list \<Rightarrow> ('a kfile_scheme, nat option) kmon" where
  "filealloc_loop [] = bnd (release LkFtable) (\<lambda>_. ret None)"
| "filealloc_loop (f # fs) =
     bnd (getf f f_ref) (\<lambda>n.
     if n = 0
     then
       bnd (upd_file f (\<lambda>x. x\<lparr>f_ref := 1\<rparr>)) (\<lambda>_.
       bnd (release LkFtable) (\<lambda>_. ret (Some f)))
     else filealloc_loop fs)"

definition filealloc :: "('a kfile_scheme, nat option) kmon" where
  "filealloc = bnd (acquire LkFtable) (\<lambda>_. filealloc_loop [0..<NFILE])"

definition filedup :: "nat \<Rightarrow> ('a kfile_scheme, nat) kmon" where
  "filedup f =
     bnd (acquire LkFtable) (\<lambda>_.
     bnd (getf f f_ref) (\<lambda>n.
     bnd (assert_or (\<not> n < 1) ''filedup'') (\<lambda>_.
     bnd (upd_file f (\<lambda>x. x\<lparr>f_ref := f_ref x + 1\<rparr>)) (\<lambda>_.
     bnd (release LkFtable) (\<lambda>_. ret f)))))"

definition pipeclose :: "uint64 \<Rightarrow> bool \<Rightarrow> ('a kfile_scheme, unit) kmon" where
  "pipeclose pi writable =
     bnd (acquire (LkPipe pi)) (\<lambda>_.
     bnd (if writable
          then bnd (upd_pipe pi (\<lambda>p. p\<lparr>pi_writeopen := False\<rparr>)) (\<lambda>_. wakeup (Some (ChPipeRead pi)))
          else bnd (upd_pipe pi (\<lambda>p. p\<lparr>pi_readopen := False\<rparr>)) (\<lambda>_. wakeup (Some (ChPipeWrite pi)))) (\<lambda>_.
     bnd (getpi pi id) (\<lambda>p.
     if \<not> pi_readopen p \<and> \<not> pi_writeopen p
     then bnd (release (LkPipe pi)) (\<lambda>_. kfree pi)
     else release (LkPipe pi))))"

definition fileclose :: "nat \<Rightarrow> ('a kfile_scheme, unit) kmon" where
  "fileclose f =
     bnd (acquire LkFtable) (\<lambda>_.
     bnd (getf f f_ref) (\<lambda>n.
     bnd (assert_or (\<not> n < 1) ''fileclose'') (\<lambda>_.
     bnd (upd_file f (\<lambda>x. x\<lparr>f_ref := f_ref x - 1\<rparr>)) (\<lambda>_.
     bnd (getf f id) (\<lambda>ff.
     if 0 < f_ref ff then release LkFtable
     else
       bnd (upd_file f (\<lambda>x. x\<lparr>f_ref := 0, f_type := FD_NONE\<rparr>)) (\<lambda>_.
       bnd (release LkFtable) (\<lambda>_.
       if f_type ff = FD_PIPE then pipeclose (f_pipe ff) (f_writable ff)
       else if f_type ff = FD_INODE \<or> f_type ff = FD_DEVICE
       then bnd begin_op (\<lambda>_. bnd (iput (f_ip ff)) (\<lambda>_. end_op))
       else ret ())))))))"

definition stat_bytes :: "stat \<Rightarrow> uint8 list \<Rightarrow> uint8 list" where
  "stat_bytes st pad = le_split 4 (st_dev st) @ le_split 4 (st_ino st) @ le_split 2 (st_type st) @
     le_split 2 (st_nlink st) @ take 4 pad @ le_split 8 (st_size st)"

definition filestat :: "nat \<Rightarrow> uint64 \<Rightarrow> ('a kfile_scheme, int) kmon" where
  "filestat f addr =
     bnd curproc (\<lambda>p.
     bnd (getf f id) (\<lambda>x.
     if f_type x = FD_INODE \<or> f_type x = FD_DEVICE
     then
       bnd (ilock (f_ip x)) (\<lambda>_.
       bnd (stati (f_ip x)) (\<lambda>st.
       bnd (iunlock (f_ip x)) (\<lambda>_.
       bnd (getp p pagetable) (\<lambda>pt.
       bnd (gets stat_pad) (\<lambda>pad.
       bnd (copyout_b pt addr (stat_bytes st pad)) (\<lambda>r.
       ret (if r < 0 then -1 else 0)))))))
     else ret (-1)))"

section \<open>Pipes\<close>

definition pipealloc_bad :: "uint64 \<Rightarrow> nat option \<Rightarrow> nat option \<Rightarrow> ('a kfile_scheme, 'b option) kmon" where
  \<comment> \<open>the code at \<^verbatim>\<open>bad:\<close>\<close>
  "pipealloc_bad pi f0 f1 =
     bnd (whenk (pi \<noteq> 0) (kfree pi)) (\<lambda>_.
     bnd (case f0 of None \<Rightarrow> ret () | Some f \<Rightarrow> fileclose f) (\<lambda>_.
     bnd (case f1 of None \<Rightarrow> ret () | Some f \<Rightarrow> fileclose f) (\<lambda>_.
     ret None)))"

definition pipealloc :: "('a kfile_scheme, (nat \<times> nat) option) kmon" where
  "pipealloc =
     bnd filealloc (\<lambda>f0. case f0 of None \<Rightarrow> pipealloc_bad 0 None None | Some a \<Rightarrow>
     bnd filealloc (\<lambda>f1. case f1 of None \<Rightarrow> pipealloc_bad 0 (Some a) None | Some b \<Rightarrow>
     bnd kalloc (\<lambda>pi.
     if pi = 0 then pipealloc_bad 0 (Some a) (Some b)
     else
       bnd (upd_pipe pi (\<lambda>p. p\<lparr>pi_readopen := True, pi_writeopen := True, pi_nwrite := 0,
         pi_nread := 0\<rparr>)) (\<lambda>_.
       bnd (initlock (LkPipe pi) ''pipe'') (\<lambda>_.
       bnd (upd_file a (\<lambda>x. x\<lparr>f_type := FD_PIPE, f_readable := True, f_writable := False,
         f_pipe := pi\<rparr>)) (\<lambda>_.
       bnd (upd_file b (\<lambda>x. x\<lparr>f_type := FD_PIPE, f_readable := False, f_writable := True,
         f_pipe := pi\<rparr>)) (\<lambda>_.
       ret (Some (a, b)))))))))"

fun pipewrite_loop :: "nat \<Rightarrow> uint64 \<Rightarrow> uint64 \<Rightarrow> nat \<Rightarrow> nat \<Rightarrow> ('a kfile_scheme, int) kmon" where
  \<comment> \<open>process \<open>pr\<close> has written \<open>i\<close> bytes, \<open>k\<close> are left; a process that slept resumes with the
      same arguments\<close>
  "pipewrite_loop pr pi addr 0 i =
     bnd (wakeup (Some (ChPipeRead pi))) (\<lambda>_.
     bnd (release (LkPipe pi)) (\<lambda>_. ret (int i)))"
| "pipewrite_loop pr pi addr (Suc k) i =
     bnd (getpi pi id) (\<lambda>p.
     bnd (getp pr killed) (\<lambda>dead.
     if \<not> pi_readopen p \<or> dead then bnd (release (LkPipe pi)) (\<lambda>_. ret (-1))
     else if pi_nwrite p = pi_nread p + of_nat PIPESIZE
     then bnd (wakeup (Some (ChPipeRead pi))) (\<lambda>_. sleep (ChPipeWrite pi) (LkPipe pi))
     else
       bnd (getp pr pagetable) (\<lambda>pt.
       bnd (copyin_b pt (addr + of_nat i) 1) (\<lambda>(bs, ok).
       if \<not> ok
       then
         bnd (wakeup (Some (ChPipeRead pi))) (\<lambda>_.
         bnd (release (LkPipe pi)) (\<lambda>_. ret (int i)))
       else
         bnd (upd_pipe pi (\<lambda>p. p\<lparr>
            pi_data := (pi_data p)[unat (pi_nwrite p) mod PIPESIZE := hd bs],
            pi_nwrite := pi_nwrite p + 1\<rparr>)) (\<lambda>_.
         pipewrite_loop pr pi addr k (Suc i))))))"

definition pipewrite :: "uint64 \<Rightarrow> uint64 \<Rightarrow> int32 \<Rightarrow> ('a kfile_scheme, int) kmon" where
  "pipewrite pi addr n =
     bnd curproc (\<lambda>pr.
     bnd (acquire (LkPipe pi)) (\<lambda>_.
     pipewrite_loop pr pi addr (nat (sint n)) 0))"

fun piperead_copy :: "nat \<Rightarrow> uint64 \<Rightarrow> uint64 \<Rightarrow> nat \<Rightarrow> nat \<Rightarrow> ('a kfile_scheme, nat) kmon" where
  \<comment> \<open>the loop that copies\<close>
  "piperead_copy pr pi addr 0 i = ret i"
| "piperead_copy pr pi addr (Suc k) i =
     bnd (getpi pi id) (\<lambda>p.
     if pi_nread p = pi_nwrite p then ret i
     else
       bnd (upd_pipe pi (\<lambda>p. p\<lparr>pi_nread := pi_nread p + 1\<rparr>)) (\<lambda>_.
       bnd (getp pr pagetable) (\<lambda>pt.
       bnd (copyout_b pt (addr + of_nat i) [pi_data p ! (unat (pi_nread p) mod PIPESIZE)]) (\<lambda>r.
       if r = -1 then ret i else piperead_copy pr pi addr k (Suc i)))))"

definition piperead_pass :: "nat \<Rightarrow> uint64 \<Rightarrow> uint64 \<Rightarrow> int32 \<Rightarrow> ('a kfile_scheme, int) kmon" where
  \<comment> \<open>from the test of the waiting loop on; a process that slept resumes here\<close>
  "piperead_pass pr pi addr n =
     bnd (getpi pi id) (\<lambda>p.
     if pi_nread p = pi_nwrite p \<and> pi_writeopen p
     then
       bnd (getp pr killed) (\<lambda>dead.
       if dead then bnd (release (LkPipe pi)) (\<lambda>_. ret (-1))
       else sleep (ChPipeRead pi) (LkPipe pi))
     else
       bnd (piperead_copy pr pi addr (nat (sint n)) 0) (\<lambda>i.
       bnd (wakeup (Some (ChPipeWrite pi))) (\<lambda>_.
       bnd (release (LkPipe pi)) (\<lambda>_. ret (int i)))))"

definition piperead :: "uint64 \<Rightarrow> uint64 \<Rightarrow> int32 \<Rightarrow> ('a kfile_scheme, int) kmon" where
  "piperead pi addr n =
     bnd curproc (\<lambda>pr.
     bnd (acquire (LkPipe pi)) (\<lambda>_.
     piperead_pass pr pi addr n))"

section \<open>Reading and writing open files\<close>

definition bad_major :: "uint16 \<Rightarrow> bool" where
  "bad_major m \<longleftrightarrow> sint m < 0 \<or> int NDEV \<le> sint m"

fun call_dev :: "devfn \<Rightarrow> uint64 \<Rightarrow> int32 \<Rightarrow> ('a kdev_scheme, int) kmon" where
  \<comment> \<open>the call through \<^verbatim>\<open>devsw\<close>\<close>
  "call_dev Consoleread addr n = consoleread True addr n"
| "call_dev Consolewrite addr n = consolewrite True addr n"

definition fileread :: "nat \<Rightarrow> uint64 \<Rightarrow> int32 \<Rightarrow> ('a kfile_scheme, int) kmon" where
  "fileread f addr n =
     bnd (getf f id) (\<lambda>x.
     if \<not> f_readable x then ret (-1)
     else case f_type x of
       FD_PIPE \<Rightarrow> piperead (f_pipe x) addr n
     | FD_DEVICE \<Rightarrow>
         if bad_major (f_major x) then ret (-1)
         else
           bnd (gets (\<lambda>s. devsw_read s (unat (f_major x)))) (\<lambda>d.
           case d of None \<Rightarrow> ret (-1) | Some h \<Rightarrow> call_dev h addr n)
     | FD_INODE \<Rightarrow>
         bnd (ilock (f_ip x)) (\<lambda>_.
         bnd (getf f f_off) (\<lambda>off.
         bnd (readi (f_ip x) (ToUser addr) off n) (\<lambda>(r, _).
         bnd (whenk (0 < r) (upd_file f (\<lambda>x. x\<lparr>f_off := f_off x + of_int r\<rparr>))) (\<lambda>_.
         bnd (iunlock (f_ip x)) (\<lambda>_. ret r)))))
     | FD_NONE \<Rightarrow> panic ''fileread'')"

definition FILEWRITE_MAX :: nat where
  \<comment> \<open>\<^verbatim>\<open>int max = ((MAXOPBLOCKS-1-1-2) / 2) * BSIZE\<close>\<close>
  "FILEWRITE_MAX = (MAXOPBLOCKS - 1 - 1 - 2) div 2 * BSIZE"

function filewrite_loop :: "nat \<Rightarrow> uint64 \<Rightarrow> nat \<Rightarrow> nat \<Rightarrow> ('a kfile_scheme, nat) kmon" where
  \<comment> \<open>\<open>i\<close> bytes are written, \<open>k\<close> are left; the result is \<^verbatim>\<open>i\<close> after the loop\<close>
  "filewrite_loop f addr i k =
     (if k = 0 then ret i
      else let n1 = min k FILEWRITE_MAX in
        bnd begin_op (\<lambda>_.
        bnd (getf f f_ip) (\<lambda>ip.
        bnd (ilock ip) (\<lambda>_.
        bnd (getf f f_off) (\<lambda>off.
        bnd (writei ip (FromUser (addr + of_nat i)) off (of_nat n1)) (\<lambda>r.
        bnd (whenk (0 < r) (upd_file f (\<lambda>x. x\<lparr>f_off := f_off x + of_int r\<rparr>))) (\<lambda>_.
        bnd (iunlock ip) (\<lambda>_.
        bnd end_op (\<lambda>_.
        if r \<noteq> int n1 then ret i
        else filewrite_loop f addr (i + n1) (k - n1))))))))))"
  by auto

termination
  by (relation "measure (\<lambda>(f, addr, i, k). k)")
     (auto simp: FILEWRITE_MAX_def MAXOPBLOCKS_def BSIZE_def)

declare filewrite_loop.simps [simp del]

definition filewrite :: "nat \<Rightarrow> uint64 \<Rightarrow> int32 \<Rightarrow> ('a kfile_scheme, int) kmon" where
  "filewrite f addr n =
     bnd (getf f id) (\<lambda>x.
     if \<not> f_writable x then ret (-1)
     else case f_type x of
       FD_PIPE \<Rightarrow> pipewrite (f_pipe x) addr n
     | FD_DEVICE \<Rightarrow>
         if bad_major (f_major x) then ret (-1)
         else
           bnd (gets (\<lambda>s. devsw_write s (unat (f_major x)))) (\<lambda>d.
           case d of None \<Rightarrow> ret (-1) | Some h \<Rightarrow> call_dev h addr n)
     | FD_INODE \<Rightarrow>
         bnd (filewrite_loop f addr 0 (nat (sint n))) (\<lambda>i.
         ret (if int i = sint n then sint n else -1))
     | FD_NONE \<Rightarrow> panic ''filewrite'')"

end
