(* ===== verification/Process.thy ===== *)
theory Process
  imports File
begin

text \<open>
  The part of \<^verbatim>\<open>kernel/proc.c\<close> that uses the file system (\<^verbatim>\<open>userinit\<close>, \<^verbatim>\<open>fork\<close>, \<^verbatim>\<open>exit\<close>), and
  \<^verbatim>\<open>kernel/exec.c\<close> with \<^verbatim>\<open>kernel/elf.h\<close>.
\<close>

section \<open>proc.c\<close>

definition safestrcpy_b :: "uint8 list \<Rightarrow> nat \<Rightarrow> uint8 list \<Rightarrow> uint8 list" where
  \<comment> \<open>\<^verbatim>\<open>safestrcpy(s, t, n)\<close> of \<^verbatim>\<open>kernel/string.c\<close>, from the old contents of \<^verbatim>\<open>s\<close>\<close>
  "safestrcpy_b old n t = (let p = takeWhile (\<lambda>c. c \<noteq> 0) (take (n - 1) t) in
     p @ [0] @ drop (length p + 1) old)"

definition initcode :: "uint8 list" where
  "initcode = [
     0x17, 0x05, 0x00, 0x00, 0x13, 0x05, 0x45, 0x02,
     0x97, 0x05, 0x00, 0x00, 0x93, 0x85, 0x35, 0x02,
     0x93, 0x08, 0x70, 0x00, 0x73, 0x00, 0x00, 0x00,
     0x93, 0x08, 0x20, 0x00, 0x73, 0x00, 0x00, 0x00,
     0xef, 0xf0, 0x9f, 0xff, 0x2f, 0x69, 0x6e, 0x69,
     0x74, 0x00, 0x00, 0x24, 0x00, 0x00, 0x00, 0x00,
     0x00, 0x00, 0x00, 0x00]"

definition bytes_of :: "string \<Rightarrow> uint8 list" where
  "bytes_of t = map of_char t"

definition userinit :: "('a kfile_scheme, unit) kmon" where
  \<comment> \<open>the array \<^verbatim>\<open>initcode\<close> is in kernel memory\<close>
  "userinit =
     bnd allocproc (\<lambda>r.
     bnd (modify (\<lambda>s. s\<lparr>initproc := r\<rparr>)) (\<lambda>_.
     bnd (deref r) (\<lambda>p.
     bnd (getp p pagetable) (\<lambda>pt.
     bnd (gets (\<lambda>s. initcode_addr (ksym s))) (\<lambda>src.
     bnd (uvminit pt src (of_nat (length initcode))) (\<lambda>_.
     bnd (set_proc p (\<lambda>q. q\<lparr>psz := PGSIZE\<rparr>)) (\<lambda>_.
     bnd (getp p trapframe) (\<lambda>tf.
     bnd (tf_set tf Epc 0) (\<lambda>_.
     bnd (tf_set tf Sp PGSIZE) (\<lambda>_.
     bnd (set_proc p (\<lambda>q. q\<lparr>pname := safestrcpy_b (pname q) 16 (bytes_of ''initcode'')\<rparr>)) (\<lambda>_.
     bnd (namei [SLASH]) (\<lambda>ip.
     bnd (set_proc p (\<lambda>q. q\<lparr>cwd := ip\<rparr>)) (\<lambda>_.
     bnd (set_proc p (\<lambda>q. q\<lparr>pstate := RUNNABLE\<rparr>)) (\<lambda>_.
     release (LkProc p)))))))))))))))"

definition fork :: "('a kfile_scheme, int) kmon" where
  "fork =
     bnd curproc (\<lambda>p.
     bnd allocproc (\<lambda>r. case r of None \<Rightarrow> ret (-1) | Some np \<Rightarrow>
     bnd (getp p id) (\<lambda>pp.
     bnd (getp np pagetable) (\<lambda>npt.
     bnd (uvmcopy (pagetable pp) npt (psz pp)) (\<lambda>r.
     if r < 0
     then bnd (freeproc np) (\<lambda>_. bnd (release (LkProc np)) (\<lambda>_. ret (-1)))
     else
       bnd (set_proc np (\<lambda>q. q\<lparr>psz := psz pp\<rparr>)) (\<lambda>_.
       bnd (getp np trapframe) (\<lambda>ntf.
       bnd (kmemmove ntf (trapframe pp) 288) (\<lambda>_.
       bnd (tf_set ntf A0 0) (\<lambda>_.
       bnd (foreach [0..<NOFILE] (\<lambda>i.
         bnd (getp p (\<lambda>q. ofile q ! i)) (\<lambda>f.
         case f of None \<Rightarrow> ret ()
         | Some f \<Rightarrow> bnd (filedup f) (\<lambda>g. set_proc np (\<lambda>q. q\<lparr>ofile := (ofile q)[i := Some g]\<rparr>))))) (\<lambda>_.
       bnd (getp p cwd) (\<lambda>c.
       bnd (deref c) (\<lambda>ip.
       bnd (idup ip) (\<lambda>ip.
       bnd (set_proc np (\<lambda>q. q\<lparr>cwd := Some ip\<rparr>)) (\<lambda>_.
       bnd (set_proc np (\<lambda>q. q\<lparr>pname := safestrcpy_b (pname q) 16 (pname pp)\<rparr>)) (\<lambda>_.
       bnd (getp np pid) (\<lambda>n.
       bnd (release (LkProc np)) (\<lambda>_.
       bnd (acquire LkWait) (\<lambda>_.
       bnd (set_proc np (\<lambda>q. q\<lparr>parent := Some p\<rparr>)) (\<lambda>_.
       bnd (release LkWait) (\<lambda>_.
       bnd (acquire (LkProc np)) (\<lambda>_.
       bnd (set_proc np (\<lambda>q. q\<lparr>pstate := RUNNABLE\<rparr>)) (\<lambda>_.
       bnd (release (LkProc np)) (\<lambda>_.
       ret (sint n))))))))))))))))))))))))"

definition close_all :: "nat \<Rightarrow> ('a kfile_scheme, unit) kmon" where
  \<comment> \<open>the loop of \<^verbatim>\<open>exit\<close> over the open files\<close>
  "close_all p = foreach [0..<NOFILE] (\<lambda>fd.
     bnd (getp p (\<lambda>q. ofile q ! fd)) (\<lambda>f.
     case f of None \<Rightarrow> ret ()
     | Some f \<Rightarrow> bnd (fileclose f) (\<lambda>_. set_proc p (\<lambda>q. q\<lparr>ofile := (ofile q)[fd := None]\<rparr>))))"

definition exit :: "int32 \<Rightarrow> ('a kfile_scheme, 'b) kmon" where
  \<comment> \<open>a zombie is never scheduled again, so that \<^verbatim>\<open>panic("zombie exit")\<close> is not reached\<close>
  "exit status =
     bnd curproc (\<lambda>p.
     bnd (gets initproc) (\<lambda>init.
     bnd (assert_or (Some p \<noteq> init) ''init exiting'') (\<lambda>_.
     bnd (close_all p) (\<lambda>_.
     bnd begin_op (\<lambda>_.
     bnd (getp p cwd) (\<lambda>c.
     bnd (deref c) (\<lambda>ip.
     bnd (iput ip) (\<lambda>_.
     bnd end_op (\<lambda>_.
     bnd (set_proc p (\<lambda>q. q\<lparr>cwd := None\<rparr>)) (\<lambda>_.
     bnd (acquire LkWait) (\<lambda>_.
     bnd (reparent p) (\<lambda>_.
     bnd (getp p parent) (\<lambda>pp.
     bnd (wakeup (map_option ChProc pp)) (\<lambda>_.
     bnd (acquire (LkProc p)) (\<lambda>_.
     bnd (set_proc p (\<lambda>q. q\<lparr>xstate := status, pstate := ZOMBIE\<rparr>)) (\<lambda>_.
     bnd (release LkWait) (\<lambda>_.
     sched)))))))))))))))))"

section \<open>exec.c\<close>

definition ELF_MAGIC :: uint32 where "ELF_MAGIC = 0x464C457F"
definition ELF_PROG_LOAD :: uint32 where "ELF_PROG_LOAD = 1"

definition get64 :: "uint8 list \<Rightarrow> nat \<Rightarrow> uint64" where
  "get64 d off = le_join (take 8 (drop off d))"

record elfhdr =
  elf_magic :: uint32
  elf_entry :: uint64
  elf_phoff :: uint64
  elf_phnum :: uint16

definition get_elfhdr :: "uint8 list \<Rightarrow> elfhdr" where
  \<comment> \<open>the fields \<^verbatim>\<open>exec\<close> uses, of the 64 bytes of the header\<close>
  "get_elfhdr d = \<lparr>elf_magic = get32 d 0, elf_entry = get64 d 24, elf_phoff = get64 d 32,
     elf_phnum = get16 d 56\<rparr>"

record proghdr =
  ph_type :: uint32
  ph_off :: uint64
  ph_vaddr :: uint64
  ph_filesz :: uint64
  ph_memsz :: uint64

definition get_proghdr :: "uint8 list \<Rightarrow> proghdr" where
  \<comment> \<open>the fields \<^verbatim>\<open>exec\<close> uses, of the 56 bytes of the header\<close>
  "get_proghdr d = \<lparr>ph_type = get32 d 0, ph_off = get64 d 8, ph_vaddr = get64 d 16,
     ph_filesz = get64 d 32, ph_memsz = get64 d 40\<rparr>"

fun loadseg_loop :: "uint64 \<Rightarrow> uint64 \<Rightarrow> nat \<Rightarrow> uint32 \<Rightarrow> uint32 \<Rightarrow> nat list \<Rightarrow> ('a kfs_scheme, int) kmon" where
  "loadseg_loop pt va ip offset sz [] = ret 0"
| "loadseg_loop pt va ip offset sz (i # is) =
     bnd (walkaddr pt (va + of_nat i)) (\<lambda>pa.
     bnd (assert_or (pa \<noteq> 0) ''loadseg: address should exist'') (\<lambda>_.
     let n = min (unat sz - i) 4096 in
     bnd (readi ip (ToKern pa) (offset + of_nat i) (of_nat n)) (\<lambda>(r, _).
     if r \<noteq> int n then ret (-1) else loadseg_loop pt va ip offset sz is)))"

definition loadseg :: "uint64 \<Rightarrow> uint64 \<Rightarrow> nat \<Rightarrow> uint32 \<Rightarrow> uint32 \<Rightarrow> ('a kfs_scheme, int) kmon" where
  "loadseg pt va ip offset sz =
     bnd (assert_or (va mod PGSIZE = 0) ''loadseg: va must be page aligned'') (\<lambda>_.
     loadseg_loop pt va ip offset sz (map (\<lambda>k. 4096 * k) [0..<(unat sz + 4095) div 4096]))"

fun load_segments :: "uint64 \<Rightarrow> nat \<Rightarrow> nat \<Rightarrow> uint32 \<Rightarrow> uint64 \<Rightarrow> ('a kfs_scheme, uint64 \<times> bool) kmon" where
  \<comment> \<open>the loop over the \<open>k\<close> program headers from offset \<open>off\<close> on: \<^verbatim>\<open>sz\<close>, and whether all went
      well\<close>
  "load_segments pt ip 0 off sz = ret (sz, True)"
| "load_segments pt ip (Suc k) off sz =
     bnd (readi ip ToLocal off 56) (\<lambda>(r, bs).
     if r \<noteq> 56 then ret (sz, False)
     else
       let ph = get_proghdr bs in
       if ph_type ph \<noteq> ELF_PROG_LOAD then load_segments pt ip k (off + 56) sz
       else if ph_memsz ph < ph_filesz ph then ret (sz, False)
       else if ph_vaddr ph + ph_memsz ph < ph_vaddr ph then ret (sz, False)
       else
         bnd (uvmalloc pt sz (ph_vaddr ph + ph_memsz ph)) (\<lambda>sz1.
         if sz1 = 0 then ret (sz, False)
         else if ph_vaddr ph mod PGSIZE \<noteq> 0 then ret (sz1, False)
         else
           bnd (loadseg pt (ph_vaddr ph) ip (ucast (ph_off ph)) (ucast (ph_filesz ph))) (\<lambda>r.
           if r < 0 then ret (sz1, False)
           else load_segments pt ip k (off + 56) sz1)))"

fun push_args :: "uint64 \<Rightarrow> uint64 \<Rightarrow> uint64 \<Rightarrow> nat \<Rightarrow> uint64 list \<Rightarrow> uint64 list \<Rightarrow>
    ('a kmem_scheme, (uint64 \<times> uint64 list) option) kmon" where
  \<comment> \<open>push the argument strings: the stack pointer and \<^verbatim>\<open>ustack\<close>, or \<open>None\<close> for \<^verbatim>\<open>goto bad\<close>\<close>
  "push_args pt stackbase sp argc [] ustack = ret (Some (sp, ustack))"
| "push_args pt stackbase sp argc (a # argv) ustack =
     (if MAXARG \<le> argc then ret None
      else
        bnd (gets (\<lambda>s. strlen (mem s) a)) (\<lambda>len. case len of None \<Rightarrow> (\<lambda>s. Spin) | Some n \<Rightarrow>
        let sp1 = sp - of_nat (n + 1); sp2 = sp1 - sp1 mod 16 in
        if sp2 < stackbase then ret None
        else
          bnd (copyout pt sp2 a (of_nat (n + 1))) (\<lambda>r.
          if r < 0 then ret None
          else push_args pt stackbase sp2 (Suc argc) argv (ustack @ [sp2]))))"

definition exec_bad :: "uint64 \<Rightarrow> uint64 \<Rightarrow> nat option \<Rightarrow> ('a kfs_scheme, int) kmon" where
  \<comment> \<open>the code at \<^verbatim>\<open>bad:\<close>\<close>
  "exec_bad pt sz ip =
     bnd (whenk (pt \<noteq> 0) (proc_freepagetable pt sz)) (\<lambda>_.
     bnd (case ip of None \<Rightarrow> ret () | Some ip \<Rightarrow> bnd (iunlockput ip) (\<lambda>_. end_op)) (\<lambda>_.
     ret (-1)))"

definition last_elem :: "uint8 list \<Rightarrow> uint8 list" where
  \<comment> \<open>\<^verbatim>\<open>for(last=s=path; *s; s++) if(*s == '/') last = s+1;\<close>\<close>
  "last_elem path = rev (takeWhile (\<lambda>c. c \<noteq> SLASH) (rev path))"

definition exec_image :: "uint64 \<Rightarrow> uint64 \<Rightarrow> uint64 \<Rightarrow> uint8 list \<Rightarrow> uint64 list \<Rightarrow> ('a kfs_scheme, int) kmon" where
  \<comment> \<open>\<^verbatim>\<open>exec\<close> from the allocation of the stack on\<close>
  "exec_image pt sz0 entry path argv =
     bnd curproc (\<lambda>p.
     bnd (getp p psz) (\<lambda>oldsz.
     let sz = PGROUNDUP sz0 in
     bnd (uvmalloc pt sz (sz + 2 * PGSIZE)) (\<lambda>sz1.
     if sz1 = 0 then exec_bad pt sz None
     else
       bnd (uvmclear pt (sz1 - 2 * PGSIZE)) (\<lambda>_.
       let stackbase = sz1 - PGSIZE in
       bnd (push_args pt stackbase sz1 0 argv []) (\<lambda>r. case r of None \<Rightarrow> exec_bad pt sz1 None
       | Some (sp0, ustack) \<Rightarrow>
           let argc = length ustack; sp1 = sp0 - of_nat ((argc + 1) * 8); sp = sp1 - sp1 mod 16 in
           if sp < stackbase then exec_bad pt sz1 None
           else
             bnd (copyout_b pt sp (concat (map (le_split 8) (ustack @ [0])))) (\<lambda>r.
             if r < 0 then exec_bad pt sz1 None
             else
               bnd (getp p trapframe) (\<lambda>tf.
               bnd (tf_set tf A1 sp) (\<lambda>_.
               bnd (set_proc p (\<lambda>q. q\<lparr>pname := safestrcpy_b (pname q) 16 (last_elem path)\<rparr>)) (\<lambda>_.
               bnd (getp p pagetable) (\<lambda>oldpt.
               bnd (set_proc p (\<lambda>q. q\<lparr>pagetable := pt, psz := sz1\<rparr>)) (\<lambda>_.
               bnd (tf_set tf Epc entry) (\<lambda>_.
               bnd (tf_set tf Sp sp) (\<lambda>_.
               bnd (proc_freepagetable oldpt oldsz) (\<lambda>_.
               ret (int argc)))))))))))))))"

definition exec :: "uint8 list \<Rightarrow> uint64 list \<Rightarrow> ('a kfs_scheme, int) kmon" where
  \<comment> \<open>\<open>argv\<close> are the addresses of the argument strings, without the final null pointer\<close>
  "exec path argv =
     bnd curproc (\<lambda>p.
     bnd begin_op (\<lambda>_.
     bnd (namei path) (\<lambda>r. case r of None \<Rightarrow> bnd end_op (\<lambda>_. ret (-1)) | Some ip \<Rightarrow>
     bnd (ilock ip) (\<lambda>_.
     bnd (readi ip ToLocal 0 64) (\<lambda>(r, bs).
     let elf = get_elfhdr bs in
     if r \<noteq> 64 \<or> elf_magic elf \<noteq> ELF_MAGIC then exec_bad 0 0 (Some ip)
     else
       bnd (proc_pagetable p) (\<lambda>pt.
       if pt = 0 then exec_bad 0 0 (Some ip)
       else
         bnd (load_segments pt ip (unat (elf_phnum elf)) (ucast (elf_phoff elf)) 0) (\<lambda>(sz, ok).
         if \<not> ok then exec_bad pt sz (Some ip)
         else
           bnd (iunlockput ip) (\<lambda>_.
           bnd end_op (\<lambda>_.
           exec_image pt sz (elf_entry elf) path argv)))))))))"

end
