(* ===== verification/Sysfile.thy ===== *)
theory Sysfile
  imports Process
begin

text \<open>
  \<^verbatim>\<open>kernel/syscall.c\<close>, \<^verbatim>\<open>kernel/sysproc.c\<close>, \<^verbatim>\<open>kernel/sysfile.c\<close>, \<^verbatim>\<open>kernel/syscall.h\<close> and
  \<^verbatim>\<open>kernel/fcntl.h\<close>: fetching system-call arguments, every system call, and their dispatch.
  A path argument is its bytes without the NUL.
\<close>

section \<open>Arguments (syscall.c)\<close>

definition fetchaddr :: "uint64 \<Rightarrow> ('a kproc_scheme, uint64 option) kmon" where
  "fetchaddr addr =
     bnd curproc (\<lambda>p.
     bnd (getp p id) (\<lambda>q.
     if psz q \<le> addr \<or> psz q < addr + 8 then ret None
     else bnd (copyin_b (pagetable q) addr 8) (\<lambda>(bs, ok).
       ret (if ok then Some (le_join bs) else None))))"

definition fetchstr :: "uint64 \<Rightarrow> nat \<Rightarrow> ('a kproc_scheme, uint8 list option) kmon" where
  \<comment> \<open>into a buffer on the kernel stack; the result of the C function is the length\<close>
  "fetchstr addr mx =
     bnd curproc (\<lambda>p.
     bnd (getp p pagetable) (\<lambda>pt.
     copyinstr_b pt addr mx))"

definition fetchstr_at :: "uint64 \<Rightarrow> uint64 \<Rightarrow> uint64 \<Rightarrow> ('a kproc_scheme, int) kmon" where
  \<comment> \<open>into a page of memory\<close>
  "fetchstr_at addr buf mx =
     bnd curproc (\<lambda>p.
     bnd (getp p pagetable) (\<lambda>pt.
     bnd (copyinstr pt buf addr mx) (\<lambda>err.
     if err < 0 then ret err
     else bnd (gets (\<lambda>s. strlen (mem s) buf)) (\<lambda>l.
       case l of None \<Rightarrow> (\<lambda>s. Spin) | Some n \<Rightarrow> ret (int n)))))"

definition arg_regs :: "tfreg list" where
  "arg_regs = [A0, A1, A2, A3, A4, A5]"

definition argraw :: "nat \<Rightarrow> ('a kproc_scheme, uint64) kmon" where
  "argraw n =
     bnd curproc (\<lambda>p.
     bnd (getp p trapframe) (\<lambda>tf.
     if n < 6 then tf_get tf (arg_regs ! n) else panic ''argraw''))"

definition argint :: "nat \<Rightarrow> ('a kproc_scheme, int32) kmon" where
  \<comment> \<open>the result is always 0\<close>
  "argint n = bnd (argraw n) (\<lambda>v. ret (ucast v))"

definition argaddr :: "nat \<Rightarrow> ('a kproc_scheme, uint64) kmon" where
  "argaddr n = argraw n"

definition argstr :: "nat \<Rightarrow> nat \<Rightarrow> ('a kproc_scheme, uint8 list option) kmon" where
  "argstr n mx = bnd (argaddr n) (\<lambda>addr. fetchstr addr mx)"

section \<open>File descriptors (sysfile.c)\<close>

definition argfd :: "nat \<Rightarrow> ('a kproc_scheme, (nat \<times> nat) option) kmon" where
  \<comment> \<open>the descriptor and the file\<close>
  "argfd n =
     bnd (argint n) (\<lambda>fd.
     if sint fd < 0 \<or> int NOFILE \<le> sint fd then ret None
     else
       bnd curproc (\<lambda>p.
       bnd (getp p (\<lambda>q. ofile q ! unat fd)) (\<lambda>f.
       ret (map_option (\<lambda>f. (unat fd, f)) f))))"

fun fdalloc_loop :: "nat \<Rightarrow> nat \<Rightarrow> nat list \<Rightarrow> ('a kproc_scheme, nat option) kmon" where
  "fdalloc_loop p f [] = ret None"
| "fdalloc_loop p f (fd # fds) =
     bnd (getp p (\<lambda>q. ofile q ! fd)) (\<lambda>x.
     if x = None
     then bnd (set_proc p (\<lambda>q. q\<lparr>ofile := (ofile q)[fd := Some f]\<rparr>)) (\<lambda>_. ret (Some fd))
     else fdalloc_loop p f fds)"

definition fdalloc :: "nat \<Rightarrow> ('a kproc_scheme, nat option) kmon" where
  "fdalloc f = bnd curproc (\<lambda>p. fdalloc_loop p f [0..<NOFILE])"

section \<open>System calls on files\<close>

definition sys_dup :: "('a kfile_scheme, uint64) kmon" where
  "sys_dup =
     bnd (argfd 0) (\<lambda>r. case r of None \<Rightarrow> ret (-1) | Some (_, f) \<Rightarrow>
     bnd (fdalloc f) (\<lambda>r. case r of None \<Rightarrow> ret (-1) | Some fd \<Rightarrow>
     bnd (filedup f) (\<lambda>_. ret (of_nat fd))))"

definition sys_read :: "('a kfile_scheme, uint64) kmon" where
  "sys_read =
     bnd (argfd 0) (\<lambda>r. case r of None \<Rightarrow> ret (-1) | Some (_, f) \<Rightarrow>
     bnd (argint 2) (\<lambda>n.
     bnd (argaddr 1) (\<lambda>p.
     bnd (fileread f p n) (\<lambda>r. ret (of_int r)))))"

definition sys_write :: "('a kfile_scheme, uint64) kmon" where
  "sys_write =
     bnd (argfd 0) (\<lambda>r. case r of None \<Rightarrow> ret (-1) | Some (_, f) \<Rightarrow>
     bnd (argint 2) (\<lambda>n.
     bnd (argaddr 1) (\<lambda>p.
     bnd (filewrite f p n) (\<lambda>r. ret (of_int r)))))"

definition clear_fd :: "nat \<Rightarrow> ('a kproc_scheme, unit) kmon" where
  \<comment> \<open>\<^verbatim>\<open>myproc()->ofile[fd] = 0\<close>\<close>
  "clear_fd fd = bnd curproc (\<lambda>p. set_proc p (\<lambda>q. q\<lparr>ofile := (ofile q)[fd := None]\<rparr>))"

definition sys_close :: "('a kfile_scheme, uint64) kmon" where
  "sys_close =
     bnd (argfd 0) (\<lambda>r. case r of None \<Rightarrow> ret (-1) | Some (fd, f) \<Rightarrow>
     bnd (clear_fd fd) (\<lambda>_.
     bnd (fileclose f) (\<lambda>_. ret 0)))"

definition sys_fstat :: "('a kfile_scheme, uint64) kmon" where
  "sys_fstat =
     bnd (argfd 0) (\<lambda>r. case r of None \<Rightarrow> ret (-1) | Some (_, f) \<Rightarrow>
     bnd (argaddr 1) (\<lambda>st.
     bnd (filestat f st) (\<lambda>r. ret (of_int r))))"

definition op_fail :: "('a klog_scheme, uint64) kmon" where
  \<comment> \<open>\<^verbatim>\<open>end_op(); return -1;\<close>\<close>
  "op_fail = bnd end_op (\<lambda>_. ret (-1))"

definition link_bad :: "nat \<Rightarrow> ('a kfs_scheme, uint64) kmon" where
  \<comment> \<open>the code of \<^verbatim>\<open>sys_link\<close> at \<^verbatim>\<open>bad:\<close>\<close>
  "link_bad ip =
     bnd (ilock ip) (\<lambda>_.
     bnd (upd_inode ip (\<lambda>x. x\<lparr>i_nlink := i_nlink x - 1\<rparr>)) (\<lambda>_.
     bnd (iupdate ip) (\<lambda>_.
     bnd (iunlockput ip) (\<lambda>_. op_fail))))"

definition sys_link :: "('a kfile_scheme, uint64) kmon" where
  "sys_link =
     bnd (argstr 0 MAXPATH) (\<lambda>r. case r of None \<Rightarrow> ret (-1) | Some old \<Rightarrow>
     bnd (argstr 1 MAXPATH) (\<lambda>r. case r of None \<Rightarrow> ret (-1) | Some new \<Rightarrow>
     bnd begin_op (\<lambda>_.
     bnd (namei old) (\<lambda>r. case r of None \<Rightarrow> op_fail | Some ip \<Rightarrow>
     bnd (ilock ip) (\<lambda>_.
     bnd (geti ip i_type) (\<lambda>t.
     if t = T_DIR then bnd (iunlockput ip) (\<lambda>_. op_fail)
     else
       bnd (upd_inode ip (\<lambda>x. x\<lparr>i_nlink := i_nlink x + 1\<rparr>)) (\<lambda>_.
       bnd (iupdate ip) (\<lambda>_.
       bnd (iunlock ip) (\<lambda>_.
       bnd (nameiparent new) (\<lambda>r. case r of None \<Rightarrow> link_bad ip | Some (dp, name) \<Rightarrow>
       bnd (ilock dp) (\<lambda>_.
       bnd (gets (\<lambda>s. (i_dev (inodes s dp) \<noteq> i_dev (inodes s ip), i_inum (inodes s ip)))) (\<lambda>(xdev, inum).
       bnd (if xdev then ret (-1) else dirlink dp name inum) (\<lambda>r.
       bnd (iunlockput dp) (\<lambda>_.
       if r < 0 then link_bad ip
       else
         bnd (iput ip) (\<lambda>_.
         bnd end_op (\<lambda>_. ret 0))))))))))))))))"

fun isdirempty_loop :: "nat \<Rightarrow> nat list \<Rightarrow> ('a kfs_scheme, bool) kmon" where
  "isdirempty_loop dp [] = ret True"
| "isdirempty_loop dp (off # offs) =
     bnd (read_dirent dp off ''isdirempty: readi'') (\<lambda>de.
     if de_inum de \<noteq> 0 then ret False else isdirempty_loop dp offs)"

definition isdirempty :: "nat \<Rightarrow> ('a kfs_scheme, bool) kmon" where
  "isdirempty dp = bnd (geti dp i_size) (\<lambda>size. isdirempty_loop dp (dir_offsets 32 size))"

definition unlink_bad :: "nat \<Rightarrow> ('a kfs_scheme, uint64) kmon" where
  \<comment> \<open>the code of \<^verbatim>\<open>sys_unlink\<close> at \<^verbatim>\<open>bad:\<close>\<close>
  "unlink_bad dp = bnd (iunlockput dp) (\<lambda>_. op_fail)"

definition unlink_entry :: "nat \<Rightarrow> nat \<Rightarrow> nat \<Rightarrow> ('a kfs_scheme, uint64) kmon" where
  \<comment> \<open>erase the entry at \<open>off\<close> and drop the link; both inodes are locked\<close>
  "unlink_entry dp ip off =
     bnd (writei dp (FromLocal (replicate 16 0)) (of_nat off) 16) (\<lambda>r.
     bnd (assert_or (r = 16) ''unlink: writei'') (\<lambda>_.
     bnd (geti ip i_type) (\<lambda>t.
     bnd (whenk (t = T_DIR)
       (bnd (upd_inode dp (\<lambda>x. x\<lparr>i_nlink := i_nlink x - 1\<rparr>)) (\<lambda>_. iupdate dp))) (\<lambda>_.
     bnd (iunlockput dp) (\<lambda>_.
     bnd (upd_inode ip (\<lambda>x. x\<lparr>i_nlink := i_nlink x - 1\<rparr>)) (\<lambda>_.
     bnd (iupdate ip) (\<lambda>_.
     bnd (iunlockput ip) (\<lambda>_.
     bnd end_op (\<lambda>_. ret 0)))))))))"

definition sys_unlink :: "('a kfile_scheme, uint64) kmon" where
  "sys_unlink =
     bnd (argstr 0 MAXPATH) (\<lambda>r. case r of None \<Rightarrow> ret (-1) | Some path \<Rightarrow>
     bnd begin_op (\<lambda>_.
     bnd (nameiparent path) (\<lambda>r. case r of None \<Rightarrow> op_fail | Some (dp, name) \<Rightarrow>
     bnd (ilock dp) (\<lambda>_.
     if namecmp name (bytes_of ''.'') = 0 \<or> namecmp name (bytes_of ''..'') = 0 then unlink_bad dp
     else
       bnd (dirlookup dp name) (\<lambda>r. case r of None \<Rightarrow> unlink_bad dp | Some (ip, off) \<Rightarrow>
       bnd (ilock ip) (\<lambda>_.
       bnd (geti ip id) (\<lambda>x.
       bnd (assert_or (\<not> sint (i_nlink x) < 1) ''unlink: nlink < 1'') (\<lambda>_.
       bnd (if i_type x = T_DIR then isdirempty ip else ret True) (\<lambda>e.
       if \<not> e then bnd (iunlockput ip) (\<lambda>_. unlink_bad dp)
       else unlink_entry dp ip off)))))))))"

definition create :: "uint8 list \<Rightarrow> uint16 \<Rightarrow> uint16 \<Rightarrow> uint16 \<Rightarrow> ('a kfs_scheme, nat option) kmon" where
  "create path type major minor =
     bnd (nameiparent path) (\<lambda>r. case r of None \<Rightarrow> ret None | Some (dp, name) \<Rightarrow>
     bnd (ilock dp) (\<lambda>_.
     bnd (dirlookup dp name) (\<lambda>r. case r of
       Some (ip, off) \<Rightarrow>
         bnd (iunlockput dp) (\<lambda>_.
         bnd (ilock ip) (\<lambda>_.
         bnd (geti ip i_type) (\<lambda>t.
         if type = T_FILE \<and> (t = T_FILE \<or> t = T_DEVICE) then ret (Some ip)
         else bnd (iunlockput ip) (\<lambda>_. ret None))))
     | None \<Rightarrow>
         bnd (geti dp i_dev) (\<lambda>dev.
         bnd (ialloc dev type) (\<lambda>ip.
         bnd (ilock ip) (\<lambda>_.
         bnd (upd_inode ip (\<lambda>x. x\<lparr>i_major := major, i_minor := minor, i_nlink := 1\<rparr>)) (\<lambda>_.
         bnd (iupdate ip) (\<lambda>_.
         bnd (geti ip i_inum) (\<lambda>inum.
         bnd (whenk (type = T_DIR)
           (bnd (upd_inode dp (\<lambda>x. x\<lparr>i_nlink := i_nlink x + 1\<rparr>)) (\<lambda>_.
            bnd (iupdate dp) (\<lambda>_.
            bnd (dirlink ip (bytes_of ''.'') inum) (\<lambda>r.
            bnd (assert_or (\<not> r < 0) ''create dots'') (\<lambda>_.
            bnd (geti dp i_inum) (\<lambda>dinum.
            bnd (dirlink ip (bytes_of ''..'') dinum) (\<lambda>r.
            assert_or (\<not> r < 0) ''create dots'')))))))) (\<lambda>_.
         bnd (dirlink dp name inum) (\<lambda>r.
         bnd (assert_or (\<not> r < 0) ''create: dirlink'') (\<lambda>_.
         bnd (iunlockput dp) (\<lambda>_.
         ret (Some ip))))))))))))))"

definition O_RDONLY :: uint32 where "O_RDONLY = 0x000"
definition O_WRONLY :: uint32 where "O_WRONLY = 0x001"
definition O_RDWR :: uint32 where "O_RDWR = 0x002"
definition O_CREATE :: uint32 where "O_CREATE = 0x200"
definition O_TRUNC :: uint32 where "O_TRUNC = 0x400"

definition open_inode :: "uint8 list \<Rightarrow> uint32 \<Rightarrow> ('a kfs_scheme, nat option) kmon" where
  \<comment> \<open>the first half of \<^verbatim>\<open>sys_open\<close>: the locked inode, or \<open>None\<close> where it returns -1\<close>
  "open_inode path omode =
     (if omode AND O_CREATE \<noteq> 0 then create path T_FILE 0 0
      else
        bnd (namei path) (\<lambda>r. case r of None \<Rightarrow> ret None | Some ip \<Rightarrow>
        bnd (ilock ip) (\<lambda>_.
        bnd (geti ip i_type) (\<lambda>t.
        if t = T_DIR \<and> omode \<noteq> O_RDONLY then bnd (iunlockput ip) (\<lambda>_. ret None)
        else ret (Some ip)))))"

definition sys_open :: "('a kfile_scheme, uint64) kmon" where
  "sys_open =
     bnd (argstr 0 MAXPATH) (\<lambda>r. case r of None \<Rightarrow> ret (-1) | Some path \<Rightarrow>
     bnd (argint 1) (\<lambda>omode.
     bnd begin_op (\<lambda>_.
     bnd (open_inode path omode) (\<lambda>r. case r of None \<Rightarrow> op_fail | Some ip \<Rightarrow>
     bnd (geti ip id) (\<lambda>x.
     if i_type x = T_DEVICE \<and> bad_major (i_major x) then bnd (iunlockput ip) (\<lambda>_. op_fail)
     else
       bnd filealloc (\<lambda>r. case r of None \<Rightarrow> bnd (iunlockput ip) (\<lambda>_. op_fail) | Some f \<Rightarrow>
       bnd (fdalloc f) (\<lambda>r. case r of
         None \<Rightarrow> bnd (fileclose f) (\<lambda>_. bnd (iunlockput ip) (\<lambda>_. op_fail))
       | Some fd \<Rightarrow>
           bnd (upd_file f (\<lambda>y. if i_type x = T_DEVICE
             then y\<lparr>f_type := FD_DEVICE, f_major := i_major x\<rparr>
             else y\<lparr>f_type := FD_INODE, f_off := 0\<rparr>)) (\<lambda>_.
           bnd (upd_file f (\<lambda>y. y\<lparr>f_ip := ip, f_readable := (omode AND O_WRONLY = 0),
             f_writable := (omode AND O_WRONLY \<noteq> 0 \<or> omode AND O_RDWR \<noteq> 0)\<rparr>)) (\<lambda>_.
           bnd (whenk (omode AND O_TRUNC \<noteq> 0 \<and> i_type x = T_FILE) (itrunc ip)) (\<lambda>_.
           bnd (iunlock ip) (\<lambda>_.
           bnd end_op (\<lambda>_.
           ret (of_nat fd)))))))))))))"

definition sys_mkdir :: "('a kfile_scheme, uint64) kmon" where
  "sys_mkdir =
     bnd begin_op (\<lambda>_.
     bnd (argstr 0 MAXPATH) (\<lambda>r. case r of None \<Rightarrow> op_fail | Some path \<Rightarrow>
     bnd (create path T_DIR 0 0) (\<lambda>r. case r of None \<Rightarrow> op_fail | Some ip \<Rightarrow>
     bnd (iunlockput ip) (\<lambda>_.
     bnd end_op (\<lambda>_. ret 0)))))"

definition sys_mknod :: "('a kfile_scheme, uint64) kmon" where
  "sys_mknod =
     bnd begin_op (\<lambda>_.
     bnd (argstr 0 MAXPATH) (\<lambda>r. case r of None \<Rightarrow> op_fail | Some path \<Rightarrow>
     bnd (argint 1) (\<lambda>major.
     bnd (argint 2) (\<lambda>minor.
     bnd (create path T_DEVICE (ucast major) (ucast minor)) (\<lambda>r. case r of None \<Rightarrow> op_fail
     | Some ip \<Rightarrow>
         bnd (iunlockput ip) (\<lambda>_.
         bnd end_op (\<lambda>_. ret 0)))))))"

definition sys_chdir :: "('a kfile_scheme, uint64) kmon" where
  "sys_chdir =
     bnd curproc (\<lambda>p.
     bnd begin_op (\<lambda>_.
     bnd (argstr 0 MAXPATH) (\<lambda>r. case r of None \<Rightarrow> op_fail | Some path \<Rightarrow>
     bnd (namei path) (\<lambda>r. case r of None \<Rightarrow> op_fail | Some ip \<Rightarrow>
     bnd (ilock ip) (\<lambda>_.
     bnd (geti ip i_type) (\<lambda>t.
     if t \<noteq> T_DIR then bnd (iunlockput ip) (\<lambda>_. op_fail)
     else
       bnd (iunlock ip) (\<lambda>_.
       bnd (getp p cwd) (\<lambda>c.
       bnd (deref c) (\<lambda>old.
       bnd (iput old) (\<lambda>_.
       bnd end_op (\<lambda>_.
       bnd (set_proc p (\<lambda>q. q\<lparr>cwd := Some ip\<rparr>)) (\<lambda>_.
       ret 0))))))))))))"

fun exec_args :: "uint64 \<Rightarrow> nat \<Rightarrow> nat \<Rightarrow> uint64 list \<Rightarrow> ('a kproc_scheme, uint64 list \<times> bool) kmon" where
  \<comment> \<open>the loop of \<^verbatim>\<open>sys_exec\<close>: the pages allocated so far, and whether to go on; \<open>k\<close> slots of
      \<^verbatim>\<open>argv\<close> are left\<close>
  "exec_args uargv 0 i argv = ret (argv, False)"
| "exec_args uargv (Suc k) i argv =
     bnd (fetchaddr (uargv + 8 * of_nat i)) (\<lambda>r. case r of None \<Rightarrow> ret (argv, False) | Some uarg \<Rightarrow>
     if uarg = 0 then ret (argv, True)
     else
       bnd kalloc (\<lambda>page.
       if page = 0 then ret (argv, False)
       else
         bnd (fetchstr_at uarg page PGSIZE) (\<lambda>r.
         if r < 0 then ret (argv @ [page], False)
         else exec_args uargv k (Suc i) (argv @ [page]))))"

definition sys_exec :: "('a kfile_scheme, uint64) kmon" where
  "sys_exec =
     bnd (argstr 0 MAXPATH) (\<lambda>r. case r of None \<Rightarrow> ret (-1) | Some path \<Rightarrow>
     bnd (argaddr 1) (\<lambda>uargv.
     bnd (exec_args uargv MAXARG 0 []) (\<lambda>(argv, ok).
     bnd (if ok then exec path argv else ret (-1)) (\<lambda>r.
     bnd (foreach argv kfree) (\<lambda>_.
     ret (of_int r))))))"

definition pipe_fail :: "nat \<Rightarrow> nat \<Rightarrow> ('a kfile_scheme, uint64) kmon" where
  "pipe_fail f g = bnd (fileclose f) (\<lambda>_. bnd (fileclose g) (\<lambda>_. ret (-1)))"

definition sys_pipe :: "('a kfile_scheme, uint64) kmon" where
  "sys_pipe =
     bnd curproc (\<lambda>p.
     bnd (argaddr 0) (\<lambda>fdarray.
     bnd pipealloc (\<lambda>r. case r of None \<Rightarrow> ret (-1) | Some (rfile, wfile) \<Rightarrow>
     bnd (fdalloc rfile) (\<lambda>r. case r of None \<Rightarrow> pipe_fail rfile wfile | Some fd0 \<Rightarrow>
     bnd (fdalloc wfile) (\<lambda>r. case r of None \<Rightarrow> bnd (clear_fd fd0) (\<lambda>_. pipe_fail rfile wfile) | Some fd1 \<Rightarrow>
     bnd (getp p pagetable) (\<lambda>pt.
     bnd (copyout_b pt fdarray (le_split 4 (of_nat fd0 :: uint32))) (\<lambda>r0.
     bnd (if r0 < 0 then ret r0
          else copyout_b pt (fdarray + 4) (le_split 4 (of_nat fd1 :: uint32))) (\<lambda>r1.
     if r1 < 0
     then bnd (clear_fd fd0) (\<lambda>_. bnd (clear_fd fd1) (\<lambda>_. pipe_fail rfile wfile))
     else ret 0))))))))"

section \<open>System calls on processes (sysproc.c)\<close>

definition sys_exit :: "('a kfile_scheme, uint64) kmon" where
  "sys_exit = bnd (argint 0) (\<lambda>n. exit n)"

definition sys_getpid :: "('a kproc_scheme, uint64) kmon" where
  "sys_getpid = bnd curproc (\<lambda>p. bnd (getp p pid) (\<lambda>n. ret (scast n)))"

definition sys_fork :: "('a kfile_scheme, uint64) kmon" where
  "sys_fork = bnd fork (\<lambda>r. ret (of_int r))"

definition sys_wait :: "('a kproc_scheme, uint64) kmon" where
  "sys_wait = bnd (argaddr 0) (\<lambda>p. bnd (wait p) (\<lambda>r. ret (of_int r)))"

definition sys_sbrk :: "('a kproc_scheme, uint64) kmon" where
  "sys_sbrk =
     bnd (argint 0) (\<lambda>n.
     bnd curproc (\<lambda>p.
     bnd (getp p (\<lambda>q. ucast (psz q))) (\<lambda>addr :: int32.
     bnd (growproc n) (\<lambda>r.
     ret (if r < 0 then -1 else scast addr)))))"

definition sys_sleep_pass :: "uint32 \<Rightarrow> int32 \<Rightarrow> ('a kdev_scheme, uint64) kmon" where
  \<comment> \<open>from the test of the loop on; a process that slept resumes here.  The comparison of
      \<^verbatim>\<open>uint\<close> and \<^verbatim>\<open>int\<close> is unsigned\<close>
  "sys_sleep_pass ticks0 n =
     bnd (gets ticks) (\<lambda>t.
     if t - ticks0 < n
     then
       bnd curproc (\<lambda>p.
       bnd (getp p killed) (\<lambda>dead.
       if dead then bnd (release LkTicks) (\<lambda>_. ret (-1))
       else sleep ChTicks LkTicks))
     else bnd (release LkTicks) (\<lambda>_. ret 0))"

definition sys_sleep :: "('a kdev_scheme, uint64) kmon" where
  "sys_sleep =
     bnd (argint 0) (\<lambda>n.
     bnd (acquire LkTicks) (\<lambda>_.
     bnd (gets ticks) (\<lambda>ticks0.
     sys_sleep_pass ticks0 n)))"

definition sys_kill :: "('a kproc_scheme, uint64) kmon" where
  "sys_kill = bnd (argint 0) (\<lambda>n. bnd (kill n) (\<lambda>r. ret (of_int r)))"

definition sys_uptime :: "('a kdev_scheme, uint64) kmon" where
  "sys_uptime =
     bnd (acquire LkTicks) (\<lambda>_.
     bnd (gets ticks) (\<lambda>xticks.
     bnd (release LkTicks) (\<lambda>_.
     ret (ucast xticks))))"

section \<open>Dispatch (syscall.c)\<close>

definition syscalls :: "('a kfile_scheme, uint64) kmon list" where
  \<comment> \<open>from \<^verbatim>\<open>SYS_fork\<close>, which is 1, to \<^verbatim>\<open>SYS_close\<close>, which is 21\<close>
  "syscalls = [sys_fork, sys_exit, sys_wait, sys_pipe, sys_read, sys_kill, sys_exec, sys_fstat,
     sys_chdir, sys_dup, sys_getpid, sys_sbrk, sys_sleep, sys_uptime, sys_open, sys_write,
     sys_mknod, sys_unlink, sys_link, sys_mkdir, sys_close]"

definition syscall :: "('a kfile_scheme, unit) kmon" where
  "syscall =
     bnd curproc (\<lambda>p.
     bnd (getp p trapframe) (\<lambda>tf.
     bnd (tf_get tf A7) (\<lambda>a7.
     let num = sint (ucast a7 :: int32) in
     if 0 < num \<and> num < 22
     then bnd (syscalls ! nat (num - 1)) (\<lambda>r. tf_set tf A0 r)
     else
       bnd (getp p id) (\<lambda>q.
       bnd (printf (Some (''%d %s: unknown sys call %d'' @ [CHR 0x0A]))
         [VInt (pid q), VStr (Some (map unat (pname q))), VInt (ucast a7)]) (\<lambda>_.
       tf_set tf A0 (-1))))))"

end
