(* ===== verification/Trap.thy ===== *)
theory Trap
  imports Sysfile
begin

text \<open>
  \<^verbatim>\<open>kernel/trap.c\<close>, \<^verbatim>\<open>kernel/plic.c\<close>, \<^verbatim>\<open>kernel/trampoline.S\<close>, \<^verbatim>\<open>kernel/kernelvec.S\<close>, and
  \<^verbatim>\<open>forkret\<close> of \<^verbatim>\<open>kernel/proc.c\<close>: entering the kernel from user space and from the kernel
  itself, device and timer interrupts, and the way back.  The assembly files act on the
  general registers, a function from their names.
\<close>

section \<open>More registers (kernel/riscv.h)\<close>

definition r_sip :: "'a mach_scheme \<Rightarrow> uint64" where "r_sip s = sip (my_hart s)"
definition w_sip :: "uint64 \<Rightarrow> 'a mach_scheme \<Rightarrow> 'a mach_scheme" where
  "w_sip x = upd_hart (\<lambda>h. h\<lparr>sip := x\<rparr>)"
definition r_sepc :: "'a mach_scheme \<Rightarrow> uint64" where "r_sepc s = sepc (my_hart s)"
definition w_sepc :: "uint64 \<Rightarrow> 'a mach_scheme \<Rightarrow> 'a mach_scheme" where
  "w_sepc x = upd_hart (\<lambda>h. h\<lparr>sepc := x\<rparr>)"
definition w_stvec :: "uint64 \<Rightarrow> 'a mach_scheme \<Rightarrow> 'a mach_scheme" where
  "w_stvec x = upd_hart (\<lambda>h. h\<lparr>stvec := x\<rparr>)"
definition r_satp :: "'a mach_scheme \<Rightarrow> uint64" where "r_satp s = satp (my_hart s)"
definition r_scause :: "'a mach_scheme \<Rightarrow> uint64" where "r_scause s = scause (my_hart s)"
definition r_stval :: "'a mach_scheme \<Rightarrow> uint64" where "r_stval s = stval (my_hart s)"

section \<open>plic.c\<close>

definition plic_write :: "uint64 \<Rightarrow> uint32 \<Rightarrow> ('a kdev_scheme, unit) kmon" where
  "plic_write a v = modify (\<lambda>s. s\<lparr>plic_regs := (plic_regs s)(a := v)\<rparr>)"

definition plicinit :: "('a kdev_scheme, unit) kmon" where
  "plicinit =
     bnd (plic_write (PLIC + of_nat UART0_IRQ * 4) 1) (\<lambda>_.
     plic_write (PLIC + of_nat VIRTIO0_IRQ * 4) 1)"

definition plicinithart :: "('a kdev_scheme, unit) kmon" where
  "plicinithart =
     bnd (gets cpuid) (\<lambda>hart.
     bnd (plic_write (PLIC_SENABLE (of_nat hart)) (push_bit UART0_IRQ 1 OR push_bit VIRTIO0_IRQ 1)) (\<lambda>_.
     plic_write (PLIC_SPRIORITY (of_nat hart)) 0))"

definition plic_claim :: "('a kdev_scheme, uint32) kmon" where
  \<comment> \<open>a read of the claim register hands out one pending interrupt, or 0\<close>
  "plic_claim =
     bnd (gets plic_pending) (\<lambda>q.
     bnd (modify (\<lambda>s. s\<lparr>plic_pending := tl (plic_pending s)\<rparr>)) (\<lambda>_.
     ret (if q = [] then 0 else hd q)))"

definition plic_complete :: "uint32 \<Rightarrow> ('a kdev_scheme, unit) kmon" where
  "plic_complete irq =
     bnd (gets cpuid) (\<lambda>hart. plic_write (PLIC_SCLAIM (of_nat hart)) irq)"

section \<open>Interrupts (trap.c)\<close>

definition trapinit :: "('a mach_scheme, unit) kmon" where
  "trapinit = initlock LkTicks ''time''"

definition trapinithart :: "('a kproc_scheme, unit) kmon" where
  "trapinithart = modify (\<lambda>s. w_stvec (kernelvec (ksym s)) s)"

definition clockintr :: "('a kdev_scheme, unit) kmon" where
  "clockintr =
     bnd (acquire LkTicks) (\<lambda>_.
     bnd (modify (\<lambda>s. s\<lparr>ticks := ticks s + 1\<rparr>)) (\<lambda>_.
     bnd (wakeup (Some ChTicks)) (\<lambda>_.
     release LkTicks)))"

definition devintr :: "uint32 \<Rightarrow> ('a kblk_scheme, nat) kmon" where
  \<comment> \<open>\<open>vst\<close> is what the disk's interrupt status register reads\<close>
  "devintr vst =
     bnd (gets r_scause) (\<lambda>scause.
     if scause AND 0x8000000000000000 \<noteq> 0 \<and> scause AND 0xff = 9
     then
       bnd plic_claim (\<lambda>irq.
       bnd (if irq = of_nat UART0_IRQ then uartintr
            else if irq = of_nat VIRTIO0_IRQ then virtio_disk_intr vst
            else whenk (irq \<noteq> 0)
              (printf (Some (''unexpected interrupt irq=%d'' @ [CHR 0x0A])) [VInt irq])) (\<lambda>_.
       bnd (whenk (irq \<noteq> 0) (plic_complete irq)) (\<lambda>_.
       ret 1)))
     else if scause = 0x8000000000000001
     then
       bnd (gets cpuid) (\<lambda>c.
       bnd (whenk (c = 0) clockintr) (\<lambda>_.
       bnd (modify (\<lambda>s. w_sip (r_sip s AND NOT 2) s)) (\<lambda>_.
       ret 2)))
     else ret 0)"

section \<open>User traps\<close>

definition usertrapret :: "('a kproc_scheme, uint64 \<times> uint64) kmon" where
  \<comment> \<open>the arguments with which it jumps to \<^verbatim>\<open>userret\<close>\<close>
  "usertrapret =
     bnd curproc (\<lambda>p.
     bnd (modify intr_off) (\<lambda>_.
     bnd (gets ksym) (\<lambda>ks.
     bnd (modify (w_stvec (TRAMPOLINE + (uservec ks - trampoline ks)))) (\<lambda>_.
     bnd (getp p id) (\<lambda>q.
     bnd (gets r_satp) (\<lambda>ksatp.
     bnd (tf_set (trapframe q) Kernel_satp ksatp) (\<lambda>_.
     bnd (tf_set (trapframe q) Kernel_sp (kstack q + PGSIZE)) (\<lambda>_.
     bnd (tf_set (trapframe q) Kernel_trap (usertrap_addr ks)) (\<lambda>_.
     bnd (gets r_tp) (\<lambda>tp.
     bnd (tf_set (trapframe q) Kernel_hartid tp) (\<lambda>_.
     bnd (modify (\<lambda>s. w_sstatus ((r_sstatus s AND NOT SSTATUS_SPP) OR SSTATUS_SPIE) s)) (\<lambda>_.
     bnd (tf_get (trapframe q) Epc) (\<lambda>epc.
     bnd (modify (w_sepc epc)) (\<lambda>_.
     ret (TRAPFRAME, MAKE_SATP (pagetable q))))))))))))))))"

definition usertrap_finish :: "nat \<Rightarrow> nat \<Rightarrow> ('a kfile_scheme, uint64 \<times> uint64) kmon" where
  \<comment> \<open>from \<^verbatim>\<open>if(p->killed)\<close> after the handling of the trap on\<close>
  "usertrap_finish p which_dev =
     bnd (getp p killed) (\<lambda>dead.
     if dead then exit (-1)
     else bnd (whenk (which_dev = 2) yield) (\<lambda>_. usertrapret))"

definition usertrap :: "uint32 \<Rightarrow> ('a kfile_scheme, uint64 \<times> uint64) kmon" where
  "usertrap vst =
     bnd (gets r_sstatus) (\<lambda>st.
     bnd (assert_or (st AND SSTATUS_SPP = 0) ''usertrap: not from user mode'') (\<lambda>_.
     bnd (modify (\<lambda>s. w_stvec (kernelvec (ksym s)) s)) (\<lambda>_.
     bnd curproc (\<lambda>p.
     bnd (getp p trapframe) (\<lambda>tf.
     bnd (gets r_sepc) (\<lambda>pc.
     bnd (tf_set tf Epc pc) (\<lambda>_.
     bnd (gets r_scause) (\<lambda>scause.
     if scause = 8
     then
       bnd (getp p killed) (\<lambda>dead.
       if dead then exit (-1)
       else
         bnd (tf_set tf Epc (pc + 4)) (\<lambda>_.
         bnd (modify intr_on) (\<lambda>_.
         bnd syscall (\<lambda>_.
         usertrap_finish p 0))))
     else
       bnd (devintr vst) (\<lambda>which_dev.
       bnd (whenk (which_dev = 0)
         (bnd (gets (\<lambda>s. (r_scause s, r_sepc s, r_stval s, pid (procs s p)))) (\<lambda>(c, pc, v, n).
          bnd (printf (Some (''usertrap(): unexpected scause %p pid=%d'' @ [CHR 0x0A])) [VPtr c, VInt n]) (\<lambda>_.
          bnd (printf (Some (''            sepc=%p stval=%p'' @ [CHR 0x0A])) [VPtr pc, VPtr v]) (\<lambda>_.
          set_proc p (\<lambda>q. q\<lparr>killed := True\<rparr>)))))) (\<lambda>_.
       usertrap_finish p which_dev))))))))))"

definition usertrap_resume :: "bool \<Rightarrow> ('a kfile_scheme, uint64 \<times> uint64) kmon" where
  \<comment> \<open>after the \<^verbatim>\<open>yield()\<close>\<close>
  "usertrap_resume b = bnd (yield_resume b) (\<lambda>_. usertrapret)"

definition forkret :: "bool \<Rightarrow> ('a kfile_scheme, uint64 \<times> uint64) kmon" where
  \<comment> \<open>\<open>is_first\<close> is the static variable \<^verbatim>\<open>first\<close>\<close>
  "forkret is_first =
     bnd curproc (\<lambda>p.
     bnd (release (LkProc p)) (\<lambda>_.
     bnd (whenk is_first (fsinit ROOTDEV)) (\<lambda>_.
     usertrapret)))"

section \<open>Kernel traps\<close>

definition kerneltrap_end :: "uint64 \<Rightarrow> uint64 \<Rightarrow> ('a mach_scheme, unit) kmon" where
  "kerneltrap_end pc st = bnd (modify (w_sepc pc)) (\<lambda>_. modify (w_sstatus st))"

definition kerneltrap :: "uint32 \<Rightarrow> ('a kfile_scheme, unit) kmon" where
  "kerneltrap vst =
     bnd (gets (\<lambda>s. (r_sepc s, r_sstatus s, r_scause s))) (\<lambda>(pc, st, c).
     bnd (assert_or (st AND SSTATUS_SPP \<noteq> 0) ''kerneltrap: not from supervisor mode'') (\<lambda>_.
     bnd (gets intr_get) (\<lambda>on.
     bnd (assert_or (\<not> on) ''kerneltrap: interrupts enabled'') (\<lambda>_.
     bnd (devintr vst) (\<lambda>which_dev.
     if which_dev = 0
     then
       bnd (printf (Some (''scause %p'' @ [CHR 0x0A])) [VPtr c]) (\<lambda>_.
       bnd (gets (\<lambda>s. (r_sepc s, r_stval s))) (\<lambda>(pc, v).
       bnd (printf (Some (''sepc=%p stval=%p'' @ [CHR 0x0A])) [VPtr pc, VPtr v]) (\<lambda>_.
       panic ''kerneltrap'')))
     else
       bnd (if which_dev \<noteq> 2 then ret False
            else bnd myproc (\<lambda>me. case me of None \<Rightarrow> ret False
              | Some p \<Rightarrow> getp p (\<lambda>q. pstate q = RUNNING))) (\<lambda>b.
       bnd (whenk b yield) (\<lambda>_.
       kerneltrap_end pc st)))))))"

definition kerneltrap_resume :: "bool \<Rightarrow> uint64 \<Rightarrow> uint64 \<Rightarrow> ('a kproc_scheme, unit) kmon" where
  \<comment> \<open>after the \<^verbatim>\<open>yield()\<close>, with the registers saved on the kernel stack\<close>
  "kerneltrap_resume b pc st = bnd (yield_resume b) (\<lambda>_. kerneltrap_end pc st)"

section \<open>trampoline.S\<close>

type_synonym gregs = "tfreg \<Rightarrow> uint64"

definition saved_regs :: "tfreg list" where
  \<comment> \<open>the registers saved and restored one by one: all but \<^verbatim>\<open>a0\<close>\<close>
  "saved_regs = [Ra, Sp, Gp, Tp, T0, T1, T2, S0, S1, A1, A2, A3, A4, A5, A6, A7,
     S2, S3, S4, S5, S6, S7, S8, S9, S10, S11, T3, T4, T5, T6]"

text \<open>
  \<open>tf\<close> is the physical address of the trapframe page, which the user page table maps at
  \<^verbatim>\<open>TRAPFRAME\<close>.
\<close>

record tramp =
  t_regs :: gregs
  t_sscratch :: uint64
  t_satp :: uint64
  t_mem :: mem
  t_pc :: uint64

definition tf_store :: "uint64 \<Rightarrow> tfreg \<Rightarrow> uint64 \<Rightarrow> mem \<Rightarrow> mem" where
  "tf_store tf r v m = store64 m (tf + tf_off r) v"

definition tf_load :: "uint64 \<Rightarrow> tfreg \<Rightarrow> mem \<Rightarrow> uint64" where
  "tf_load tf r m = load64 m (tf + tf_off r)"

definition uservec_code :: "uint64 \<Rightarrow> tramp \<Rightarrow> tramp" where
  "uservec_code tf t =
     (let a0 = t_regs t A0;
          regs = (t_regs t)(A0 := t_sscratch t);
          m1 = fold (\<lambda>r m. tf_store tf r (regs r) m) saved_regs (t_mem t);
          regs1 = regs(T0 := a0);
          m2 = tf_store tf A0 (regs1 T0) m1;
          regs2 = regs1(Sp := tf_load tf Kernel_sp m2);
          regs3 = regs2(Tp := tf_load tf Kernel_hartid m2);
          regs4 = regs3(T0 := tf_load tf Kernel_trap m2);
          regs5 = regs4(T1 := tf_load tf Kernel_satp m2)
      in t\<lparr>t_regs := regs5, t_sscratch := a0, t_satp := regs5 T1, t_mem := m2, t_pc := regs5 T0\<rparr>)"

definition userret_code :: "uint64 \<Rightarrow> uint64 \<Rightarrow> uint64 \<Rightarrow> tramp \<Rightarrow> tramp" where
  \<comment> \<open>called with \<^verbatim>\<open>a0 = TRAPFRAME\<close> and \<^verbatim>\<open>a1\<close> the user page table\<close>
  "userret_code tf a0 a1 t =
     (let sscr = tf_load tf A0 (t_mem t);
          regs0 = (t_regs t)(A0 := a0, A1 := a1, T0 := sscr);
          regs1 = fold (\<lambda>r regs. regs(r := tf_load tf r (t_mem t))) saved_regs regs0
      in t\<lparr>t_regs := regs1(A0 := sscr), t_sscratch := regs1 A0, t_satp := a1\<rparr>)"

section \<open>kernelvec.S\<close>

definition kvec_regs :: "tfreg list" where
  "kvec_regs = [Ra, Sp, Gp, Tp, T0, T1, T2, S0, S1, A0, A1, A2, A3, A4, A5, A6, A7,
     S2, S3, S4, S5, S6, S7, S8, S9, S10, S11, T3, T4, T5, T6]"

definition kernelvec_save :: "gregs \<Rightarrow> mem \<Rightarrow> gregs \<times> mem" where
  "kernelvec_save regs m =
     (let r = regs(Sp := regs Sp - 256) in
      (r, fold (\<lambda>(i, x) m. store64 m (r Sp + 8 * of_nat i) (r x)) (enumerate 0 kvec_regs) m))"

definition kernelvec_restore :: "gregs \<Rightarrow> mem \<Rightarrow> gregs" where
  \<comment> \<open>\<^verbatim>\<open>tp\<close> is not restored, in case the process has moved to another CPU\<close>
  "kernelvec_restore regs m =
     (let r = fold (\<lambda>(i, x) r. if x = Tp then r else r(x := load64 m (r Sp + 8 * of_nat i)))
                (enumerate 0 kvec_regs) regs
      in r(Sp := r Sp + 256))"

record timer =
  tm_regs :: gregs
  tm_mscratch :: "nat \<Rightarrow> uint64"   \<comment> \<open>the words of \<^verbatim>\<open>scratch[]\<close> that \<^verbatim>\<open>mscratch\<close> points to\<close>
  tm_mtimecmp :: uint64
  tm_sip :: uint64

definition timervec_code :: "timer \<Rightarrow> timer" where
  \<comment> \<open>on a machine timer interrupt; any other cause ends in an endless loop\<close>
  "timervec_code t =
     (let sc = (tm_mscratch t)(0 := tm_regs t A1, 1 := tm_regs t A2, 2 := tm_regs t A3);
          cmp = tm_mtimecmp t + sc 4;
          regs = (tm_regs t)(A3 := sc 2, A2 := sc 1, A1 := sc 0)
      in t\<lparr>tm_mscratch := sc, tm_mtimecmp := cmp, tm_sip := 2, tm_regs := regs\<rparr>)"

end
