(* ===== verification/Boot.thy ===== *)
theory Boot
  imports Trap
begin

text \<open>
  \<^verbatim>\<open>kernel/start.c\<close> and \<^verbatim>\<open>kernel/main.c\<close>: from machine mode to the scheduler.
\<close>

section \<open>Machine-mode registers (kernel/riscv.h)\<close>

definition MSTATUS_MPP_MASK :: uint64 where "MSTATUS_MPP_MASK = push_bit 11 3"
definition MSTATUS_MPP_S :: uint64 where "MSTATUS_MPP_S = push_bit 11 1"
definition MSTATUS_MIE :: uint64 where "MSTATUS_MIE = push_bit 3 1"
definition SIE_SEIE :: uint64 where "SIE_SEIE = push_bit 9 1"
definition SIE_STIE :: uint64 where "SIE_STIE = push_bit 5 1"
definition SIE_SSIE :: uint64 where "SIE_SSIE = push_bit 1 1"
definition MIE_MTIE :: uint64 where "MIE_MTIE = push_bit 7 1"
definition PMP_R :: uint64 where "PMP_R = push_bit 0 1"
definition PMP_W :: uint64 where "PMP_W = push_bit 1 1"
definition PMP_X :: uint64 where "PMP_X = push_bit 2 1"
definition PMP_MATCH_NAPOT :: uint64 where "PMP_MATCH_NAPOT = push_bit 3 3"

definition r_mhartid :: "'a mach_scheme \<Rightarrow> uint64" where "r_mhartid s = mhartid (my_hart s)"
definition r_mstatus :: "'a mach_scheme \<Rightarrow> uint64" where "r_mstatus s = mstatus (my_hart s)"
definition w_mstatus :: "uint64 \<Rightarrow> 'a mach_scheme \<Rightarrow> 'a mach_scheme" where
  "w_mstatus x = upd_hart (\<lambda>h. h\<lparr>mstatus := x\<rparr>)"
definition w_mepc :: "uint64 \<Rightarrow> 'a mach_scheme \<Rightarrow> 'a mach_scheme" where
  "w_mepc x = upd_hart (\<lambda>h. h\<lparr>mepc := x\<rparr>)"
definition w_medeleg :: "uint64 \<Rightarrow> 'a mach_scheme \<Rightarrow> 'a mach_scheme" where
  "w_medeleg x = upd_hart (\<lambda>h. h\<lparr>medeleg := x\<rparr>)"
definition w_mideleg :: "uint64 \<Rightarrow> 'a mach_scheme \<Rightarrow> 'a mach_scheme" where
  "w_mideleg x = upd_hart (\<lambda>h. h\<lparr>mideleg := x\<rparr>)"
definition r_sie :: "'a mach_scheme \<Rightarrow> uint64" where "r_sie s = sie (my_hart s)"
definition w_sie :: "uint64 \<Rightarrow> 'a mach_scheme \<Rightarrow> 'a mach_scheme" where
  "w_sie x = upd_hart (\<lambda>h. h\<lparr>sie := x\<rparr>)"
definition r_mie :: "'a mach_scheme \<Rightarrow> uint64" where "r_mie s = mie (my_hart s)"
definition w_mie :: "uint64 \<Rightarrow> 'a mach_scheme \<Rightarrow> 'a mach_scheme" where
  "w_mie x = upd_hart (\<lambda>h. h\<lparr>mie := x\<rparr>)"
definition w_mtvec :: "uint64 \<Rightarrow> 'a mach_scheme \<Rightarrow> 'a mach_scheme" where
  "w_mtvec x = upd_hart (\<lambda>h. h\<lparr>mtvec := x\<rparr>)"
definition w_mscratch :: "uint64 \<Rightarrow> 'a mach_scheme \<Rightarrow> 'a mach_scheme" where
  "w_mscratch x = upd_hart (\<lambda>h. h\<lparr>mscratch := x\<rparr>)"
definition w_pmpcfg0 :: "uint64 \<Rightarrow> 'a mach_scheme \<Rightarrow> 'a mach_scheme" where
  "w_pmpcfg0 x = upd_hart (\<lambda>h. h\<lparr>pmpcfg0 := x\<rparr>)"
definition w_pmpaddr0 :: "uint64 \<Rightarrow> 'a mach_scheme \<Rightarrow> 'a mach_scheme" where
  "w_pmpaddr0 x = upd_hart (\<lambda>h. h\<lparr>pmpaddr0 := x\<rparr>)"
definition w_tp :: "uint64 \<Rightarrow> 'a mach_scheme \<Rightarrow> 'a mach_scheme" where
  "w_tp x = upd_hart (\<lambda>h. h\<lparr>tp := x\<rparr>)"

section \<open>start.c\<close>

record kboot = kfile +
  clint_mtime :: uint64
  clint_mtimecmp :: "nat \<Rightarrow> uint64"
  timer_scratch :: "nat \<Rightarrow> nat \<Rightarrow> uint64"

definition timerinit :: "('a kboot_scheme, unit) kmon" where
  "timerinit =
     bnd (gets (\<lambda>s. unat (r_mhartid s))) (\<lambda>h.
     bnd (modify (\<lambda>s. s\<lparr>clint_mtimecmp := (clint_mtimecmp s)(h := clint_mtime s + 1000000)\<rparr>)) (\<lambda>_.
     bnd (modify (\<lambda>s. s\<lparr>timer_scratch := (timer_scratch s)(h := (timer_scratch s h)
       (3 := CLINT_MTIMECMP (of_nat h), 4 := 1000000))\<rparr>)) (\<lambda>_.
     bnd (modify (\<lambda>s. w_mscratch (timer_scratch_addr (ksym s) + 40 * of_nat h) s)) (\<lambda>_.
     bnd (modify (\<lambda>s. w_mtvec (timervec (ksym s)) s)) (\<lambda>_.
     bnd (modify (\<lambda>s. w_mstatus (r_mstatus s OR MSTATUS_MIE) s)) (\<lambda>_.
     modify (\<lambda>s. w_mie (r_mie s OR MIE_MTIE) s)))))))"

definition pmpinit :: "('a mach_scheme, unit) kmon" where
  \<comment> \<open>\<^verbatim>\<open>(~0L) >> 10\<close> shifts a negative number, which keeps its sign\<close>
  "pmpinit =
     bnd (modify (w_pmpaddr0 (signed_drop_bit 10 (- 1)))) (\<lambda>_.
     modify (w_pmpcfg0 (PMP_R OR PMP_W OR PMP_X OR PMP_MATCH_NAPOT)))"

definition start :: "('a kboot_scheme, unit) kmon" where
  \<comment> \<open>up to \<^verbatim>\<open>mret\<close>, which jumps to \<^verbatim>\<open>mepc\<close> in the mode that \<^verbatim>\<open>mstatus\<close> names\<close>
  "start =
     bnd (modify (\<lambda>s. w_mstatus ((r_mstatus s AND NOT MSTATUS_MPP_MASK) OR MSTATUS_MPP_S) s)) (\<lambda>_.
     bnd (modify (\<lambda>s. w_mepc (kmain_addr (ksym s)) s)) (\<lambda>_.
     bnd (modify (w_satp 0)) (\<lambda>_.
     bnd (modify (w_medeleg 0xffff)) (\<lambda>_.
     bnd (modify (w_mideleg 0xffff)) (\<lambda>_.
     bnd (modify (\<lambda>s. w_sie (r_sie s OR SIE_SEIE OR SIE_STIE OR SIE_SSIE) s)) (\<lambda>_.
     bnd timerinit (\<lambda>_.
     bnd (modify (\<lambda>s. w_tp (scast (ucast (r_mhartid s) :: int32)) s)) (\<lambda>_.
     pmpinit))))))))"

section \<open>main.c\<close>

definition nl :: string where "nl = [CHR 0x0A]"

definition kmain :: "(nat \<Rightarrow> uint32) \<Rightarrow> ('a kfile_scheme, unit) kmon" where
  \<comment> \<open>\<^verbatim>\<open>main\<close> up to the call of \<^verbatim>\<open>scheduler\<close>; \<open>mmio\<close> are the registers of the disk\<close>
  "kmain mmio =
     bnd (gets cpuid) (\<lambda>c.
     if c = 0
     then
       bnd consoleinit (\<lambda>_.
       bnd printfinit (\<lambda>_.
       bnd (printf (Some nl) []) (\<lambda>_.
       bnd (printf (Some (''xv6 kernel is booting'' @ nl)) []) (\<lambda>_.
       bnd (printf (Some nl) []) (\<lambda>_.
       bnd kinit (\<lambda>_.
       bnd kvminit (\<lambda>_.
       bnd kvminithart (\<lambda>_.
       bnd procinit (\<lambda>_.
       bnd trapinit (\<lambda>_.
       bnd trapinithart (\<lambda>_.
       bnd plicinit (\<lambda>_.
       bnd plicinithart (\<lambda>_.
       bnd binit (\<lambda>_.
       bnd iinit (\<lambda>_.
       bnd fileinit (\<lambda>_.
       bnd (gets (\<lambda>s. disk_pages_addr (ksym s))) (\<lambda>pages.
       bnd (virtio_disk_init mmio pages) (\<lambda>_.
       bnd userinit (\<lambda>_.
       bnd (modify (\<lambda>s. s\<lparr>started := True\<rparr>)) (\<lambda>_.
       scheduler_enter))))))))))))))))))))
     else
       bnd (gets started) (\<lambda>go.
       if \<not> go then (\<lambda>s. Spin)
       else
         bnd (gets cpuid) (\<lambda>h.
         bnd (printf (Some (''hart %d starting'' @ nl)) [VInt (of_nat h)]) (\<lambda>_.
         bnd kvminithart (\<lambda>_.
         bnd trapinithart (\<lambda>_.
         bnd plicinithart (\<lambda>_.
         scheduler_enter)))))))"

end
