(* ===== verification/Scheduling.thy ===== *)
theory Scheduling
  imports Proc
begin

text \<open>
  Properties of the scheduler, of \<^verbatim>\<open>sleep\<close> and \<^verbatim>\<open>wakeup\<close>, and of \<^verbatim>\<open>kill\<close>.
\<close>

section \<open>Sleeping and being woken\<close>

lemma scheduler_back_eq:
  assumes "cpu_ok s" "lock_free (LkProc p) s"
  shows "scheduler_back p (acq (LkProc p) s) = Ok () (upd_mycpu (\<lambda>c. c\<lparr>cpu_proc := None\<rparr>) s)"
  using assms by (simp add: scheduler_back_def acq_upd_mycpu cpu_ok_upd_mycpu)

lemma scheduler_try_eq:
  assumes "cpu_ok s" "lock_free (LkProc p) s"
  shows "scheduler_try p s =
    (if pstate (procs s p) = RUNNABLE
     then Ok True (acq (LkProc p) (to_process p (upd_mycpu (\<lambda>c. c\<lparr>cpu_proc := Some p\<rparr>)
       (s\<lparr>procs := (procs s)(p := (procs s p)\<lparr>pstate := RUNNING\<rparr>)\<rparr>))))
     else Ok False s)"
  using assms
  by (simp add: scheduler_try_def getp_def set_proc_def upd_proc_def acq_upd_mycpu to_process_acq)

lemma sleep_resume_eq:
  assumes "cpu_ok s" "running p s" "lock_free (LkProc p) s" "lock_free l s" "b = intena (mycpu s)"
  shows "sleep_resume b l (acq (LkProc p) s) =
    Ok () (acq l (s\<lparr>procs := (procs s)(p := (procs s p)\<lparr>pchan := None\<rparr>)\<rparr>))"
proof -
  have "upd_mycpu (\<lambda>c. c\<lparr>intena := b\<rparr>) s = s"
    by (rule upd_mycpu_id) (simp add: assms(5))
  then show ?thesis using assms(1-4)
    by (simp add: sleep_resume_def sched_resume_def acq_upd_mycpu set_proc_def upd_proc_def)
qed

text \<open>
  C13.  A process that sleeps and is woken goes on exactly where it was.  Let process \<open>p\<close> call
  \<^verbatim>\<open>sleep(chan, lk)\<close> holding only \<open>lk\<close>.  It gives up the CPU; when the scheduler has taken over,
  somebody calls \<^verbatim>\<open>wakeup(chan)\<close> and the scheduler tries \<open>p\<close> again, then \<open>p\<close> returns from
  \<^verbatim>\<open>sleep\<close> with \<open>lk\<close> held, its registers, its interrupt state and the CPU as before, and every
  other process that slept on \<open>chan\<close> is runnable.
\<close>

theorem sleep_wakeup_resume:
  assumes "procs_free s" "running p s" "p < NPROC" "noff (mycpu s) = 0" "lock_free l s"
    "\<forall>i. l \<noteq> LkProc i" "pstate (procs s p) = RUNNING"
  shows "\<exists>t. sleep ch l (acq l s) = Sched t \<and>
    bnd (scheduler_back p) (\<lambda>_.
    bnd (wakeup (Some ch)) (\<lambda>_.
    bnd (scheduler_try p) (\<lambda>_.
    sleep_resume (intena (mycpu s)) l))) t =
    Ok () (acq l (s\<lparr>procs := (woken ({..<NPROC} - {p}) (Some ch) (procs s))
      (p := (procs s p)\<lparr>pchan := None, pcontext := kregs s (this_hart s)\<rparr>)\<rparr>))"
proof -
  let ?h = "this_hart s"
  let ?P1 = "(procs s)(p := (procs s p)\<lparr>pchan := Some ch, pstate := SLEEPING\<rparr>)"
  let ?t1 = "to_scheduler p (s\<lparr>procs := ?P1\<rparr>)"
  let ?t2 = "upd_mycpu (\<lambda>c. c\<lparr>cpu_proc := None\<rparr>) ?t1"
  let ?t3 = "?t2\<lparr>procs := woken {..<NPROC} (Some ch) (procs ?t2)\<rparr>"
  let ?t4 = "to_process p (upd_mycpu (\<lambda>c. c\<lparr>cpu_proc := Some p\<rparr>)
      (?t3\<lparr>procs := (procs ?t3)(p := (procs ?t3 p)\<lparr>pstate := RUNNING\<rparr>)\<rparr>))"
  have ok: "cpu_ok s" "\<And>i. i < NPROC \<Longrightarrow> lock_free (LkProc i) s"
    using assms(1) by (auto simp: procs_free_def)
  have r: "cpu_proc (mycpu s) = Some p" using assms(2) by (simp add: running_def)
  have t1: "sleep ch l (acq l s) = Sched (acq (LkProc p) ?t1)"
    using assms ok by (intro sleep_eq) auto
  have ok1: "cpu_ok ?t1" "\<And>i. i < NPROC \<Longrightarrow> lock_free (LkProc i) ?t1" "lock_free l ?t1"
    using ok assms(5) by (simp_all add: to_scheduler_eq)
  have t2: "scheduler_back p (acq (LkProc p) ?t1) = Ok () ?t2"
    using ok1 assms(3) by (intro scheduler_back_eq) auto
  have ok2: "cpu_ok ?t2" "\<And>i. i < NPROC \<Longrightarrow> lock_free (LkProc i) ?t2" "lock_free l ?t2"
    using ok1 by (simp_all add: cpu_ok_upd_mycpu)
  have "wakeup (Some ch) ?t2 = Ok () (?t2\<lparr>procs := woken ({..<NPROC} - {j. cpu_proc (mycpu ?t2) = Some j}) (Some ch) (procs ?t2)\<rparr>)"
    using ok2 by (intro wakeup_eq) (auto simp: procs_free_def)
  then have t3: "wakeup (Some ch) ?t2 = Ok () ?t3" by simp
  have p3: "procs ?t3 p = (procs s p)\<lparr>pchan := Some ch, pstate := RUNNABLE, pcontext := kregs s ?h\<rparr>"
    using assms(3) by (simp add: woken_def to_scheduler_eq upd_mycpu_def)
  have t4: "scheduler_try p ?t3 = Ok True (acq (LkProc p) ?t4)"
    using ok2 assms(3) p3 by (subst scheduler_try_eq) auto
  have ok4: "cpu_ok ?t4" "lock_free (LkProc p) ?t4" "lock_free l ?t4"
    using ok2 assms(3) by (simp_all add: to_process_eq cpu_ok_upd_mycpu)
  have i4: "intena (mycpu ?t4) = intena (mycpu s)" "running p ?t4"
    by (simp_all add: to_process_eq to_scheduler_eq running_def)
  have t5: "sleep_resume (intena (mycpu s)) l (acq (LkProc p) ?t4) =
      Ok () (acq l (?t4\<lparr>procs := (procs ?t4)(p := (procs ?t4 p)\<lparr>pchan := None\<rparr>)\<rparr>))"
    using ok4 i4 by (intro sleep_resume_eq) auto
  have P4: "(procs ?t4)(p := (procs ?t4 p)\<lparr>pchan := None\<rparr>) =
      (woken ({..<NPROC} - {p}) (Some ch) (procs s))
        (p := (procs s p)\<lparr>pchan := None, pcontext := kregs s ?h\<rparr>)"
  proof
    fix i
    have "procs ?t4 p = (procs ?t3 p)\<lparr>pstate := RUNNING\<rparr>"
      by (simp add: to_process_eq upd_mycpu_def)
    moreover have "i \<noteq> p \<Longrightarrow> procs ?t4 i = woken ({..<NPROC} - {p}) (Some ch) (procs s) i"
      by (simp add: to_process_eq upd_mycpu_def to_scheduler_eq woken_def)
    ultimately show "((procs ?t4)(p := (procs ?t4 p)\<lparr>pchan := None\<rparr>)) i = ((woken ({..<NPROC} - {p}) (Some ch) (procs s))
        (p := (procs s p)\<lparr>pchan := None, pcontext := kregs s ?h\<rparr>)) i"
      using p3 assms(7) by simp
  qed
  have id: "(mycpu s)\<lparr>cpu_proc := Some p\<rparr> = mycpu s"
    using r by (cases "mycpu s") simp
  have "?t4\<lparr>procs := Q\<rparr> = s\<lparr>procs := Q\<rparr>" for Q
    using id assms(3)
    by (simp add: to_process_eq to_scheduler_eq woken_def upd_mycpu_def mycpu_def cpuid_def r_tp_def my_hart_def)
  then have e: "?t4\<lparr>procs := (procs ?t4)(p := (procs ?t4 p)\<lparr>pchan := None\<rparr>)\<rparr> =
      s\<lparr>procs := (woken ({..<NPROC} - {p}) (Some ch) (procs s))
        (p := (procs s p)\<lparr>pchan := None, pcontext := kregs s ?h\<rparr>)\<rparr>"
    unfolding P4 by simp
  show ?thesis
    by (rule exI [where x = "acq (LkProc p) ?t1"])
       (simp only: t1 bnd_app t2 t3 t4 t5 e outcome.case simp_thms)
qed

theorem sleep_wakeup_resume_witness:
  "\<exists>t. sleep ChTicks LkTicks (acq LkTicks one_kproc) = Sched t \<and>
    wp (bnd (scheduler_back 0) (\<lambda>_.
        bnd (wakeup (Some ChTicks)) (\<lambda>_.
        bnd (scheduler_try 0) (\<lambda>_.
        sleep_resume (intena (mycpu one_kproc)) LkTicks))))
      (\<lambda>_ u. pstate (procs u 0) = RUNNING \<and> pchan (procs u 0) = None \<and> holding LkTicks u) t"
proof -
  have h: "pstate (procs one_kproc 0) = RUNNING" "(0 :: nat) < NPROC"
    "\<forall>i. LkTicks \<noteq> LkProc i" "pstate one_proc = RUNNING"
    by (simp_all add: one_proc_def NPROC_def)
  show ?thesis
    using sleep_wakeup_resume [of one_kproc 0 LkTicks ChTicks] h by (auto simp: wp_def)
qed

section \<open>Wakeup and kill\<close>

text \<open>
  C28.  \<^verbatim>\<open>wakeup(chan)\<close> makes runnable exactly the processes that sleep on \<open>chan\<close>, other than
  the caller's own, and changes nothing else.
\<close>

theorem wakeup_exact:
  assumes "procs_free s"
  shows "wakeup ch s = Ok () (s\<lparr>procs := (\<lambda>i.
      if i < NPROC \<and> cpu_proc (mycpu s) \<noteq> Some i \<and> pstate (procs s i) = SLEEPING \<and> pchan (procs s i) = ch
      then (procs s i)\<lparr>pstate := RUNNABLE\<rparr> else procs s i)\<rparr>)"
proof -
  have "woken ({..<NPROC} - {j. cpu_proc (mycpu s) = Some j}) ch (procs s) = (\<lambda>i.
      if i < NPROC \<and> cpu_proc (mycpu s) \<noteq> Some i \<and> pstate (procs s i) = SLEEPING \<and> pchan (procs s i) = ch
      then (procs s i)\<lparr>pstate := RUNNABLE\<rparr> else procs s i)"
    by (auto simp: woken_def)
  with wakeup_eq [OF assms] show ?thesis by simp
qed

theorem wakeup_exact_witness:
  "\<exists>t. wakeup (Some ChTicks) one_kproc = Ok () t \<and> pstate (procs t 0) = RUNNING"
  using wakeup_exact [of one_kproc "Some ChTicks"] by (simp add: one_proc_def)

lemma upd_mycpu_kproc [simp]:
  "procs (upd_mycpu f s) = procs s" "kregs (upd_mycpu f s) = kregs s"
  "this_hart (upd_mycpu f s) = this_hart s"
  by (simp_all add: upd_mycpu_def)

lemma scheduler_try_runnable:
  assumes "cpu_ok s" "lock_free (LkProc p) s" "pstate (procs s p) = RUNNABLE"
  shows "wp (scheduler_try p) (\<lambda>b t. b \<and> pstate (procs t p) = RUNNING \<and> running p t \<and>
    holding (LkProc p) t \<and> kregs t (this_hart t) = pcontext (procs s p)) s"
  using assms by (simp add: wp_def scheduler_try_eq to_process_eq running_def)

lemma upt_split: "k < n \<Longrightarrow> [0..<n] = [0..<k] @ k # [Suc k..<n]"
  using upt_add_eq_append [of 0 k "n - k"] by (simp add: upt_conv_Cons)

lemma kill_scan_skip:
  assumes "cpu_ok s" "\<forall>i \<in> set xs. lock_free (LkProc i) s \<and> pid (procs s i) \<noteq> n"
  shows "kill_scan n (xs @ ys) s = kill_scan n ys s"
  using assms by (induction xs) (auto simp: getp_def)

text \<open>
  C29.  \<^verbatim>\<open>kill(pid)\<close> returns -1 and changes nothing when no process has this pid.  Otherwise it
  returns 0; it sets \<^verbatim>\<open>killed\<close> of the first such process, makes it runnable if it sleeps, so
  that it can notice, and changes nothing else.
\<close>

theorem kill_spec:
  assumes "procs_free s"
  shows "kill n s = (case find (\<lambda>i. pid (procs s i) = n) [0..<NPROC] of
      None \<Rightarrow> Ok (-1) s
    | Some i \<Rightarrow> Ok 0 (s\<lparr>procs := (procs s)(i := (procs s i)\<lparr>killed := True,
        pstate := (if pstate (procs s i) = SLEEPING then RUNNABLE else pstate (procs s i))\<rparr>)\<rparr>))"
proof (cases "find (\<lambda>i. pid (procs s i) = n) [0..<NPROC]")
  case None
  then have "\<forall>i \<in> set [0..<NPROC]. lock_free (LkProc i) s \<and> pid (procs s i) \<noteq> n"
    using assms by (auto simp: find_None_iff procs_free_def)
  then have "kill n s = kill_scan n [] s"
    using kill_scan_skip [of s "[0..<NPROC]" n "[]"] assms by (simp add: kill_def)
  with None show ?thesis by simp
next
  case (Some i)
  then obtain k where k: "k < NPROC" "pid (procs s k) = n" "i = k" "\<forall>j<k. pid (procs s j) \<noteq> n"
    by (auto simp: find_Some_iff)
  have l: "[0..<NPROC] = [0..<k] @ k # [Suc k..<NPROC]"
    by (rule upt_split [OF k(1)])
  have "\<forall>j \<in> set [0..<k]. lock_free (LkProc j) s \<and> pid (procs s j) \<noteq> n"
    using assms k by (auto simp: procs_free_def)
  then have "kill n s = kill_scan n (k # [Suc k..<NPROC]) s"
    unfolding kill_def l using assms by (intro kill_scan_skip) auto
  moreover have "lock_free (LkProc k) s" using assms k(1) by (simp add: procs_free_def)
  moreover have "(procs s k)\<lparr>killed := True, pstate := pstate (procs s k)\<rparr> = (procs s k)\<lparr>killed := True\<rparr>"
    by (cases "procs s k") simp
  ultimately show ?thesis
    using Some k assms by (simp add: getp_def set_proc_def upd_proc_def)
qed

theorem kill_spec_witness:
  "\<exists>t. kill 1 one_kproc = Ok 0 t \<and> killed (procs t 0)"
proof -
  have "find (\<lambda>i. pid (procs one_kproc i) = 1) [0..<NPROC] = Some 0"
    by (simp add: NPROC_def upt_conv_Cons one_proc_def)
  then show ?thesis using kill_spec [of one_kproc 1] by simp
qed

section \<open>The scheduler's loop\<close>

lemma scheduler_scan_find:
  assumes "procs_free s" "set xs \<subseteq> {..<NPROC}"
  shows "\<exists>t. scheduler_scan xs s = Ok (find (\<lambda>i. pstate (procs s i) = RUNNABLE) xs) t \<and>
    (\<forall>i. find (\<lambda>i. pstate (procs s i) = RUNNABLE) xs = Some i \<longrightarrow> pstate (procs t i) = RUNNING \<and> running i t \<and>
      holding (LkProc i) t \<and> kregs t (this_hart t) = pcontext (procs s i))"
  using assms(2)
proof (induction xs)
  case (Cons x xs)
  have x: "cpu_ok s" "lock_free (LkProc x) s" using assms(1) Cons.prems by (simp_all add: procs_free_def)
  show ?case
  proof (cases "pstate (procs s x) = RUNNABLE")
    case True
    then show ?thesis using scheduler_try_runnable [OF x True] by (auto simp: wp_iff)
  next
    case False
    then show ?thesis using Cons scheduler_try_eq [OF x] by simp
  qed
qed simp

text \<open>
  A round begins with interrupts on, whatever \<^verbatim>\<open>intena\<close> still says; the first \<^verbatim>\<open>push_off\<close> sets it.
\<close>

lemma push_off_intena: "noff (mycpu s) = 0 \<Longrightarrow> push_off (upd_mycpu (\<lambda>c. c\<lparr>intena := b\<rparr>) s) = push_off s"
  by (simp add: push_off_def upd_mycpu_def fun_eq_iff mach_defs intr_get_def)

definition resumable :: "nat option \<Rightarrow> 'a kproc_scheme \<Rightarrow> bool" where
  \<comment> \<open>the scheduler holds no lock, or only the one of the process that has switched back to it\<close>
  "resumable r s \<longleftrightarrow> (case r of None \<Rightarrow> procs_free s \<and> noff (mycpu s) = 0
     | Some i \<Rightarrow> i < NPROC \<and> (\<exists>u. s = acq (LkProc i) u \<and> procs_free u))"

definition position :: "nat option \<Rightarrow> nat" where
  "position r = (case r of None \<Rightarrow> 0 | Some i \<Rightarrow> Suc i)"

lemma scan_intena:
  assumes "noff (mycpu s) = 0" "xs \<noteq> []"
  shows "scheduler_scan xs (upd_mycpu (\<lambda>c. c\<lparr>intena := b\<rparr>) s) = scheduler_scan xs s"
  using assms(2) push_off_intena [OF assms(1), of b] by (cases xs) (simp_all add: scheduler_try_def acquire_def bnd_def)

lemma resume_scan:
  assumes "resumable r s"
  obtains u where "scheduler_resume r s = scheduler_scan [position r..<NPROC] u" "procs_free u" "procs u = procs s"
proof (cases r)
  case None
  let ?u = "upd_mycpu (\<lambda>c. c\<lparr>intena := True\<rparr>) (intr_on s)"
  have s: "procs_free s" "noff (mycpu s) = 0" using assms None by (simp_all add: resumable_def)
  have "scheduler_resume r s = scheduler_scan [0..<NPROC] ?u"
    using scan_intena [of "intr_on s" "[0..<NPROC]" True] s(2) by (simp add: None NPROC_def)
  moreover have "procs_free ?u" using s by (auto simp: procs_free_def cpu_ok_def lock_free_def)
  moreover have "procs ?u = procs s" by (simp add: mach_defs)
  ultimately show thesis using that None by (simp add: position_def)
next
  case (Some i)
  then obtain u where u: "i < NPROC" "s = acq (LkProc i) u" "procs_free u" using assms by (auto simp: resumable_def)
  have "scheduler_back i s = Ok () (upd_mycpu (\<lambda>c. c\<lparr>cpu_proc := None\<rparr>) u)"
    using scheduler_back_eq [of u i] u by (simp add: procs_free_def)
  moreover have "procs_free (upd_mycpu (\<lambda>c. c\<lparr>cpu_proc := None\<rparr>) u)"
    using u(3) by (simp add: procs_free_def cpu_ok_upd_mycpu lock_free_def)
  ultimately show thesis using that [of "upd_mycpu (\<lambda>c. c\<lparr>cpu_proc := None\<rparr>) u"] Some u(2) by (simp add: position_def)
qed

lemma resume_spec:
  assumes "resumable r s"
  defines "f \<equiv> find (\<lambda>i. pstate (procs s i) = RUNNABLE) [position r..<NPROC]"
  shows "\<exists>t. scheduler_resume r s = Ok f t \<and> (\<forall>i. f = Some i \<longrightarrow> pstate (procs t i) = RUNNING \<and> running i t \<and>
    holding (LkProc i) t \<and> kregs t (this_hart t) = pcontext (procs s i))"
proof -
  obtain u where u: "scheduler_resume r s = scheduler_scan [position r..<NPROC] u" "procs_free u" "procs u = procs s"
    by (rule resume_scan [OF assms(1)])
  have "set [position r..<NPROC] \<subseteq> {..<NPROC}" by auto
  from scheduler_scan_find [OF u(2) this] show ?thesis by (simp add: f_def u(1,3))
qed

text \<open>The number of calls after which it is the turn of \<open>p\<close> at the latest.\<close>

definition turns :: "nat \<Rightarrow> nat option \<Rightarrow> nat" where
  "turns p r = (if position r \<le> p then p - position r else NPROC - position r + Suc p)"

lemma turns_decrease:
  assumes "p < NPROC" "pstate (procs s p) = RUNNABLE" "position r \<le> NPROC"
    "r' = find (\<lambda>i. pstate (procs s i) = RUNNABLE) [position r..<NPROC]" "r' \<noteq> Some p"
  shows "turns p r' < turns p r \<and> position r' \<le> NPROC"
proof (cases r')
  case None
  then have "\<not> position r \<le> p" using assms(1,2,4) by (auto simp: find_None_iff)
  then show ?thesis using None assms(1) by (simp add: turns_def position_def)
next
  case (Some i)
  then obtain k where k: "k < NPROC - position r" "i = position r + k" "\<forall>j<k. pstate (procs s (position r + j)) \<noteq> RUNNABLE"
    using assms(4) [symmetric] by (auto simp: find_Some_iff)
  have "\<not> (position r \<le> p \<and> p < i)"
  proof
    assume "position r \<le> p \<and> p < i"
    then have "p - position r < k" "position r + (p - position r) = p" using k(2) by auto
    then show False using k(3) assms(2) by metis
  qed
  moreover have "i \<noteq> p" using Some assms(5) by simp
  ultimately show ?thesis using k(1,2) Some assms(1) by (auto simp: turns_def position_def)
qed

text \<open>
  C18.  The scheduler is fair.  Let \<open>S j\<close> be the state when the scheduler of a CPU goes on for the
  \<open>j\<close>-th time, be it at the beginning of a round or because the process it had switched to has
  switched back, and \<open>R\<close> the processes it switches to (\<open>None\<close> at the end of a round); in between the
  processes and the other CPUs may do anything.  It always goes on, and if process \<open>p\<close> stays
  runnable, then after at most \<open>NPROC\<close> other switches or ends of rounds the scheduler switches to
  \<open>p\<close>, which is then running with the registers of its context, and its lock is held.
\<close>

theorem scheduler_bounded_waiting:
  fixes S T :: "nat \<Rightarrow> 'a kproc_scheme"
  assumes "p < NPROC"
    "\<And>j. \<forall>i. 0 < i \<and> i \<le> j \<longrightarrow> R i \<noteq> Some p \<Longrightarrow> resumable (R j) (S j) \<and> pstate (procs (S j) p) = RUNNABLE \<and>
      scheduler_resume (R j) (S j) = Ok (R (Suc j)) (T j)"
  shows "(\<forall>r (s :: 'a kproc_scheme). resumable r s \<longrightarrow> (\<exists>r' t. scheduler_resume r s = Ok r' t)) \<and>
    (\<exists>j \<le> NPROC. R (Suc j) = Some p \<and> pstate (procs (T j) p) = RUNNING \<and> running p (T j) \<and> holding (LkProc p) (T j) \<and>
      kregs (T j) (this_hart (T j)) = pcontext (procs (S j) p))"
proof -
  have "\<exists>j \<le> NPROC. R (Suc j) = Some p"
  proof (rule ccontr)
    assume "\<not> (\<exists>j \<le> NPROC. R (Suc j) = Some p)"
    then have n: "R i \<noteq> Some p" if "0 < i" "i \<le> Suc NPROC" for i using that by (cases i) auto
    have "turns p (R j) + j \<le> NPROC \<and> position (R j) \<le> NPROC" if "j \<le> Suc NPROC" for j
      using that
    proof (induction j)
      case 0
      have "resumable (R 0) (S 0)" using assms(2) [of 0] by simp
      then have "position (R 0) \<le> NPROC" by (auto simp: resumable_def position_def split: option.splits)
      then show ?case using assms(1) by (auto simp: turns_def)
    next
      case (Suc j)
      then have "\<forall>i. 0 < i \<and> i \<le> j \<longrightarrow> R i \<noteq> Some p" using n by simp
      from assms(2) [OF this] have j: "resumable (R j) (S j)" "pstate (procs (S j) p) = RUNNABLE"
        "scheduler_resume (R j) (S j) = Ok (R (Suc j)) (T j)" by blast+
      then have "R (Suc j) = find (\<lambda>i. pstate (procs (S j) i) = RUNNABLE) [position (R j)..<NPROC]"
        using resume_spec [OF j(1)] by auto
      from turns_decrease [OF assms(1) j(2) _ this] show ?case using Suc n [of "Suc j"] by simp
    qed
    from this [of "Suc NPROC"] show False by simp
  qed
  then obtain j where j: "R (Suc j) = Some p" "j \<le> NPROC" "\<forall>i < j. R (Suc i) \<noteq> Some p"
    using exists_least_iff [of "\<lambda>j. j \<le> NPROC \<and> R (Suc j) = Some p"] by (metis less_imp_le order_trans)
  then have "\<forall>i. 0 < i \<and> i \<le> j \<longrightarrow> R i \<noteq> Some p" by (metis Suc_le_lessD gr0_implies_Suc)
  from assms(2) [OF this] show ?thesis
    using resume_spec [of "R j" "S j"] j(1,2) resume_spec by (intro conjI exI [of _ j]) (blast, auto)
qed

theorem scheduler_bounded_waiting_witness:
  "\<exists>t. scheduler_resume None (one_kproc\<lparr>procs := (procs one_kproc)(5 := zero_proc\<lparr>pstate := RUNNABLE\<rparr>)\<rparr>) =
     Ok (Some 5) t \<and> pstate (procs t 5) = RUNNING"
proof -
  let ?s = "one_kproc\<lparr>procs := (procs one_kproc)(5 := zero_proc\<lparr>pstate := RUNNABLE\<rparr>)\<rparr>"
  let ?R = "\<lambda>j. if j = 0 then None else Some 5" and ?S = "\<lambda>_ :: nat. ?s"
  have r: "resumable None ?s" by (simp add: resumable_def procs_free_def)
  have "find (\<lambda>i. pstate (procs ?s i) = RUNNABLE) [position None..<NPROC] = Some 5"
    by (simp add: position_def NPROC_def upt_conv_Cons one_proc_def zero_proc_def)
  then obtain t where t: "scheduler_resume None ?s = Ok (Some 5) t" using resume_spec [OF r] by auto
  have "resumable (?R j) (?S j) \<and> pstate (procs (?S j) 5) = RUNNABLE \<and> scheduler_resume (?R j) (?S j) = Ok (?R (Suc j)) t"
    if "\<forall>i. 0 < i \<and> i \<le> j \<longrightarrow> ?R i \<noteq> Some 5" for j
  proof -
    have "j = 0" using that [rule_format, of j] by (cases j) auto
    then show ?thesis using r t by simp
  qed
  from scheduler_bounded_waiting [of 5 ?R ?S "\<lambda>_. t", OF _ this] have "pstate (procs t 5) = RUNNING"
    by (auto simp: NPROC_def)
  then show ?thesis using t by blast
qed

end
