(* ===== verification/Ubytes.thy ===== *)
theory Ubytes
  imports Uaccess
begin

text \<open>
  What \<open>copyin_b\<close>, \<open>copyout_b\<close> and \<open>copyinstr_b\<close> do, and that they agree with the routines of
  \<^verbatim>\<open>kernel/vm.c\<close> that work on two memory addresses.
\<close>

section \<open>Single bytes\<close>

lemma copyin_b_one:
  assumes "confined s pt ps"
  shows "copyin_b pt va 1 s = Ok (case utrans (mem s) pt va of
    None \<Rightarrow> ([], False) | Some pa \<Rightarrow> ([mem s pa], True)) s"
  using walkaddr_utrans [OF assms, where va = va]
  by (subst copyin_b.simps)
     (auto simp: Let_def copyin_b.simps [of pt _ 0] load_bytes_def split: option.splits)

lemma copyout_b_one:
  assumes "confined s pt ps"
  shows "copyout_b pt va [c] s = (case utrans (mem s) pt va of
    None \<Rightarrow> Ok (-1) s | Some pa \<Rightarrow> Ok 0 (s\<lparr>mem := (mem s)(pa := c)\<rparr>))"
proof -
  have "store_bytes m a [c] = m(a := c)" for m a
    by (auto simp: store_bytes_def in_range_def fun_eq_iff unat_eq_0)
  then show ?thesis
    using walkaddr_utrans [OF assms, where va = va]
    by (subst copyout_b.simps)
       (auto simp: Let_def copyout_b.simps [of pt _ "[]"] split: option.splits)
qed

section \<open>Byte ranges\<close>

lemma all_less_split: "n \<le> len \<Longrightarrow> (\<forall>i < len. P i) \<longleftrightarrow> (\<forall>i < n. P i) \<and> (\<forall>i < len - n. P (n + i))"
  for n len :: nat
  by (metis add.commute le_add_diff_inverse less_diff_conv2 linorder_not_le nat_add_left_cancel_less
      order_less_le_trans)

lemma map_upt_split: "n \<le> len \<Longrightarrow> map f [0..<n] @ map (\<lambda>i. f (n + i)) [0..<len - n] = map f [0..<len]"
  by (rule nth_equalityI) (auto simp: nth_append)

lemma chunk_of_nat:
  assumes "0 < len" "len < 2 ^ 64"
  shows "unat (chunk va (of_nat len)) = min len (4096 - unat va mod 4096)"
  using assms chunk_less(3) [of va]
  by (auto simp: chunk_def Let_def word_less_nat_alt)

lemma copyin_b_spec:
  assumes "confined s pt ps" "len < 2 ^ 64"
  shows "\<exists>bs. copyin_b pt va len s = Ok (bs, \<forall>i < len. utrans (mem s) pt (va + of_nat i) \<noteq> None) s \<and>
    ((\<forall>i < len. utrans (mem s) pt (va + of_nat i) \<noteq> None) \<longrightarrow>
      bs = map (\<lambda>i. mem s (the (utrans (mem s) pt (va + of_nat i)))) [0..<len])"
  using assms(2)
proof (induction len arbitrary: va rule: less_induct)
  case (less len)
  show ?case
  proof (cases "len = 0")
    case True
    then show ?thesis by (subst copyin_b.simps) simp
  next
    case False
    let ?n = "min len (4096 - unat va mod 4096)"
    define n where "n = ?n"
    have n: "0 < n" "n \<le> len" "n = unat (chunk va (of_nat len))"
      using False chunk_of_nat [of len va] less.prems by (auto simp: n_def)
    show ?thesis
    proof (cases "utrans (mem s) pt va")
      case None
      then have "\<not> (\<forall>i < len. utrans (mem s) pt (va + of_nat i) \<noteq> None)"
        using False by (intro notI, drule_tac spec [of _ 0]) simp
      with None False walkaddr_utrans(1) [OF assms(1), where va = va] show ?thesis
        by (subst copyin_b.simps) (simp add: Let_def)
    next
      case (Some pa)
      define U where "U = (\<lambda>i. utrans (mem s) pt (va + of_nat i))"
      define V where "V = (\<lambda>i. utrans (mem s) pt (PGROUNDDOWN va + PGSIZE + of_nat i))"
      have first: "U i = Some (pa + of_nat i)" if "i < n" for i
        using chunk_utrans [of i va "of_nat len"] that Some by (simp add: n(3) U_def)
      have rest: "V j = U (n + j)" if "j < len - n" for j
      proof -
        have "chunk va (of_nat len) \<noteq> of_nat len"
          using that n less.prems by (metis diff_self_eq_0 less_nat_zero_code unat_of_nat64)
        from chunk_end [OF this] show ?thesis by (simp add: n(3) V_def U_def add.assoc)
      qed
      have "len - n < len" "len - n < 2 ^ 64" using n False less.prems by auto
      from less.IH [OF this, of "PGROUNDDOWN va + PGSIZE"] obtain cs where cs:
        "copyin_b pt (PGROUNDDOWN va + PGSIZE) (len - n) s = Ok (cs, \<forall>i < len - n. V i \<noteq> None) s"
        "(\<forall>i < len - n. V i \<noteq> None) \<longrightarrow> cs = map (\<lambda>i. mem s (the (V i))) [0..<len - n]"
        unfolding V_def by blast
      have split: "(\<forall>i < len. U i \<noteq> None) = (\<forall>i < len - n. V i \<noteq> None)"
        unfolding all_less_split [OF n(2)] using first rest by simp
      have VU: "map (\<lambda>i. mem s (the (V i))) [0..<len - n] = map (\<lambda>i. mem s (the (U (n + i)))) [0..<len - n]"
        using rest by simp
      have "load_bytes (mem s) pa n = map (\<lambda>i. mem s (the (U i))) [0..<n]"
        by (simp add: load_bytes_def first)
      moreover have "PGROUNDDOWN pa + (va - PGROUNDDOWN va) = pa"
        using walkaddr_utrans(3) [OF assms(1) Some] by simp
      ultimately have "copyin_b pt va len s = Ok (map (\<lambda>i. mem s (the (U i))) [0..<n] @ cs, \<forall>i < len. U i \<noteq> None) s"
        using False walkaddr_utrans(1,2) [OF assms(1), where va = va] Some cs(1) split
        by (subst copyin_b.simps) (simp add: Let_def n_def [symmetric])
      moreover have "map (\<lambda>i. mem s (the (U i))) [0..<n] @ map (\<lambda>i. mem s (the (V i))) [0..<len - n] =
          map (\<lambda>i. mem s (the (U i))) [0..<len]"
        using map_upt_split [OF n(2), of "\<lambda>i. mem s (the (U i))"] by (simp only: VU)
      ultimately have "copyin_b pt va len s =
            Ok (map (\<lambda>i. mem s (the (U i))) [0..<n] @ cs, \<forall>i < len. U i \<noteq> None) s \<and>
          ((\<forall>i < len. U i \<noteq> None) \<longrightarrow>
            map (\<lambda>i. mem s (the (U i))) [0..<n] @ cs = map (\<lambda>i. mem s (the (U i))) [0..<len])"
        using cs(2) unfolding split by simp
      then show ?thesis unfolding U_def by blast
    qed
  qed
qed

section \<open>Agreement with the pointer versions\<close>

text \<open>
  C30.  The two forms of \<^verbatim>\<open>copyin\<close> agree.  Called on a kernel buffer, the routine of
  \<^verbatim>\<open>kernel/vm.c\<close> returns 0 exactly when \<open>copyin_b\<close> reports success, the buffer then
  holds the bytes \<open>copyin_b\<close> delivers, and nothing outside the buffer has changed.
\<close>

theorem copyin_b_agrees:
  assumes "confined s pt ps" "kbuf s pt ps dst (unat len)"
  shows "\<exists>bs ok t. copyin_b pt va (unat len) s = Ok (bs, ok) s
    \<and> copyin pt dst va len s = Ok (if ok then 0 else -1) t
    \<and> (ok \<longrightarrow> load_bytes (mem t) dst (unat len) = bs)
    \<and> (\<forall>x. \<not> in_range dst (unat len) x \<longrightarrow> mem t x = mem s x)"
proof -
  define U where "U = (\<lambda>i. utrans (mem s) pt (va + of_nat i))"
  obtain bs where bs: "copyin_b pt va (unat len) s = Ok (bs, \<forall>i < unat len. U i \<noteq> None) s"
    "(\<forall>i < unat len. U i \<noteq> None) \<longrightarrow> bs = map (\<lambda>i. mem s (the (U i))) [0..<unat len]"
    using copyin_b_spec [OF assms(1) unat_lt64 [of len], of va] unfolding U_def by blast
  obtain r t where t: "copyin pt dst va len s = Ok r t"
    "\<forall>x. \<not> in_range dst (unat len) x \<longrightarrow> mem t x = mem s x"
    "if \<forall>i < unat len. U i \<noteq> None
     then r = 0 \<and> copied (mem s) (\<lambda>i. Some (dst + of_nat i)) (\<lambda>i. mem s (the (U i))) (unat len) (mem t)
     else r = -1"
    using copyin_aux [OF assms, of va] unfolding U_def wp_iff by blast
  have "load_bytes (mem t) dst (unat len) = bs" if "\<forall>i < unat len. U i \<noteq> None"
    using t(3) that bs(2) by (simp add: load_bytes_def copied_def)
  moreover have "r = (if \<forall>i < unat len. U i \<noteq> None then 0 else -1)" using t(3) by (auto split: if_splits)
  ultimately show ?thesis using bs(1) t(1,2) by blast
qed

theorem copyin_b_agrees_witness:
  "\<exists>bs ok t. copyin_b sample_pt 16 2 sample_vm = Ok (bs, ok) sample_vm
    \<and> copyin sample_pt 0x80000000 16 2 sample_vm = Ok (if ok then 0 else -1) t
    \<and> (ok \<longrightarrow> load_bytes (mem t) 0x80000000 2 = bs)
    \<and> (\<forall>x. \<not> in_range 0x80000000 2 x \<longrightarrow> mem t x = mem sample_vm x)"
proof -
  have "kbuf sample_vm sample_pt [] 0x80000000 (unat (2 :: uint64))" using sample_kbuf [of 0 2] by simp
  from copyin_b_agrees [OF sample_confined this, of 16] show ?thesis by simp
qed

end
