(* ===== verification/Bcache.thy ===== *)
theory Bcache
  imports Bio
begin

text \<open>
  The buffer cache of \<^verbatim>\<open>kernel/bio.c\<close> is correct: its linked list is a permutation of the
  buffers in least-recently-used order, no block is cached twice, and a process that reads a
  block gets the newest contents of it.
\<close>

section \<open>Locks and the block fields are independent\<close>

lemma acq_kblk [simp]:
  "bufs (acq l s) = bufs s" "vdisk (acq l s) = vdisk s" "disk (acq l s) = disk s" 
  "dwrites (acq l s) = dwrites s"
  by (simp_all add: acq_def mach_defs)

lemma acq_kblk_upd [simp]:
  "bufs_update f0 (acq l s) = acq l (bufs_update f0 s)" 
  "vdisk_update f1 (acq l s) = acq l (vdisk_update f1 s)" 
  "disk_update f2 (acq l s) = acq l (disk_update f2 s)" 
  "dwrites_update f3 (acq l s) = acq l (dwrites_update f3 s)"
  by (simp_all add: acq_def mach_defs)

lemma cpu_ok_kblk [simp]:
  "cpu_ok (bufs_update f0 s) = cpu_ok s" "cpu_ok (vdisk_update f1 s) = cpu_ok s" 
  "cpu_ok (disk_update f2 s) = cpu_ok s" "cpu_ok (dwrites_update f3 s) = cpu_ok s"
  by (simp_all add: cpu_ok_def intr_get_def mach_defs)

lemma lock_free_kblk [simp]:
  "lock_free l (bufs_update f0 s) = lock_free l s" 
  "lock_free l (vdisk_update f1 s) = lock_free l s" 
  "lock_free l (disk_update f2 s) = lock_free l s" 
  "lock_free l (dwrites_update f3 s) = lock_free l s"
  by (simp_all add: lock_free_def)

lemma mycpu_kblk [simp]:
  "mycpu (bufs_update f0 s) = mycpu s" "mycpu (vdisk_update f1 s) = mycpu s" 
  "mycpu (disk_update f2 s) = mycpu s" "mycpu (dwrites_update f3 s) = mycpu s"
  by (simp_all add: mach_defs)

lemma running_kblk [simp]:
  "running p (bufs_update f0 s) = running p s" "running p (vdisk_update f1 s) = running p s" 
  "running p (disk_update f2 s) = running p s" "running p (dwrites_update f3 s) = running p s"
  by (simp_all add: running_def)

lemma procs_free_kblk [simp]:
  "procs_free (bufs_update f0 s) = procs_free s" "procs_free (vdisk_update f1 s) = procs_free s" 
  "procs_free (disk_update f2 s) = procs_free s" "procs_free (dwrites_update f3 s) = procs_free s"
  by (simp_all add: procs_free_def)

section \<open>The linked list\<close>

fun chain :: "(nat \<Rightarrow> buf) \<Rightarrow> nat \<Rightarrow> nat list \<Rightarrow> nat \<Rightarrow> bool" where
  \<comment> \<open>from \<open>a\<close> through the list to \<open>z\<close>, along \<^verbatim>\<open>next\<close> and back along \<^verbatim>\<open>prev\<close>\<close>
  "chain B a [] z \<longleftrightarrow> b_next (B a) = z \<and> b_prev (B z) = a"
| "chain B a (x # xs) z \<longleftrightarrow> b_next (B a) = x \<and> b_prev (B x) = a \<and> chain B x xs z"

definition lru :: "(nat \<Rightarrow> buf) \<Rightarrow> nat list \<Rightarrow> bool" where
  \<comment> \<open>the list holds every buffer once, most recently used first\<close>
  "lru B xs \<longleftrightarrow> distinct xs \<and> set xs = {..<NBUF} \<and> chain B NBUF xs NBUF"

lemma chain_append: "chain B a (xs @ y # ys) z \<longleftrightarrow> chain B a xs y \<and> chain B y ys z"
  by (induction xs arbitrary: a) auto

lemma chain_next: "chain B a xs z \<Longrightarrow> b_next (B a) = hd (xs @ [z])"
  by (cases xs) auto

lemma chain_prev: "chain B a xs z \<Longrightarrow> b_prev (B z) = last (a # xs)"
  by (induction xs arbitrary: a) auto

lemma chain_cong:
  "b_next (B a) = b_next (B' a) \<Longrightarrow> b_prev (B z) = b_prev (B' z) \<Longrightarrow>
    (\<And>x. x \<in> set xs \<Longrightarrow> b_next (B x) = b_next (B' x) \<and> b_prev (B x) = b_prev (B' x)) \<Longrightarrow>
    chain B a xs z = chain B' a xs z"
  by (induction xs arbitrary: a) auto

lemma lru_cong:
  assumes "\<And>x. b_next (B x) = b_next (B' x)" "\<And>x. b_prev (B x) = b_prev (B' x)"
  shows "lru B xs = lru B' xs"
  using assms chain_cong [of B NBUF B' NBUF xs] by (simp add: lru_def)

lemma lru_length: "lru B xs \<Longrightarrow> length xs = NBUF"
  by (metis lru_def card_lessThan distinct_card)

lemma lru_head: "lru B xs \<Longrightarrow> NBUF \<notin> set xs" by (simp add: lru_def)

lemma find_cached_eq:
  assumes "chain (bufs s) a xs NBUF" "NBUF \<notin> set xs" "length xs < f"
  shows "find_cached f dev n (b_next (bufs s a)) s =
    Ok (List.find (\<lambda>b. b_dev (bufs s b) = dev \<and> b_blockno (bufs s b) = n) xs) s"
  using assms
proof (induction xs arbitrary: a f)
  case Nil
  then show ?case by (cases f) auto
next
  case (Cons x xs)
  then show ?case by (cases f) (auto simp: getb_def)
qed

lemma find_lru_eq:
  assumes "chain (bufs s) NBUF xs z" "NBUF \<notin> set xs" "length xs < f"
  shows "find_lru f (b_prev (bufs s z)) s = Ok (List.find (\<lambda>b. b_refcnt (bufs s b) = 0) (rev xs)) s"
  using assms
proof (induction xs arbitrary: z f rule: rev_induct)
  case Nil
  then show ?case by (cases f) auto
next
  case (snoc x xs)
  then show ?case by (cases f) (auto simp: getb_def chain_append)
qed

text \<open>Taking a buffer out of the list and putting it in front.\<close>

definition unlink :: "nat \<Rightarrow> (nat \<Rightarrow> buf) \<Rightarrow> nat \<Rightarrow> buf" where
  "unlink b B = (let B1 = B(b_next (B b) := (B (b_next (B b)))\<lparr>b_prev := b_prev (B b)\<rparr>) in
     B1(b_prev (B1 b) := (B1 (b_prev (B1 b)))\<lparr>b_next := b_next (B1 b)\<rparr>))"

definition link_front :: "nat \<Rightarrow> (nat \<Rightarrow> buf) \<Rightarrow> nat \<Rightarrow> buf" where
  "link_front b B = (let nx = b_next (B NBUF);
     B1 = B(b := (B b)\<lparr>b_next := nx, b_prev := NBUF\<rparr>);
     B2 = B1(b_next (B1 NBUF) := (B1 (b_next (B1 NBUF)))\<lparr>b_prev := b\<rparr>) in
     B2(NBUF := (B2 NBUF)\<lparr>b_next := b\<rparr>))"

lemma move_to_head_eq: "move_to_head b s = Ok () (s\<lparr>bufs := link_front b (unlink b (bufs s))\<rparr>)"
  by (simp add: move_to_head_def getb_def upd_buf_def unlink_def link_front_def Let_def)

lemma unlink_ptrs:
  assumes "b_next (B b) \<noteq> b"
  shows "b_next (unlink b B x) = (if x = b_prev (B b) then b_next (B b) else b_next (B x))"
    "b_prev (unlink b B x) = (if x = b_next (B b) then b_prev (B b) else b_prev (B x))"
  using assms by (simp_all add: unlink_def Let_def)

lemma link_front_ptrs:
  assumes "b \<noteq> NBUF" "b_next (B NBUF) \<noteq> b"
  shows "b_next (link_front b B x) = (if x = NBUF then b else if x = b then b_next (B NBUF) else b_next (B x))"
    "b_prev (link_front b B x) = (if x = b_next (B NBUF) then b else if x = b then NBUF else b_prev (B x))"
  using assms by (simp_all add: link_front_def Let_def)

lemma chain_unlink:
  assumes "chain B a (ys @ b # zs) z" "distinct (ys @ b # zs)" "a \<notin> set (ys @ b # zs)" "z \<notin> set (ys @ b # zs)"
  shows "chain (unlink b B) a (ys @ zs) z"
  using assms
proof (induction ys arbitrary: a)
  case Nil
  have n: "b_next (B b) = hd (zs @ [z])" using Nil.prems(1) chain_next [of B b zs z] by simp
  then have "b_next (B b) \<noteq> b" using Nil.prems by (cases zs) auto
  note u = unlink_ptrs [where B = B and b = b, OF this]
  show ?case
  proof (cases zs)
    case Nil
    then show ?thesis using Nil.prems n by (auto simp: u)
  next
    case (Cons y ys)
    then have "chain (unlink b B) y ys z = chain B y ys z"
      using Nil.prems n by (intro chain_cong) (auto simp: u)
    then show ?thesis using Cons Nil.prems n by (auto simp: u)
  qed
next
  case (Cons y ys)
  have c: "chain B a (y # ys) b" "chain B b zs z" using Cons.prems(1) chain_append [of B a "y # ys" b zs z] by simp_all
  have n: "b_next (B b) = hd (zs @ [z])" using chain_next [OF c(2)] .
  then have "b_next (B b) \<noteq> b" using Cons.prems by (cases zs) auto
  note u = unlink_ptrs [where B = B and b = b, OF this]
  have "b_prev (B b) = last (y # ys)" using chain_prev [OF c(1)] by simp
  then have "a \<noteq> b_prev (B b)" using Cons.prems(3) last_in_set [of "y # ys"] by auto
  moreover have "y \<noteq> b_next (B b)" using n Cons.prems by (cases zs) auto
  ultimately show ?case using Cons.prems Cons.IH [of y] by (auto simp: u)
qed

lemma chain_link_front:
  assumes "chain B NBUF xs NBUF" "distinct xs" "NBUF \<notin> set xs" "b \<notin> set xs" "b \<noteq> NBUF"
  shows "chain (link_front b B) NBUF (b # xs) NBUF"
proof -
  have n: "b_next (B NBUF) = hd (xs @ [NBUF])" using chain_next [OF assms(1)] .
  then have "b_next (B NBUF) \<noteq> b" using assms by (cases xs) auto
  note l = link_front_ptrs [where B = B and b = b, OF assms(5) this]
  show ?thesis
  proof (cases xs)
    case Nil
    then show ?thesis using assms n by (auto simp: l)
  next
    case (Cons y ys)
    have "y \<notin> set ys \<Longrightarrow> chain (link_front b B) y ys NBUF = chain B y ys NBUF"
      using assms n Cons by (intro chain_cong) (auto simp: l)
    then show ?thesis using Cons assms n by (auto simp: l)
  qed
qed

lemma lru_move:
  assumes "lru B xs" "b < NBUF"
  shows "lru (link_front b (unlink b B)) (b # remove1 b xs)"
proof -
  have "b \<in> set xs" using assms by (simp add: lru_def)
  then obtain ys zs where xs: "xs = ys @ b # zs" "b \<notin> set ys" by (meson split_list_first)
  have "chain (unlink b B) NBUF (ys @ zs) NBUF"
    using assms(1) chain_unlink [of B NBUF ys b zs NBUF] by (simp add: lru_def xs(1))
  then have "chain (link_front b (unlink b B)) NBUF (b # ys @ zs) NBUF"
    using assms by (intro chain_link_front) (auto simp: lru_def xs(1))
  moreover have "set (b # ys @ zs) = set xs" by (auto simp: xs(1))
  ultimately show ?thesis using assms(1) xs by (simp add: lru_def remove1_append)
qed

lemma fun_upd_keep: "f v = f (B i) \<Longrightarrow> f ((B(i := v)) x) = f (B x)"
  by simp

lemma move_keep:
  assumes "\<And>y v. f (y\<lparr>b_prev := v\<rparr>) = f y" "\<And>y v. f (y\<lparr>b_next := v\<rparr>) = f y"
  shows "f (link_front b (unlink b B) x) = f (B x)"
proof -
  have "f (unlink b B x) = f (B x)" for x
    unfolding unlink_def Let_def by (rule trans [OF fun_upd_keep fun_upd_keep]) (rule assms)+
  moreover have "f (link_front b C x) = f (C x)" for C x
    unfolding link_front_def Let_def
    by (rule trans [OF fun_upd_keep trans [OF fun_upd_keep fun_upd_keep]]) (simp_all only: assms)
  ultimately show ?thesis by simp
qed

lemma move_fields [simp]:
  "b_valid (link_front b (unlink b B) x) = b_valid (B x)" "b_dev (link_front b (unlink b B) x) = b_dev (B x)"
  "b_blockno (link_front b (unlink b B) x) = b_blockno (B x)"
  "b_refcnt (link_front b (unlink b B) x) = b_refcnt (B x)"
  "b_data (link_front b (unlink b B) x) = b_data (B x)"
  by (rule move_keep; simp)+

section \<open>What the cache holds\<close>

definition hasblk :: "uint32 \<Rightarrow> uint32 \<Rightarrow> nat \<Rightarrow> 'a kblk_scheme \<Rightarrow> bool" where
  "hasblk d n b s \<longleftrightarrow> b < NBUF \<and> b_dev (bufs s b) = d \<and> b_blockno (bufs s b) = n"

definition holder :: "uint32 \<Rightarrow> uint32 \<Rightarrow> 'a kblk_scheme \<Rightarrow> nat option" where
  "holder d n s = List.find (\<lambda>b. hasblk d n b s) [0..<NBUF]"

text \<open>
  The view a client has of the cache of device \<open>d\<close>: the newest contents of every block, the
  contents on the disk, the number of references to it, whether a process has locked it,
  and the writes made so far.
\<close>

record cview =
  cv_blk :: "uint32 \<Rightarrow> uint8 list"
  cv_disk :: "uint32 \<Rightarrow> uint8 list"
  cv_refs :: "uint32 \<Rightarrow> nat"
  cv_locked :: "uint32 \<Rightarrow> bool"
  cv_writes :: "(uint32 \<times> uint8 list) list"

definition cview :: "uint32 \<Rightarrow> 'a kblk_scheme \<Rightarrow> cview" where
  "cview d s = \<lparr>
     cv_blk = (\<lambda>n. case holder d n s of None \<Rightarrow> disk s n
       | Some b \<Rightarrow> if b_valid (bufs s b) then b_data (bufs s b) else disk s n),
     cv_disk = disk s,
     cv_refs = (\<lambda>n. case holder d n s of None \<Rightarrow> 0 | Some b \<Rightarrow> unat (b_refcnt (bufs s b))),
     cv_locked = (\<lambda>n. case holder d n s of None \<Rightarrow> False | Some b \<Rightarrow> sl_locked (slocks s (SLBuf b))),
     cv_writes = dwrites s\<rparr>"

definition bcache_free :: "nat \<Rightarrow> 'a kblk_scheme \<Rightarrow> bool" where
  \<comment> \<open>process \<open>p\<close> runs, and every spin lock the cache uses can be taken\<close>
  "bcache_free p s \<longleftrightarrow> procs_free s \<and> running p s \<and> lock_free LkBcache s \<and> (\<forall>i. lock_free (LkBufSleep i) s)"

definition cached_once :: "uint32 \<Rightarrow> 'a kblk_scheme \<Rightarrow> bool" where
  "cached_once d s \<longleftrightarrow> (\<forall>n i j. hasblk d n i s \<and> hasblk d n j s \<longrightarrow> i = j)"

definition cache_ok :: "uint32 \<Rightarrow> nat \<Rightarrow> 'a kblk_scheme \<Rightarrow> bool" where
  "cache_ok d p s \<longleftrightarrow> bcache_free p s \<and> (\<exists>xs. lru (bufs s) xs) \<and> cached_once d s
     \<and> (\<forall>b < NBUF. b_dev (bufs s b) \<noteq> d \<longrightarrow> b_refcnt (bufs s b) = 0)
     \<and> (\<forall>b < NBUF. b_refcnt (bufs s b) = 0 \<longrightarrow> \<not> sl_locked (slocks s (SLBuf b)))
     \<and> (\<forall>b < NBUF. b_refcnt (bufs s b) \<noteq> 0 \<longrightarrow> b_valid (bufs s b))
     \<and> (\<forall>b < NBUF. b_dev (bufs s b) = d \<and> b_valid (bufs s b) \<and> b_refcnt (bufs s b) = 0 \<longrightarrow>
          b_data (bufs s b) = disk s (b_blockno (bufs s b)))"

definition owns :: "uint32 \<Rightarrow> uint32 \<Rightarrow> nat \<Rightarrow> nat \<Rightarrow> 'a kblk_scheme \<Rightarrow> bool" where
  \<comment> \<open>process \<open>p\<close> has locked buffer \<open>b\<close>, which holds block \<open>n\<close>\<close>
  "owns d n b p s \<longleftrightarrow> hasblk d n b s \<and> sl_locked (slocks s (SLBuf b)) \<and>
     sl_pid (slocks s (SLBuf b)) = pid (procs s p)"

definition blk_frame :: "'a kblk_scheme \<Rightarrow> 'a kblk_scheme \<Rightarrow> bool" where
  \<comment> \<open>nothing else has changed\<close>
  "blk_frame s t \<longleftrightarrow> (\<exists>B L P D W. t = s\<lparr>bufs := B, slocks := L, procs := P, disk := D, dwrites := W\<rparr>)"

lemma blk_frame_refl [simp]: "blk_frame s s"
  unfolding blk_frame_def
  by (intro exI [of _ "bufs s"] exI [of _ "slocks s"] exI [of _ "procs s"] exI [of _ "disk s"]
      exI [of _ "dwrites s"]) simp

lemma blk_frame_trans: "blk_frame s t \<Longrightarrow> blk_frame t u \<Longrightarrow> blk_frame s u"
  unfolding blk_frame_def
proof (elim exE)
  fix B L P D W B' L' P' D' W'
  assume "t = s\<lparr>bufs := B, slocks := L, procs := P, disk := D, dwrites := W\<rparr>"
    "u = t\<lparr>bufs := B', slocks := L', procs := P', disk := D', dwrites := W'\<rparr>"
  then have "u = s\<lparr>bufs := B', slocks := L', procs := P', disk := D', dwrites := W'\<rparr>" by simp
  then show "\<exists>B L P D W. u = s\<lparr>bufs := B, slocks := L, procs := P, disk := D, dwrites := W\<rparr>" by blast
qed

lemma holder_None: "holder d n s = None \<longleftrightarrow> (\<forall>b. \<not> hasblk d n b s)"
  by (auto simp: holder_def find_None_iff hasblk_def)

lemma holder_hasblk: "holder d n s = Some b \<Longrightarrow> hasblk d n b s"
  unfolding holder_def find_Some_iff by blast

lemma holder_Some:
  assumes "cached_once d s"
  shows "holder d n s = Some b \<longleftrightarrow> hasblk d n b s"
proof
  assume h: "hasblk d n b s"
  then obtain c where c: "holder d n s = Some c" using holder_None [of d n s] by fastforce
  with holder_hasblk [OF this] h assms show "holder d n s = Some b" by (auto simp: cached_once_def)
qed (rule holder_hasblk)

lemma cview_holder:
  assumes "cached_once d s" "hasblk d n b s"
  shows "cv_blk (cview d s) n = (if b_valid (bufs s b) then b_data (bufs s b) else disk s n)"
    "cv_refs (cview d s) n = unat (b_refcnt (bufs s b))"
    "cv_locked (cview d s) n = sl_locked (slocks s (SLBuf b))"
  using iffD2 [OF holder_Some [OF assms(1)] assms(2)] by (simp_all add: cview_def)

lemma cview_none:
  assumes "\<forall>b. \<not> hasblk d n b s"
  shows "cv_blk (cview d s) n = disk s n" "cv_refs (cview d s) n = 0" "\<not> cv_locked (cview d s) n"
  using assms holder_None [of d n s] by (simp_all add: cview_def)

lemma cview_disk [simp]: "cv_disk (cview d s) = disk s" "cv_writes (cview d s) = dwrites s"
  by (simp_all add: cview_def)

lemma bcache_free_cpu: "bcache_free p s \<Longrightarrow> cpu_ok s" by (simp add: bcache_free_def)

lemma find_unique:
  assumes "x \<in> set xs" "P x" "\<And>y. y \<in> set xs \<Longrightarrow> P y \<Longrightarrow> y = x"
  shows "List.find P xs = Some x"
proof (cases "List.find P xs")
  case None
  then show ?thesis using assms(1,2) by (simp add: find_None_iff)
next
  case (Some y)
  then have "y \<in> set xs" "P y" by (auto simp: find_Some_iff)
  then show ?thesis using assms(3) Some by simp
qed

section \<open>Reading a block\<close>

definition got :: "nat \<Rightarrow> uint32 \<Rightarrow> uint32 \<Rightarrow> nat \<Rightarrow> 'a kblk_scheme \<Rightarrow> 'a kblk_scheme" where
  \<comment> \<open>the state in which \<^verbatim>\<open>bread\<close> returns buffer \<open>b\<close>\<close>
  "got p d n b s = s\<lparr>
     bufs := (bufs s)(b := (bufs s b)\<lparr>b_dev := d, b_blockno := n, b_valid := True,
       b_refcnt := of_nat (cv_refs (cview d s) n + 1), b_data := cv_blk (cview d s) n\<rparr>),
     slocks := (slocks s)(SLBuf b := (slocks s (SLBuf b))\<lparr>sl_locked := True, sl_pid := pid (procs s p)\<rparr>)\<rparr>"

definition taken :: "nat \<Rightarrow> nat \<Rightarrow> 'a kblk_scheme \<Rightarrow> 'a kblk_scheme" where
  \<comment> \<open>process \<open>p\<close> has the sleep-lock of buffer \<open>b\<close>\<close>
  "taken p b s = s\<lparr>slocks := (slocks s)
     (SLBuf b := (slocks s (SLBuf b))\<lparr>sl_locked := True, sl_pid := pid (procs s p)\<rparr>)\<rparr>"

lemma bget_hit:
  assumes "cache_ok d p s" "hasblk d n b s" "\<not> cv_locked (cview d s) n"
  shows "bget d n s = Ok b (taken p b
    (s\<lparr>bufs := (bufs s)(b := (bufs s b)\<lparr>b_refcnt := b_refcnt (bufs s b) + 1\<rparr>)\<rparr>))"
proof -
  obtain xs where xs: "lru (bufs s) xs" and c: "bcache_free p s" "cached_once d s"
    using assms(1) by (auto simp: cache_ok_def)
  have "List.find (\<lambda>b. b_dev (bufs s b) = d \<and> b_blockno (bufs s b) = n) xs = Some b"
  proof (rule find_unique)
    show "b \<in> set xs" "b_dev (bufs s b) = d \<and> b_blockno (bufs s b) = n"
      using assms(2) xs by (simp_all add: hasblk_def lru_def)
    fix y assume "y \<in> set xs" "b_dev (bufs s y) = d \<and> b_blockno (bufs s y) = n"
    then have "hasblk d n y s" using xs by (simp add: hasblk_def lru_def)
    then show "y = b" using c(2) assms(2) unfolding cached_once_def by blast
  qed
  moreover have "find_cached (Suc NBUF) d n (b_next (bufs s NBUF)) (acq LkBcache s) =
      Ok (List.find (\<lambda>b. b_dev (bufs s b) = d \<and> b_blockno (bufs s b) = n) xs) (acq LkBcache s)"
    using xs lru_length [OF xs] find_cached_eq [of "acq LkBcache s" NBUF xs "Suc NBUF" d n]
    by (simp add: lru_def)
  ultimately show ?thesis using assms(3) c(1) cview_holder(3) [OF c(2) assms(2)]
    by (simp add: bget_def getb_def upd_buf_def acquiresleep_eq [where p = p] bcache_free_def taken_def
        del: find_cached.simps)
qed

lemma bread_hit:
  assumes "cache_ok d p s" "hasblk d n b s" "\<not> cv_locked (cview d s) n"
  shows "bread d n s = Ok b (got p d n b s)"
proof -
  have c: "cached_once d s" using assms(1) by (simp add: cache_ok_def)
  note v = cview_holder [OF c assms(2)]
  have h: "b_dev (bufs s b) = d" "b_blockno (bufs s b) = n" using assms(2) by (simp_all add: hasblk_def)
  have r: "(of_nat (unat (b_refcnt (bufs s b)) + 1) :: uint32) = b_refcnt (bufs s b) + 1" by simp
  show ?thesis
  proof (cases "b_valid (bufs s b)")
    case True
    then have "(bufs s b)\<lparr>b_dev := d, b_blockno := n, b_valid := True,
        b_refcnt := b_refcnt (bufs s b) + 1, b_data := b_data (bufs s b)\<rparr> =
        (bufs s b)\<lparr>b_refcnt := b_refcnt (bufs s b) + 1\<rparr>"
      using h by (cases "bufs s b") simp
    then have "got p d n b s = taken p b (s\<lparr>bufs := (bufs s)(b := (bufs s b)\<lparr>b_refcnt := b_refcnt (bufs s b) + 1\<rparr>)\<rparr>)"
      unfolding got_def taken_def v r using True by simp
    then show ?thesis using True by (simp add: bread_def bget_hit [OF assms] getb_def taken_def)
  next
    case False
    have "(bufs s b)\<lparr>b_dev := d, b_blockno := n, b_valid := True, b_refcnt := b_refcnt (bufs s b) + 1, b_data := x\<rparr> =
        (bufs s b)\<lparr>b_refcnt := b_refcnt (bufs s b) + 1, b_data := x, b_valid := True\<rparr>" for x
      using h by (cases "bufs s b") simp
    then show ?thesis unfolding got_def v r using False h(2)
      by (simp add: bread_def bget_hit [OF assms] taken_def getb_def disk_rw_def upd_buf_def)
  qed
qed

lemma bget_recycles:
  assumes "cache_ok d p s" "\<forall>b. \<not> hasblk d n b s" "lru (bufs s) xs"
    "List.find (\<lambda>b. b_refcnt (bufs s b) = 0) (rev xs) = Some b"
  shows "bget d n s = Ok b (taken p b
    (s\<lparr>bufs := (bufs s)(b := (bufs s b)\<lparr>b_dev := d, b_blockno := n, b_valid := False, b_refcnt := 1\<rparr>)\<rparr>))"
    "b < NBUF" "b_refcnt (bufs s b) = 0"
proof -
  let ?s = "acq LkBcache s"
  have c: "bcache_free p s"
    and fr: "\<And>b. b < NBUF \<Longrightarrow> b_refcnt (bufs s b) = 0 \<Longrightarrow> \<not> sl_locked (slocks s (SLBuf b))"
    using assms(1) by (auto simp: cache_ok_def)
  have "List.find (\<lambda>b. b_dev (bufs s b) = d \<and> b_blockno (bufs s b) = n) xs = None"
    using assms(2,3) by (auto simp: find_None_iff hasblk_def lru_def)
  then have h: "find_cached (Suc NBUF) d n (b_next (bufs s NBUF)) ?s = Ok None ?s"
    using assms(3) lru_length [OF assms(3)] find_cached_eq [of ?s NBUF xs "Suc NBUF" d n] by (simp add: lru_def)
  show b': "b < NBUF" "b_refcnt (bufs s b) = 0"
    using assms(3,4) by (auto simp: find_Some_iff lru_def) (metis length_rev lessThan_iff nth_mem set_rev)
  have "find_lru (Suc NBUF) (b_prev (bufs s NBUF)) ?s = Ok (Some b) ?s"
    using assms(3,4) lru_length [OF assms(3)] find_lru_eq [of ?s xs NBUF "Suc NBUF"] by (simp add: lru_def)
  then show "bget d n s = Ok b (taken p b
    (s\<lparr>bufs := (bufs s)(b := (bufs s b)\<lparr>b_dev := d, b_blockno := n, b_valid := False, b_refcnt := 1\<rparr>)\<rparr>))"
    using h c fr [OF b']
    by (simp add: bget_def getb_def upd_buf_def acquiresleep_eq [where p = p] bcache_free_def taken_def
        del: find_cached.simps find_lru.simps)
qed

lemma bget_miss:
  assumes "cache_ok d p s" "\<forall>b. \<not> hasblk d n b s" "c < NBUF" "b_refcnt (bufs s c) = 0"
  shows "\<exists>b < NBUF. b_refcnt (bufs s b) = 0 \<and> bget d n s = Ok b (taken p b
    (s\<lparr>bufs := (bufs s)(b := (bufs s b)\<lparr>b_dev := d, b_blockno := n, b_valid := False, b_refcnt := 1\<rparr>)\<rparr>))"
proof -
  obtain xs where xs: "lru (bufs s) xs" using assms(1) by (auto simp: cache_ok_def)
  have "List.find (\<lambda>b. b_refcnt (bufs s b) = 0) (rev xs) \<noteq> None"
    using assms(3,4) xs by (auto simp: find_None_iff lru_def)
  then obtain b where "List.find (\<lambda>b. b_refcnt (bufs s b) = 0) (rev xs) = Some b" by blast
  from bget_recycles [OF assms(1,2) xs this] show ?thesis by blast
qed

definition fits :: "uint32 \<Rightarrow> uint32 \<Rightarrow> nat \<Rightarrow> 'a kblk_scheme \<Rightarrow> bool" where
  \<comment> \<open>buffer \<open>b\<close> holds block \<open>n\<close>, or no buffer does and it is unused\<close>
  "fits d n b s \<longleftrightarrow> b < NBUF \<and>
     (hasblk d n b s \<or> (\<forall>c. \<not> hasblk d n c s) \<and> b_refcnt (bufs s b) = 0)"

lemma bread_eq:
  assumes "cache_ok d p s" "\<not> cv_locked (cview d s) n"
    "(\<exists>b. hasblk d n b s) \<or> (\<exists>b < NBUF. b_refcnt (bufs s b) = 0)"
  shows "\<exists>b. fits d n b s \<and> bread d n s = Ok b (got p d n b s)"
proof (cases "\<exists>b. hasblk d n b s")
  case True
  then show ?thesis using bread_hit [OF assms(1) _ assms(2)] by (auto simp: fits_def hasblk_def)
next
  case False
  then obtain b where b: "b < NBUF" "b_refcnt (bufs s b) = 0" "bget d n s = Ok b (taken p b
    (s\<lparr>bufs := (bufs s)(b := (bufs s b)\<lparr>b_dev := d, b_blockno := n, b_valid := False, b_refcnt := 1\<rparr>)\<rparr>))"
    using assms(3) bget_miss [OF assms(1)] by meson
  have v: "cv_blk (cview d s) n = disk s n" "cv_refs (cview d s) n = 0" using False cview_none [of d n s] by auto
  have "bread d n s = Ok b (s\<lparr>
      slocks := (slocks s)(SLBuf b := (slocks s (SLBuf b))\<lparr>sl_locked := True, sl_pid := pid (procs s p)\<rparr>),
      bufs := (bufs s)(b := (bufs s b)\<lparr>b_dev := d, b_blockno := n, b_refcnt := 1, b_data := disk s n,
        b_valid := True\<rparr>)\<rparr>)"
    by (simp add: bread_def b(3) taken_def getb_def disk_rw_def upd_buf_def)
  also have "(bufs s b)\<lparr>b_dev := d, b_blockno := n, b_refcnt := 1, b_data := disk s n, b_valid := True\<rparr> =
      (bufs s b)\<lparr>b_dev := d, b_blockno := n, b_valid := True, b_refcnt := of_nat (cv_refs (cview d s) n + 1),
        b_data := cv_blk (cview d s) n\<rparr>"
    unfolding v by (cases "bufs s b") simp
  also have "s\<lparr>slocks := A, bufs := B\<rparr> = s\<lparr>bufs := B, slocks := A\<rparr>" for A B by simp
  finally have "bread d n s = Ok b (got p d n b s)" unfolding got_def .
  then show ?thesis using b False by (auto simp: fits_def)
qed

lemma hasblk_got:
  assumes "fits d n b s"
  shows "hasblk d m c (got p d n b s) \<longleftrightarrow> (if c = b then m = n else hasblk d m c s)"
  using assms by (auto simp: hasblk_def got_def fits_def)

lemma bcache_free_upd [simp]:
  "bcache_free p (bufs_update f s) = bcache_free p s" "bcache_free p (slocks_update g s) = bcache_free p s"
  "bcache_free p (procs_update h s) = bcache_free p s" "bcache_free p (disk_update k s) = bcache_free p s"
  "bcache_free p (dwrites_update l s) = bcache_free p s"
  by (simp_all add: bcache_free_def)

lemma cached_once_got:
  assumes "cached_once d s" "fits d n b s"
  shows "cached_once d (got p d n b s)"
  unfolding cached_once_def hasblk_got [OF assms(2)]
  using assms unfolding cached_once_def fits_def by metis

lemma lru_upd:
  "lru B xs \<Longrightarrow> b_next x = b_next (B b) \<Longrightarrow> b_prev x = b_prev (B b) \<Longrightarrow> lru (B(b := x)) xs"
  by (subst lru_cong [of _ B]) auto

lemma cache_okD:
  assumes "cache_ok d p s"
  shows "bcache_free p s" "\<exists>xs. lru (bufs s) xs" "cached_once d s"
    "b < NBUF \<Longrightarrow> b_dev (bufs s b) \<noteq> d \<Longrightarrow> b_refcnt (bufs s b) = 0"
    "b < NBUF \<Longrightarrow> b_refcnt (bufs s b) = 0 \<Longrightarrow> \<not> sl_locked (slocks s (SLBuf b))"
    "b < NBUF \<Longrightarrow> b_refcnt (bufs s b) \<noteq> 0 \<Longrightarrow> b_valid (bufs s b)"
    "b < NBUF \<Longrightarrow> b_dev (bufs s b) = d \<Longrightarrow> b_valid (bufs s b) \<Longrightarrow> b_refcnt (bufs s b) = 0 \<Longrightarrow>
      b_data (bufs s b) = disk s (b_blockno (bufs s b))"
  using assms by (auto simp: cache_ok_def)

lemma refs_succ: "cv_refs v n + 1 < 2 ^ 32 \<Longrightarrow> (of_nat (cv_refs v n + 1) :: uint32) \<noteq> 0"
  by (metis One_nat_def add_is_0 one_neq_zero unat_0 unat_of_nat32)

lemma cache_ok_got:
  assumes "cache_ok d p s" "fits d n b s" "cv_refs (cview d s) n + 1 < 2 ^ 32"
  shows "cache_ok d p (got p d n b s)"
proof -
  note c = cache_okD [OF assms(1)]
  note r = refs_succ [OF assms(3)]
  obtain xs where "lru (bufs s) xs" using c(2) by blast
  then have "lru (bufs (got p d n b s)) xs" by (simp add: got_def lru_upd)
  moreover have "cached_once d (got p d n b s)" using cached_once_got [OF c(3) assms(2)] .
  moreover have "bcache_free p (got p d n b s)" using c(1) by (simp add: got_def)
  ultimately show ?thesis using c(4-7) r
    by (auto simp: cache_ok_def got_def)
qed

lemma cview_eqI:
  "(\<And>n. cv_blk v n = cv_blk w n) \<Longrightarrow> cv_disk v = cv_disk w \<Longrightarrow> (\<And>n. cv_refs v n = cv_refs w n) \<Longrightarrow>
    (\<And>n. cv_locked v n = cv_locked w n) \<Longrightarrow> cv_writes v = cv_writes w \<Longrightarrow> v = (w :: cview)"
  by (rule cview.equality) auto

lemma got_other:
  assumes "cache_ok d p s" "fits d n b s" "m \<noteq> n"
  shows "cv_blk (cview d (got p d n b s)) m = cv_blk (cview d s) m \<and>
    cv_refs (cview d (got p d n b s)) m = cv_refs (cview d s) m \<and>
    cv_locked (cview d (got p d n b s)) m = cv_locked (cview d s) m"
proof (cases "\<exists>c. hasblk d m c s")
  case True
  then obtain c where h: "hasblk d m c s" by blast
  note o = cache_okD(3) [OF assms(1)]
  show ?thesis
  proof (cases "c = b")
    case True
    then have "\<not> hasblk d n b s" using h assms(3) by (auto simp: hasblk_def)
    then have z: "b_refcnt (bufs s b) = 0" "b < NBUF" using assms(2) by (auto simp: fits_def)
    have "\<forall>e. \<not> hasblk d m e (got p d n b s)"
      using o h True assms(3) unfolding hasblk_got [OF assms(2)] cached_once_def by metis
    from cview_none [OF this] show ?thesis
      using cview_holder [OF o h] True z cache_okD(5,7) [OF assms(1)] h
      by (auto simp: got_def hasblk_def)
  next
    case False
    then have "hasblk d m c (got p d n b s)" using h by (simp add: hasblk_got [OF assms(2)])
    from cview_holder [OF cached_once_got [OF o assms(2)] this] show ?thesis
      using cview_holder [OF o h] False by (simp add: got_def)
  qed
next
  case False
  then have "\<forall>e. \<not> hasblk d m e (got p d n b s)" using assms(3) by (simp add: hasblk_got [OF assms(2)])
  from cview_none [OF this] show ?thesis using False cview_none [of d m s] by (simp add: got_def)
qed

lemma got_view:
  assumes "cache_ok d p s" "fits d n b s" "cv_refs (cview d s) n + 1 < 2 ^ 32"
  shows "cview d (got p d n b s) = (cview d s)\<lparr>cv_refs := (cv_refs (cview d s))(n := cv_refs (cview d s) n + 1),
     cv_locked := (cv_locked (cview d s))(n := True)\<rparr>"
proof -
  have h: "hasblk d n b (got p d n b s)" by (simp add: hasblk_got [OF assms(2)])
  note v = cview_holder [OF cached_once_got [OF cache_okD(3) [OF assms(1)] assms(2), of p] h]
  have n: "cv_blk (cview d (got p d n b s)) n = cv_blk (cview d s) n"
    "cv_refs (cview d (got p d n b s)) n = cv_refs (cview d s) n + 1" "cv_locked (cview d (got p d n b s)) n"
    unfolding v using unat_of_nat32 [OF assms(3)] by (simp_all add: got_def)
  have "cv_disk (cview d (got p d n b s)) = cv_disk (cview d s)"
    "cv_writes (cview d (got p d n b s)) = cv_writes (cview d s)" by (simp_all add: cview_def got_def)
  moreover have "cv_blk (cview d (got p d n b s)) m = cv_blk (cview d s) m" for m
    using n(1) got_other [OF assms(1,2)] by (cases "m = n") auto
  ultimately show ?thesis using n(2,3) got_other [OF assms(1,2)] by (intro cview_eqI) auto
qed

section \<open>Changes to one buffer\<close>

definition only_buf :: "nat \<Rightarrow> 'a kblk_scheme \<Rightarrow> 'a kblk_scheme \<Rightarrow> bool" where
  \<comment> \<open>buffers other than \<open>b\<close> have not changed, apart from their links, and no buffer has changed its block\<close>
  "only_buf b s t \<longleftrightarrow>
     (\<forall>c. b_dev (bufs t c) = b_dev (bufs s c) \<and> b_blockno (bufs t c) = b_blockno (bufs s c)) \<and>
     (\<forall>c. c \<noteq> b \<longrightarrow> b_valid (bufs t c) = b_valid (bufs s c) \<and> b_data (bufs t c) = b_data (bufs s c) \<and>
        b_refcnt (bufs t c) = b_refcnt (bufs s c) \<and>
        sl_locked (slocks t (SLBuf c)) = sl_locked (slocks s (SLBuf c))) \<and>
     (\<forall>m. m \<noteq> b_blockno (bufs s b) \<longrightarrow> disk t m = disk s m)"

lemma only_buf_hasblk: "only_buf b s t \<Longrightarrow> hasblk d m c t = hasblk d m c s"
  by (simp add: only_buf_def hasblk_def)

lemma only_buf_view:
  assumes "cached_once d s" "hasblk d n b s" "only_buf b s t" "b_valid (bufs t b)"
  shows "cview d t = \<lparr>cv_blk = (cv_blk (cview d s))(n := b_data (bufs t b)), cv_disk = disk t,
    cv_refs = (cv_refs (cview d s))(n := unat (b_refcnt (bufs t b))),
    cv_locked = (cv_locked (cview d s))(n := sl_locked (slocks t (SLBuf b))), cv_writes = dwrites t\<rparr>"
proof -
  note h = only_buf_hasblk [OF assms(3)]
  have o: "cached_once d t" using assms(1) by (simp add: cached_once_def h)
  have b: "hasblk d n b t" using assms(2) by (simp add: h)
  have "cv_blk (cview d t) m = cv_blk (cview d s) m \<and> cv_refs (cview d t) m = cv_refs (cview d s) m \<and>
      cv_locked (cview d t) m = cv_locked (cview d s) m" if "m \<noteq> n" for m
  proof (cases "\<exists>c. hasblk d m c s")
    case True
    then obtain c where c: "hasblk d m c s" "hasblk d m c t" by (auto simp: h)
    then have "c \<noteq> b" using assms(2) that by (auto simp: hasblk_def)
    then show ?thesis
      using cview_holder [OF assms(1) c(1)] cview_holder [OF o c(2)] assms(2,3) that
      by (simp add: only_buf_def hasblk_def)
  next
    case False
    then show ?thesis using cview_none [of d m s] cview_none [of d m t] assms(2,3) that
      by (simp add: h only_buf_def hasblk_def)
  qed
  moreover have "cv_disk (cview d t) = disk t" "cv_writes (cview d t) = dwrites t" by (simp_all add: cview_def)
  ultimately show ?thesis using cview_holder [OF o b] assms(4) by (intro cview_eqI) auto
qed

lemma only_buf_ok:
  assumes "cache_ok d p s" "hasblk d n b s" "only_buf b s t" "bcache_free p t" "\<exists>xs. lru (bufs t) xs"
    "b_valid (bufs t b)"
    "b_refcnt (bufs t b) = 0 \<Longrightarrow> \<not> sl_locked (slocks t (SLBuf b)) \<and> b_data (bufs t b) = disk t n"
  shows "cache_ok d p t"
proof -
  note c = cache_okD [OF assms(1)]
  have "cached_once d t" using c(3) by (simp add: cached_once_def only_buf_hasblk [OF assms(3)])
  moreover have "b_data (bufs t e) = disk t (b_blockno (bufs t e))"
    if "e < NBUF" "b_dev (bufs t e) = d" "b_valid (bufs t e)" "b_refcnt (bufs t e) = 0" for e
  proof (cases "e = b")
    case True
    then show ?thesis using assms(2,3,7) that by (simp add: only_buf_def hasblk_def)
  next
    case False
    have "hasblk d (b_blockno (bufs s e)) e s" using that assms(3) by (simp add: hasblk_def only_buf_def)
    then have "b_blockno (bufs s e) \<noteq> n" using c(3) assms(2) False unfolding cached_once_def by blast
    then show ?thesis using c(7) [of e] assms(2,3) that False by (simp add: only_buf_def hasblk_def)
  qed
  moreover have "b_refcnt (bufs t e) = 0" if "e < NBUF" "b_dev (bufs t e) \<noteq> d" for e
    using c(4) [of e] assms(2,3) that by (cases "e = b") (auto simp: only_buf_def hasblk_def)
  moreover have "\<not> sl_locked (slocks t (SLBuf e))" if "e < NBUF" "b_refcnt (bufs t e) = 0" for e
    using c(5) [of e] assms(3,7) that by (cases "e = b") (auto simp: only_buf_def)
  moreover have "b_valid (bufs t e)" if "e < NBUF" "b_refcnt (bufs t e) \<noteq> 0" for e
    using c(6) [of e] assms(3,6) that by (cases "e = b") (auto simp: only_buf_def)
  ultimately show ?thesis using assms(4,5) unfolding cache_ok_def by blast
qed

lemma owns_other:
  "only_buf b s t \<Longrightarrow> slocks t (SLBuf c) = slocks s (SLBuf c) \<Longrightarrow> pid (procs t p) = pid (procs s p) \<Longrightarrow>
    owns d m c p t = owns d m c p s"
  by (simp add: owns_def only_buf_hasblk)

section \<open>The operations on the view\<close>

definition in_use :: "cview \<Rightarrow> nat" where
  \<comment> \<open>the number of blocks somebody refers to\<close>
  "in_use v = card {n. 0 < cv_refs v n}"

lemma free_buf:
  assumes "cache_ok d p s" "in_use (cview d s) < NBUF"
  shows "\<exists>b < NBUF. b_refcnt (bufs s b) = 0"
proof (rule ccontr)
  assume "\<not> ?thesis"
  then have all: "b_refcnt (bufs s b) \<noteq> 0" if "b < NBUF" for b using that by blast
  then have h: "hasblk d (b_blockno (bufs s b)) b s" if "b < NBUF" for b
    using cache_okD(4) [OF assms(1), of b] that by (auto simp: hasblk_def)
  have "inj_on (\<lambda>b. b_blockno (bufs s b)) {..<NBUF}"
  proof (rule inj_onI)
    fix x y assume "x \<in> {..<NBUF}" "y \<in> {..<NBUF}" "b_blockno (bufs s x) = b_blockno (bufs s y)"
    then show "x = y" using h [of x] h [of y] cache_okD(3) [OF assms(1)] by (auto simp: cached_once_def)
  qed
  moreover have "(\<lambda>b. b_blockno (bufs s b)) ` {..<NBUF} \<subseteq> {n. 0 < cv_refs (cview d s) n}"
    using all cview_holder(2) [OF cache_okD(3) [OF assms(1)] h] by (auto simp: unat_gt_0)
  ultimately have "card {..<NBUF} \<le> in_use (cview d s)"
    unfolding in_use_def by (intro card_inj_on_le) auto
  then show False using assms(2) by simp
qed

lemma owns_got:
  assumes "cache_ok d p s" "fits d n b s" "\<not> cv_locked (cview d s) n"
  shows "owns d n b p (got p d n b s)" "owns d m c p s \<Longrightarrow> owns d m c p (got p d n b s)"
proof -
  show "owns d n b p (got p d n b s)" by (simp add: owns_def hasblk_got [OF assms(2)]) (simp add: got_def)
  assume o: "owns d m c p s"
  have "c \<noteq> b"
  proof
    assume "c = b"
    show False
    proof (cases "hasblk d n b s")
      case True
      then show ?thesis using o \<open>c = b\<close> assms(3) cview_holder(3) [OF cache_okD(3) [OF assms(1)] True]
        by (simp add: owns_def)
    next
      case False
      then show ?thesis using o \<open>c = b\<close> assms(2) cache_okD(5) [OF assms(1), of b]
        by (simp add: owns_def fits_def)
    qed
  qed
  then show "owns d m c p (got p d n b s)" using o
    by (simp add: owns_def hasblk_got [OF assms(2)]) (simp add: got_def)
qed

lemma blk_frame_got: "blk_frame s (got p d n b s)"
proof -
  have "got p d n b s = s\<lparr>bufs := bufs (got p d n b s), slocks := slocks (got p d n b s), procs := procs s,
      disk := disk s, dwrites := dwrites s\<rparr>" by (simp add: got_def)
  then show ?thesis unfolding blk_frame_def by blast
qed

lemma bread_spec:
  assumes "cache_ok d p s" "\<not> cv_locked (cview d s) n" "cv_refs (cview d s) n + 1 < 2 ^ 32"
    "0 < cv_refs (cview d s) n \<or> in_use (cview d s) < NBUF"
  shows "\<exists>b t. bread d n s = Ok b t \<and> cache_ok d p t \<and> owns d n b p t \<and> blk_frame s t
    \<and> (\<forall>m c. owns d m c p s \<longrightarrow> owns d m c p t)
    \<and> cview d t = (cview d s)\<lparr>cv_refs := (cv_refs (cview d s))(n := cv_refs (cview d s) n + 1),
        cv_locked := (cv_locked (cview d s))(n := True)\<rparr>"
proof -
  have "(\<exists>b. hasblk d n b s) \<or> (\<exists>b < NBUF. b_refcnt (bufs s b) = 0)"
    using assms(4) free_buf [OF assms(1)] cview_none(2) [of d n s] by (metis less_not_refl)
  from bread_eq [OF assms(1,2) this] obtain b where b: "fits d n b s" "bread d n s = Ok b (got p d n b s)" by blast
  show ?thesis
    using b(2) cache_ok_got [OF assms(1) b(1) assms(3)] owns_got [OF assms(1) b(1) assms(2)] blk_frame_got
      got_view [OF assms(1) b(1) assms(3)] by blast
qed

lemma owns_hasblk: "owns d n b p s \<Longrightarrow> hasblk d n b s" by (simp add: owns_def)

lemma owns_refs:
  assumes "cache_ok d p s" "owns d n b p s"
  shows "b_refcnt (bufs s b) \<noteq> 0" "b_valid (bufs s b)" "cv_blk (cview d s) n = b_data (bufs s b)"
    "cv_refs (cview d s) n = unat (b_refcnt (bufs s b))" "cv_locked (cview d s) n" "0 < cv_refs (cview d s) n"
proof -
  have b: "b < NBUF" "sl_locked (slocks s (SLBuf b))" using assms(2) by (auto simp: owns_def hasblk_def)
  show r: "b_refcnt (bufs s b) \<noteq> 0" using cache_okD(5) [OF assms(1) b(1)] b(2) by blast
  show v: "b_valid (bufs s b)" using cache_okD(6) [OF assms(1) b(1) r] .
  note w = cview_holder [OF cache_okD(3) [OF assms(1)] owns_hasblk [OF assms(2)]]
  show "cv_blk (cview d s) n = b_data (bufs s b)" "cv_refs (cview d s) n = unat (b_refcnt (bufs s b))"
    "cv_locked (cview d s) n" "0 < cv_refs (cview d s) n" using w v b r by (simp_all add: unat_gt_0)
qed

lemma owns_distinct: "cache_ok d p s \<Longrightarrow> owns d n b p s \<Longrightarrow> owns d m c p s \<Longrightarrow> n \<noteq> m \<Longrightarrow> b \<noteq> c"
  by (auto simp: owns_def hasblk_def)

lemma bwrite_spec:
  assumes "cache_ok d p s" "owns d n b p s"
  shows "\<exists>t. bwrite b s = Ok () t \<and> cache_ok d p t \<and> blk_frame s t \<and> (\<forall>m c. owns d m c p t = owns d m c p s)
    \<and> cview d t = (cview d s)\<lparr>cv_disk := (cv_disk (cview d s))(n := cv_blk (cview d s) n),
        cv_writes := cv_writes (cview d s) @ [(n, cv_blk (cview d s) n)]\<rparr>"
proof -
  let ?t = "s\<lparr>disk := (disk s)(n := b_data (bufs s b)), dwrites := dwrites s @ [(n, b_data (bufs s b))]\<rparr>"
  note c = cache_okD [OF assms(1)] and o = owns_refs [OF assms] and h = owns_hasblk [OF assms(2)]
  have n: "b_blockno (bufs s b) = n" using h by (simp add: hasblk_def)
  have "bwrite b s = Ok () ?t"
    using c(1) assms(2) n by (simp add: bwrite_def holdingsleep_eq [where p = p] bcache_free_def owns_def disk_rw_def)
  moreover have ob: "only_buf b s ?t" using n by (simp add: only_buf_def)
  moreover have "cache_ok d p ?t"
    using only_buf_ok [OF assms(1) h ob] c(1,2) o(1,2) by simp
  moreover have "cview d ?t = (cview d s)\<lparr>cv_disk := (cv_disk (cview d s))(n := cv_blk (cview d s) n),
        cv_writes := cv_writes (cview d s) @ [(n, cv_blk (cview d s) n)]\<rparr>"
    unfolding only_buf_view [OF c(3) h ob, simplified, OF o(2)]
    using o assms(2) by (intro cview_eqI) (simp_all add: owns_def)
  moreover have "owns d m c p ?t = owns d m c p s" for m c by (simp add: owns_other [OF ob])
  moreover have "blk_frame s ?t"
    unfolding blk_frame_def
    by (intro exI [of _ "bufs s"] exI [of _ "slocks s"] exI [of _ "procs s"]) auto
  ultimately show ?thesis by blast
qed

lemma upd_owned:
  assumes "cache_ok d p s" "owns d n b p s" "x = f (bufs s b)"
    "b_dev x = b_dev (bufs s b)" "b_blockno x = b_blockno (bufs s b)" "b_next x = b_next (bufs s b)"
    "b_prev x = b_prev (bufs s b)" "b_valid x = b_valid (bufs s b)" "b_refcnt x \<noteq> 0"
  shows "\<exists>t. upd_buf b f s = Ok () t \<and> cache_ok d p t \<and> blk_frame s t \<and> (\<forall>m c. owns d m c p t = owns d m c p s)
    \<and> cview d t = (cview d s)\<lparr>cv_blk := (cv_blk (cview d s))(n := b_data x),
        cv_refs := (cv_refs (cview d s))(n := unat (b_refcnt x))\<rparr>"
proof -
  let ?t = "s\<lparr>bufs := (bufs s)(b := x)\<rparr>"
  note c = cache_okD [OF assms(1)] and o = owns_refs [OF assms(1,2)] and h = owns_hasblk [OF assms(2)]
  have ob: "only_buf b s ?t" using assms(4,5) by (simp add: only_buf_def)
  obtain xs where "lru (bufs s) xs" using c(2) by blast
  then have "lru (bufs ?t) xs" using assms(6,7) by (simp add: lru_upd)
  then have "\<exists>xs. lru (bufs ?t) xs" by blast
  then have "cache_ok d p ?t"
    using only_buf_ok [OF assms(1) h ob] c(1) o(2) assms(8,9) by simp
  moreover have "cview d ?t = (cview d s)\<lparr>cv_blk := (cv_blk (cview d s))(n := b_data x),
        cv_refs := (cv_refs (cview d s))(n := unat (b_refcnt x))\<rparr>"
  proof -
    have "b_valid (bufs ?t b)" using o(2) assms(8) by simp
    note v = only_buf_view [OF c(3) h ob this]
    show ?thesis unfolding v using o assms(2) by (intro cview_eqI) (simp_all add: owns_def)
  qed
  moreover have "owns d m c p ?t = owns d m c p s" for m c by (simp add: owns_other [OF ob])
  moreover have "blk_frame s ?t"
    unfolding blk_frame_def
    by (intro exI [of _ "(bufs s)(b := x)"] exI [of _ "slocks s"] exI [of _ "procs s"] exI [of _ "disk s"]
      exI [of _ "dwrites s"]) simp
  ultimately show ?thesis using assms(3) by (simp add: upd_buf_def)
qed

lemma set_data_spec:
  assumes "cache_ok d p s" "owns d n b p s"
  shows "\<exists>t. upd_buf b (\<lambda>x. x\<lparr>b_data := g (b_data x)\<rparr>) s = Ok () t \<and> cache_ok d p t \<and> blk_frame s t
    \<and> (\<forall>m c. owns d m c p t = owns d m c p s)
    \<and> cview d t = (cview d s)\<lparr>cv_blk := (cv_blk (cview d s))(n := g (cv_blk (cview d s) n))\<rparr>"
  using upd_owned [OF assms, where f = "\<lambda>x. x\<lparr>b_data := g (b_data x)\<rparr>", OF refl] owns_refs [OF assms]
  by (simp del: fun_upd_apply add: fun_upd_idem [of "cv_refs (cview d s)" n])

lemma unat_succ32: "unat (r :: uint32) + 1 < 2 ^ 32 \<Longrightarrow> unat (r + 1) = unat r + 1"
  by (simp add: unat_word_ariths)

lemma unat_pred32: "(r :: uint32) \<noteq> 0 \<Longrightarrow> unat (r - 1) = unat r - 1"
  by (rule unat_minus_one)

lemma pin_upd:
  assumes "bcache_free p s"
  shows "bpin b s = upd_buf b (\<lambda>x. x\<lparr>b_refcnt := b_refcnt x + 1\<rparr>) s"
    "bunpin b s = upd_buf b (\<lambda>x. x\<lparr>b_refcnt := b_refcnt x - 1\<rparr>) s"
  using assms by (simp_all add: bpin_def bunpin_def upd_buf_def bcache_free_def)

lemma bpin_spec:
  assumes "cache_ok d p s" "owns d n b p s" "cv_refs (cview d s) n + 1 < 2 ^ 32"
  shows "\<exists>t. bpin b s = Ok () t \<and> cache_ok d p t \<and> blk_frame s t \<and> (\<forall>m c. owns d m c p t = owns d m c p s)
    \<and> cview d t = (cview d s)\<lparr>cv_refs := (cv_refs (cview d s))(n := cv_refs (cview d s) n + 1)\<rparr>"
proof -
  note o = owns_refs [OF assms(1,2)]
  have u: "unat (b_refcnt (bufs s b) + 1) = cv_refs (cview d s) n + 1" using unat_succ32 assms(3) o(4) by simp
  then have "b_refcnt (bufs s b) + 1 \<noteq> 0" by (metis Suc_eq_plus1 nat.distinct(1) unat_0)
  then show ?thesis
    unfolding pin_upd [OF cache_okD(1) [OF assms(1)]]
    using upd_owned [OF assms(1,2), where f = "\<lambda>x. x\<lparr>b_refcnt := b_refcnt x + 1\<rparr>", OF refl] u
    by (simp del: fun_upd_apply add: o(3) [symmetric])
qed

lemma bunpin_spec:
  assumes "cache_ok d p s" "owns d n b p s" "1 < cv_refs (cview d s) n"
  shows "\<exists>t. bunpin b s = Ok () t \<and> cache_ok d p t \<and> blk_frame s t \<and> (\<forall>m c. owns d m c p t = owns d m c p s)
    \<and> cview d t = (cview d s)\<lparr>cv_refs := (cv_refs (cview d s))(n := cv_refs (cview d s) n - 1)\<rparr>"
proof -
  note o = owns_refs [OF assms(1,2)]
  have u: "unat (b_refcnt (bufs s b) - 1) = cv_refs (cview d s) n - 1" using unat_pred32 o(1,4) by simp
  then have "b_refcnt (bufs s b) - 1 \<noteq> 0" using assms(3) by (metis less_numeral_extra(3) unat_0 zero_less_diff)
  then show ?thesis
    unfolding pin_upd [OF cache_okD(1) [OF assms(1)]]
    using upd_owned [OF assms(1,2), where f = "\<lambda>x. x\<lparr>b_refcnt := b_refcnt x - 1\<rparr>", OF refl] u
    by (simp del: fun_upd_apply add: o(3) [symmetric])
qed

definition put_back :: "nat \<Rightarrow> (nat \<Rightarrow> buf) \<Rightarrow> nat \<Rightarrow> buf" where
  \<comment> \<open>the buffers after \<^verbatim>\<open>brelse\<close>\<close>
  "put_back b B = (let C = B(b := (B b)\<lparr>b_refcnt := b_refcnt (B b) - 1\<rparr>) in
     if b_refcnt (B b) = 1 then link_front b (unlink b C) else C)"

lemma brelse_eq:
  assumes "bcache_free p s" "owns d n b p s"
  shows "brelse b s = Ok () (s\<lparr>slocks := (slocks s)
      (SLBuf b := (slocks s (SLBuf b))\<lparr>sl_locked := False, sl_pid := 0\<rparr>), procs := wakes (ChBufLock b) s,
      bufs := put_back b (bufs s)\<rparr>)"
proof -
  have "b_refcnt (bufs s b) - 1 = 0 \<longleftrightarrow> b_refcnt (bufs s b) = 1" by (metis diff_self eq_iff_diff_eq_0)
  then show ?thesis using assms
    by (simp add: brelse_def bcache_free_def owns_def holdingsleep_eq [where p = p] releasesleep_eq upd_buf_def getb_def
        move_to_head_eq put_back_def Let_def)
qed

lemma put_back_fields:
  "b_dev (put_back b B c) = b_dev (B c)" "b_blockno (put_back b B c) = b_blockno (B c)"
  "b_valid (put_back b B c) = b_valid (B c)" "b_data (put_back b B c) = b_data (B c)"
  "b_refcnt (put_back b B c) = (if c = b then b_refcnt (B b) - 1 else b_refcnt (B c))"
  by (simp_all add: put_back_def Let_def)

text \<open>
  The list after \<^verbatim>\<open>brelse\<close>: a buffer nobody refers to any more moves to the front.
\<close>

lemma put_back_lru:
  assumes "lru B xs" "b < NBUF"
  shows "lru (put_back b B) (if b_refcnt (B b) = 1 then b # remove1 b xs else xs)"
proof -
  define C where "C = B(b := (B b)\<lparr>b_refcnt := b_refcnt (B b) - 1\<rparr>)"
  have "lru C xs" unfolding C_def by (rule lru_upd [OF assms(1)]) simp_all
  then show ?thesis using lru_move [OF _ assms(2)] by (simp add: put_back_def Let_def C_def [symmetric])
qed

lemma brelse_spec:
  assumes "cache_ok d p s" "owns d n b p s"
    "1 < cv_refs (cview d s) n \<or> cv_blk (cview d s) n = cv_disk (cview d s) n"
  shows "\<exists>t. brelse b s = Ok () t \<and> cache_ok d p t \<and> blk_frame s t
    \<and> (\<forall>m c. m \<noteq> n \<longrightarrow> owns d m c p t = owns d m c p s)
    \<and> cview d t = (cview d s)\<lparr>cv_refs := (cv_refs (cview d s))(n := cv_refs (cview d s) n - 1),
        cv_locked := (cv_locked (cview d s))(n := False)\<rparr>"
proof -
  let ?L = "(slocks s)(SLBuf b := (slocks s (SLBuf b))\<lparr>sl_locked := False, sl_pid := 0\<rparr>)"
  let ?t = "s\<lparr>slocks := ?L, procs := wakes (ChBufLock b) s, bufs := put_back b (bufs s)\<rparr>"
  note c = cache_okD [OF assms(1)] and o = owns_refs [OF assms(1,2)] and h = owns_hasblk [OF assms(2)]
  have b: "b < NBUF" using h by (simp add: hasblk_def)
  have ob: "only_buf b s ?t" by (simp add: only_buf_def put_back_fields)
  have u: "unat (b_refcnt (bufs s b) - 1) = cv_refs (cview d s) n - 1" using unat_pred32 o(1,4) by simp
  have l: "\<exists>xs. lru (bufs ?t) xs" using c(2) put_back_lru [OF _ b] by fastforce
  have z: "b_data (bufs s b) = disk s n" if "b_refcnt (bufs s b) - 1 = 0"
  proof -
    have "cv_refs (cview d s) n = 1" using that u o(6) by simp
    then show ?thesis using assms(3) o(3) by simp
  qed
  have "cache_ok d p ?t" using only_buf_ok [OF assms(1) h ob] c(1) l z o(2) by (simp add: put_back_fields)
  moreover have "cview d ?t = (cview d s)\<lparr>cv_refs := (cv_refs (cview d s))(n := cv_refs (cview d s) n - 1),
        cv_locked := (cv_locked (cview d s))(n := False)\<rparr>"
  proof -
    have "b_valid (bufs ?t b)" using o(2) by (simp add: put_back_fields)
    note v = only_buf_view [OF c(3) h ob this]
    show ?thesis unfolding v using o u by (intro cview_eqI) (simp_all add: put_back_fields)
  qed
  moreover have "owns d m e p ?t = owns d m e p s" if "m \<noteq> n" for m e
  proof (cases "e = b")
    case True
    then show ?thesis using that h by (auto simp: owns_def hasblk_def put_back_fields)
  next
    case False
    then show ?thesis by (simp add: owns_other [OF ob])
  qed
  moreover have "blk_frame s ?t"
    unfolding blk_frame_def
    by (intro exI [of _ "put_back b (bufs s)"] exI [of _ ?L] exI [of _ "wakes (ChBufLock b) s"]
      exI [of _ "disk s"] exI [of _ "dwrites s"]) simp
  ultimately show ?thesis using brelse_eq [OF c(1) assms(2)] by blast
qed

end
