(* ===== verification/Sample_Disk.thy ===== *)
theory Sample_Disk
  imports Bcache Log
begin

text \<open>
  A concrete state with a disk: process 0 runs, every lock is free, buffer 0 holds a modified
  and pinned block 100, the other buffers are unused, and the log at block 2 contains that
  block.  The theorems about the disk are applied to it.
\<close>

definition zero_uart :: uart16550 where
  "zero_uart = \<lparr>uart_rx = [], uart_room = 16, uart_sent = [], uart_latch = False, uart_ier = 0\<rparr>"

definition one_kdev :: kdev where
  "one_kdev = kproc.extend one_kproc (kdev.fields zero_uart (replicate 32 0) 0 0 False True
     (replicate 128 0) 0 0 0 (\<lambda>_. None) (\<lambda>_. None) 0 (\<lambda>_. 0) [] True)"

definition one_kslp :: kslp where
  "one_kslp = kdev.extend one_kdev (kslp.fields (\<lambda>_. \<lparr>sl_locked = False, sl_name = [], sl_pid = 0\<rparr>))"

definition zero_buf :: "nat \<Rightarrow> buf" where
  "zero_buf i = \<lparr>b_valid = False, b_disk = False, b_dev = 0, b_blockno = 0, b_refcnt = 0,
     b_prev = (if i = 0 then NBUF else i - 1), b_next = (if i = NBUF then 0 else i + 1),
     b_data = replicate BSIZE 0\<rparr>"

definition zero_vdisk :: vdisk where
  "zero_vdisk = \<lparr>vq_desc = (\<lambda>_. zero_desc), avail_idx = 0, avail_ring = (\<lambda>_. 0), vu_idx = 0, vu_ring = (\<lambda>_. 0),
     dfree = (\<lambda>i. i < NUM), used_idx = 0, vinfo = (\<lambda>_. \<lparr>in_buf = None, in_status = 0\<rparr>),
     vops = (\<lambda>_. \<lparr>r_type = 0, r_reserved = 0, r_sector = 0\<rparr>), vnotified = False, vregs = []\<rparr>"

definition boot_kblk :: kblk where
  "boot_kblk = kslp.extend one_kslp (kblk.fields zero_buf zero_vdisk (\<lambda>_. replicate BSIZE 0) [])"

definition boot_klog :: klog where
  \<comment> \<open>an empty cache\<close>
  "boot_klog = kblk.extend boot_kblk (klog.fields 2 31 0 False 1 0 (replicate LOGSIZE 0))"

definition one_klog :: klog where
  "one_klog = boot_klog\<lparr>bufs := zero_buf(0 := (zero_buf 0)\<lparr>b_valid := True, b_dev := 1, b_blockno := 100,
     b_refcnt := 1, b_data := replicate BSIZE 7\<rparr>), lh_n := 1, lh_block := 100 # replicate (LOGSIZE - 1) 0\<rparr>"

lemmas one_klog_defs = one_klog_def boot_klog_def boot_kblk_def one_kslp_def one_kdev_def kproc.extend_def
  kdev.extend_def kslp.extend_def kblk.extend_def kdev.fields_def kslp.fields_def kblk.fields_def klog.fields_def

lemma boot_klog_fields [simp]:
  "bufs boot_klog = zero_buf" "disk boot_klog = (\<lambda>_. replicate BSIZE 0)" "dwrites boot_klog = []"
  "log_start boot_klog = 2" "log_size boot_klog = 31" "log_dev boot_klog = 1" "lh_n boot_klog = 0"
  "lh_block boot_klog = replicate LOGSIZE 0" "procs boot_klog = procs one_kproc" "\<not> sl_locked (slocks boot_klog k)"
  "\<not> log_committing boot_klog" "log_outstanding boot_klog = 0"
  by (simp_all add: one_klog_defs)

lemma boot_klog_free [simp]: "bcache_free 0 boot_klog" "lock_free l boot_klog" "cpu_ok boot_klog" "running 0 boot_klog"
  "procs_free boot_klog"
  using one_kproc_simps
  by (simp_all add: bcache_free_def procs_free_def cpu_ok_def lock_free_def intr_get_def mach_defs running_def one_klog_defs)

lemma zero_buf_lru: "lru zero_buf [0..<NBUF]"
proof -
  have "chain zero_buf k [Suc k..<NBUF] NBUF" if "k < NBUF" for k
    using that
  proof (induction "NBUF - k" arbitrary: k)
    case (Suc n)
    then show ?case by (cases "Suc k < NBUF") (auto simp: upt_conv_Cons zero_buf_def less_Suc_eq)
  qed simp
  moreover have "0 < NBUF" by (simp add: NBUF_def MAXOPBLOCKS_def)
  moreover from this have "[0..<NBUF] = 0 # [Suc 0..<NBUF]" by (rule upt_conv_Cons)
  ultimately show ?thesis by (auto simp: lru_def zero_buf_def [of NBUF] zero_buf_def [of 0])
qed

lemma boot_cache_ok: "cache_ok 1 0 boot_klog"
  using zero_buf_lru by (auto simp: cache_ok_def cached_once_def hasblk_def zero_buf_def)

lemma one_klog_fields [simp]:
  "disk one_klog = (\<lambda>_. replicate BSIZE 0)" "dwrites one_klog = []"
  "log_start one_klog = 2" "log_size one_klog = 31" "log_dev one_klog = 1" "lh_n one_klog = 1"
  "lh_block one_klog = 100 # replicate (LOGSIZE - 1) 0" "procs one_klog = procs one_kproc"
  "\<not> sl_locked (slocks one_klog k)" "log_outstanding one_klog = 0" "\<not> log_committing one_klog"
  by (simp_all add: one_klog_def)

lemma one_klog_free [simp]: "lock_free l one_klog"
  using boot_klog_free(2) by (simp add: one_klog_def lock_free_def)

lemma one_klog_hasblk: "hasblk 1 n b one_klog \<longleftrightarrow> n = 100 \<and> b = 0"
  by (auto simp: hasblk_def one_klog_def zero_buf_def NBUF_def MAXOPBLOCKS_def)

lemma one_klog_holder: "holder 1 n one_klog = (if n = 100 then Some 0 else None)"
proof (cases "n = 100")
  case True
  have "cached_once 1 one_klog" by (simp add: cached_once_def one_klog_hasblk)
  from holder_Some [OF this] show ?thesis using True by (simp add: one_klog_hasblk)
next
  case False
  then show ?thesis using holder_None [of 1 n one_klog] by (simp add: one_klog_hasblk)
qed

lemma one_klog_view:
  "cview 1 one_klog = \<lparr>cv_blk = (\<lambda>_. replicate BSIZE 0)(100 := replicate BSIZE 7), cv_disk = (\<lambda>_. replicate BSIZE 0),
     cv_refs = (\<lambda>_. 0)(100 := 1), cv_locked = (\<lambda>_. False), cv_writes = []\<rparr>"
proof -
  have "b_valid (bufs one_klog 0)" "b_data (bufs one_klog 0) = replicate BSIZE 7" "b_refcnt (bufs one_klog 0) = 1"
    by (simp_all add: one_klog_def)
  then show ?thesis by (intro cview_eqI) (simp_all add: cview_def one_klog_holder)
qed

lemma one_klog_cache: "cache_ok 1 0 one_klog"
proof -
  have "lru (bufs one_klog) [0..<NBUF]" unfolding one_klog_def using zero_buf_lru by (simp add: lru_upd)
  moreover have "bcache_free 0 one_klog" using boot_klog_free(1)
    by (simp add: one_klog_def bcache_free_def procs_free_def cpu_ok_def lock_free_def intr_get_def mach_defs running_def)
  ultimately show ?thesis
    by (auto simp: cache_ok_def cached_once_def one_klog_hasblk) (auto simp: one_klog_def zero_buf_def split: if_splits)
qed

end
