(* ===== verification/Sample_Files.thy ===== *)
theory Sample_Files
  imports Sample_Disk File
begin

text \<open>
  The concrete state of \<open>Sample_Disk\<close> with empty inode, file and pipe tables; process 0 has one
  page of user memory at address 0.
\<close>

definition zero_inode :: inode where
  "zero_inode = \<lparr>i_dev = 0, i_inum = 0, i_ref = 0, i_valid = False, i_type = 0, i_major = 0, i_minor = 0,
     i_nlink = 0, i_size = 0, i_addrs = replicate 13 0\<rparr>"

definition zero_file :: ofile_t where
  "zero_file = \<lparr>f_type = FD_NONE, f_ref = 0, f_readable = False, f_writable = False, f_pipe = 0, f_ip = 0,
     f_off = 0, f_major = 0\<rparr>"

definition full_turn_pipe :: pipe where
  \<comment> \<open>an empty pipe whose counters are about to wrap around\<close>
  "full_turn_pipe = \<lparr>pi_data = replicate PIPESIZE 0, pi_nread = - 1, pi_nwrite = - 1, pi_readopen = True,
     pi_writeopen = True\<rparr>"

definition one_sb :: superblock where
  "one_sb = \<lparr>sb_magic = FSMAGIC, sb_size = 1000, sb_nblocks = 953, sb_ninodes = 200, sb_nlog = 31, sb_logstart = 2,
     sb_inodestart = 33, sb_bmapstart = 46\<rparr>"

definition one_kfs :: kfs where
  "one_kfs = klog.extend boot_klog (kfs.fields one_sb (\<lambda>_. zero_inode))"

definition one_kfile :: kfile where
  "one_kfile = kfs.extend one_kfs (kfile.fields (\<lambda>_. zero_file) (\<lambda>_. full_turn_pipe) (replicate 4 0))"

lemmas one_kfile_defs = one_kfile_def one_kfs_def klog.extend_def kfs.extend_def kfs.fields_def kfile.fields_def

lemma one_kfile_fields [simp]:
  "mem one_kfile = sample_mem" "procs one_kfile = procs one_kproc" "pipes one_kfile pi = full_turn_pipe"
  "files one_kfile f = zero_file" "inodes one_kfile i = zero_inode" "fs_sb one_kfile = one_sb"
  by (simp_all add: one_kfile_defs boot_klog_def one_klog_defs)

lemma one_kfile_free [simp]: "lock_free l one_kfile" "cpu_ok one_kfile" "running 0 one_kfile" "procs_free one_kfile"
  using one_kproc_simps
  by (simp_all add: procs_free_def cpu_ok_def lock_free_def intr_get_def mach_defs running_def one_kfile_defs one_klog_defs)

lemma confined_cong:
  assumes "confined s pt ps" "mem t = mem s" "freelist t = freelist s" "kend t = kend s" "cpu_ok t" "lock_free LkKmem t"
  shows "confined t pt ps"
  using assms by (simp add: confined_def vm_inv_def kmem_inv_def kmem_ready_def phys_page_def)

lemma one_kfile_confined: "confined one_kfile sample_pt []"
proof (rule confined_cong [OF sample_confined])
  show "cpu_ok one_kfile" "lock_free LkKmem one_kfile" by simp_all
qed (simp_all add: sample_vm_def one_kfile_defs one_klog_defs one_kproc_def kmem.extend_def kproc.fields_def)

end
