(* ===== verification/Ring.thy ===== *)
theory Ring
  imports Xv6_Prelude
begin

text \<open>
  Ring buffers as the kernel writes them: an array, and a read and a write index that are only
  ever incremented and wrap around with their machine word; the array index is the index
  modulo the size.  The pipe, the UART transmitter and the console all use one.  The locale
  \<open>fifo\<close> is the contract their clients rely on.
\<close>

section \<open>Contents\<close>

definition ring :: "nat \<Rightarrow> 'a list \<Rightarrow> 'w::len word \<Rightarrow> 'w word \<Rightarrow> 'a list" where
  \<comment> \<open>the elements between read index \<open>r\<close> and write index \<open>w\<close>\<close>
  "ring N buf r w = map (\<lambda>i. buf ! (unat (r + of_nat i) mod N)) [0..<unat (w - r)]"

lemma length_ring [simp]: "length (ring N buf r w) = unat (w - r)"
  by (simp add: ring_def)

lemma ring_empty [simp]: "ring N buf r r = []"
  by (simp add: ring_def)

lemma unat_add_mod:
  fixes a b :: "'w::len word"
  assumes "N dvd 2 ^ LENGTH('w)"
  shows "unat (a + b) mod N = (unat a + unat b) mod N"
  using assms by (simp add: unat_word_ariths mod_mod_cancel)

lemma ring_slot:
  fixes r :: "'w::len word"
  assumes "N dvd 2 ^ LENGTH('w)" "i < j" "j < i + N" "j < 2 ^ LENGTH('w)"
  shows "unat (r + of_nat i) mod N \<noteq> unat (r + of_nat j) mod N"
proof
  assume "unat (r + of_nat i) mod N = unat (r + of_nat j) mod N"
  then have "(unat r + i) mod N = (unat r + j) mod N"
    using assms by (simp add: unat_add_mod unat_of_nat take_bit_nat_eq_self)
  then have "N dvd (unat r + j) - (unat r + i)" using assms(2) by (subst (asm) eq_commute) (simp add: mod_eq_dvd_iff_nat)
  then have "N dvd j - i" by simp
  then have "N \<le> j - i" using assms(2) by (intro dvd_imp_le) simp_all
  then show False using assms(2,3) by linarith
qed

lemma unat_sub_Suc:
  fixes r w :: "'w::len word"
  assumes "unat (w - r) + 1 < 2 ^ LENGTH('w)"
  shows "unat (w + 1 - r) = unat (w - r) + 1"
proof -
  have "w + 1 - r = (w - r) + 1" by simp
  then show ?thesis using assms by (simp only: unat_word_ariths) simp
qed

lemma ring_put:
  fixes r w :: "'w::len word"
  assumes "N dvd 2 ^ LENGTH('w)" "N < 2 ^ LENGTH('w)" "length buf = N" "unat (w - r) < N"
  shows "ring N (buf[unat w mod N := x]) r (w + 1) = ring N buf r w @ [x]"
proof -
  let ?n = "unat (w - r)"
  have w: "w = r + of_nat ?n" by simp
  have n: "unat (w + 1 - r) = Suc ?n" using unat_sub_Suc [of w r] assms(2,4) by simp
  have N: "0 < N" using assms(4) by simp
  have "buf[unat w mod N := x] ! (unat (r + of_nat i) mod N) = buf ! (unat (r + of_nat i) mod N)" if "i < ?n" for i
  proof -
    have "unat (r + of_nat i) mod N \<noteq> unat (r + of_nat ?n) mod N"
      using that assms by (intro ring_slot) simp_all
    then show ?thesis by (simp add: w [symmetric])
  qed
  moreover have "buf[unat w mod N := x] ! (unat (r + of_nat ?n) mod N) = x"
    using N assms(3) by (simp add: w [symmetric])
  ultimately show ?thesis unfolding ring_def n by simp
qed

lemma ring_get:
  fixes r w :: "'w::len word"
  assumes "r \<noteq> w"
  shows "ring N buf r w = buf ! (unat r mod N) # ring N buf (r + 1) w" "unat (w - (r + 1)) = unat (w - r) - 1"
proof -
  have ne: "w - r \<noteq> 0" using assms by simp
  have "w - (r + 1) = (w - r) - 1" by simp
  then show n: "unat (w - (r + 1)) = unat (w - r) - 1" using unat_minus_one [OF ne] by (simp only:)
  have "0 < unat (w - r)" using ne by (simp add: unat_gt_0)
  then obtain k where k: "unat (w - r) = Suc k" by (cases "unat (w - r)") auto
  have "r + 1 + of_nat i = r + of_nat (Suc i)" for i by simp
  then show "ring N buf r w = buf ! (unat r mod N) # ring N buf (r + 1) w"
    unfolding ring_def n k by (simp add: upt_conv_Cons map_Suc_upt [symmetric] add.assoc del: upt_Suc)
qed

section \<open>The contract\<close>

locale fifo =
  fixes inv :: "'s \<Rightarrow> bool" and cont :: "'s \<Rightarrow> 'a list" and cap :: nat
    and put :: "'a \<Rightarrow> 's \<Rightarrow> 's" and front :: "'s \<Rightarrow> 'a" and get :: "'s \<Rightarrow> 's"
  assumes put: "inv s \<Longrightarrow> length (cont s) < cap \<Longrightarrow> inv (put x s) \<and> cont (put x s) = cont s @ [x]"
    and get: "inv s \<Longrightarrow> cont s \<noteq> [] \<Longrightarrow> inv (get s) \<and> front s = hd (cont s) \<and> cont (get s) = tl (cont s)"
begin

lemma put_many:
  "inv s \<Longrightarrow> length (cont s) + length xs \<le> cap \<Longrightarrow> inv (fold put xs s) \<and> cont (fold put xs s) = cont s @ xs"
proof (induction xs arbitrary: s)
  case (Cons x xs)
  then show ?case using put [of s x] by simp
qed simp

lemma get_many:
  "inv s \<Longrightarrow> n \<le> length (cont s) \<Longrightarrow> inv ((get ^^ n) s) \<and> cont ((get ^^ n) s) = drop n (cont s)
    \<and> map (\<lambda>i. front ((get ^^ i) s)) [0..<n] = take n (cont s)"
proof (induction n)
  case (Suc n)
  then have IH: "inv ((get ^^ n) s)" "cont ((get ^^ n) s) = drop n (cont s)"
    "map (\<lambda>i. front ((get ^^ i) s)) [0..<n] = take n (cont s)" by simp_all
  then have g: "inv (get ((get ^^ n) s))" "front ((get ^^ n) s) = hd (drop n (cont s))"
    "cont (get ((get ^^ n) s)) = tl (drop n (cont s))" using get [of "(get ^^ n) s"] Suc.prems(2) by simp_all
  then show ?case using IH Suc.prems(2) by (simp add: take_Suc_conv_app_nth hd_drop_conv_nth tl_drop drop_Suc)
qed simp

text \<open>What was put in comes out, in the same order.\<close>

lemma in_order:
  assumes "inv s" "cont s = []" "length xs \<le> cap"
  shows "map (\<lambda>i. front ((get ^^ i) (fold put xs s))) [0..<length xs] = xs"
    "cont ((get ^^ length xs) (fold put xs s)) = []"
  using put_many [OF assms(1), of xs] get_many [of "fold put xs s" "length xs"] assms(2,3) by simp_all

end

end
