(* ===== verification/Pipe_Fifo.thy ===== *)
theory Pipe_Fifo
  imports Sample_Files Ring Ubytes
begin

text \<open>
  \<^verbatim>\<open>kernel/pipe.c\<close>: a pipe is a first-in first-out queue of bytes, whatever its free-running
  32-bit counters are.
\<close>

section \<open>Locks and the file fields are independent\<close>

lemma acq_kfile [simp]:
  "files (acq l s) = files s" "pipes (acq l s) = pipes s"
  by (simp_all add: acq_def mach_defs)

lemma acq_kfile_upd [simp]:
  "files_update f0 (acq l s) = acq l (files_update f0 s)" 
  "pipes_update f1 (acq l s) = acq l (pipes_update f1 s)"
  by (simp_all add: acq_def mach_defs)

lemma cpu_ok_kfile [simp]:
  "cpu_ok (files_update f0 s) = cpu_ok s" "cpu_ok (pipes_update f1 s) = cpu_ok s"
  by (simp_all add: cpu_ok_def intr_get_def mach_defs)

lemma lock_free_kfile [simp]:
  "lock_free l (files_update f0 s) = lock_free l s" 
  "lock_free l (pipes_update f1 s) = lock_free l s"
  by (simp_all add: lock_free_def)

lemma mycpu_kfile [simp]:
  "mycpu (files_update f0 s) = mycpu s" "mycpu (pipes_update f1 s) = mycpu s"
  by (simp_all add: mach_defs)

lemma running_kfile [simp]:
  "running p (files_update f0 s) = running p s" "running p (pipes_update f1 s) = running p s"
  by (simp_all add: running_def)

lemma procs_free_kfile [simp]:
  "procs_free (files_update f0 s) = procs_free s" "procs_free (pipes_update f1 s) = procs_free s"
  by (simp_all add: procs_free_def)

lemma mycpu_mem [simp]: "mycpu (mem_update f s) = mycpu s"
  by (simp add: mach_defs)

lemma procs_free_mem [simp]: "procs_free (mem_update f s) = procs_free s" "running p (mem_update f s) = running p s"
  by (simp_all add: procs_free_def running_def)

lemma confined_ready: "confined s pt ps \<Longrightarrow> cpu_ok s" "confined s pt ps \<Longrightarrow> lock_free LkKmem s"
  by (simp_all add: confined_def vm_inv_def kmem_ready_def)

lemma confined_upd [simp]:
  "confined (pipes_update f s) pt ps = confined s pt ps" "confined (procs_update g s) pt ps = confined s pt ps"
  by (auto intro: confined_cong simp: confined_def vm_inv_def kmem_inv_def kmem_ready_def phys_page_def)

lemma confined_acq: "confined s pt ps \<Longrightarrow> l \<noteq> LkKmem \<Longrightarrow> confined (acq l s) pt ps"
  by (rule confined_cong [of s]) (simp_all add: confined_ready)

section \<open>The queue\<close>

definition pipe_inv :: "pipe \<Rightarrow> bool" where
  "pipe_inv p \<longleftrightarrow> length (pi_data p) = PIPESIZE \<and> unat (pi_nwrite p - pi_nread p) \<le> PIPESIZE"

definition pipe_cont :: "pipe \<Rightarrow> uint8 list" where
  "pipe_cont p = ring PIPESIZE (pi_data p) (pi_nread p) (pi_nwrite p)"

definition pipe_put :: "uint8 \<Rightarrow> pipe \<Rightarrow> pipe" where
  "pipe_put c p = p\<lparr>pi_data := (pi_data p)[unat (pi_nwrite p) mod PIPESIZE := c], pi_nwrite := pi_nwrite p + 1\<rparr>"

definition pipe_front :: "pipe \<Rightarrow> uint8" where
  "pipe_front p = pi_data p ! (unat (pi_nread p) mod PIPESIZE)"

definition pipe_get :: "pipe \<Rightarrow> pipe" where
  "pipe_get p = p\<lparr>pi_nread := pi_nread p + 1\<rparr>"

lemma PIPESIZE_word: "PIPESIZE dvd 2 ^ LENGTH(32)" "PIPESIZE < 2 ^ LENGTH(32)"
  by (simp_all add: PIPESIZE_def)

interpretation pq: fifo pipe_inv pipe_cont PIPESIZE pipe_put pipe_front pipe_get
proof
  fix p x
  assume "pipe_inv p" "length (pipe_cont p) < PIPESIZE"
  then have a: "length (pi_data p) = PIPESIZE" "unat (pi_nwrite p - pi_nread p) < PIPESIZE"
    by (simp_all add: pipe_inv_def pipe_cont_def)
  have "unat (pi_nwrite p + 1 - pi_nread p) = unat (pi_nwrite p - pi_nread p) + 1"
    using a(2) by (intro unat_sub_Suc) (simp add: PIPESIZE_def)
  then show "pipe_inv (pipe_put x p) \<and> pipe_cont (pipe_put x p) = pipe_cont p @ [x]"
    using ring_put [OF PIPESIZE_word a] a by (simp add: pipe_inv_def pipe_cont_def pipe_put_def)
next
  fix p
  assume p: "pipe_inv p" "pipe_cont p \<noteq> []"
  then have "pi_nread p \<noteq> pi_nwrite p" by (auto simp: pipe_cont_def)
  from ring_get(1) [OF this, of PIPESIZE "pi_data p"] ring_get(2) [OF this]
  show "pipe_inv (pipe_get p) \<and> pipe_front p = hd (pipe_cont p) \<and> pipe_cont (pipe_get p) = tl (pipe_cont p)"
    using p(1) by (auto simp: pipe_inv_def pipe_cont_def pipe_front_def pipe_get_def)
qed

lemma pipe_empty: "pipe_cont p = [] \<longleftrightarrow> pi_nread p = pi_nwrite p"
proof -
  have "pipe_cont p = [] \<longleftrightarrow> unat (pi_nwrite p - pi_nread p) = 0" by (metis length_0_conv length_ring pipe_cont_def)
  also have "\<dots> \<longleftrightarrow> pi_nread p = pi_nwrite p" by (auto simp: unat_eq_0)
  finally show ?thesis .
qed

lemma pipe_full: "pipe_inv p \<Longrightarrow> pi_nwrite p = pi_nread p + of_nat PIPESIZE \<longleftrightarrow> length (pipe_cont p) = PIPESIZE"
proof -
  have "pi_nwrite p = pi_nread p + of_nat PIPESIZE \<longleftrightarrow> pi_nwrite p - pi_nread p = of_nat PIPESIZE" by (auto simp: algebra_simps)
  also have "\<dots> \<longleftrightarrow> unat (pi_nwrite p - pi_nread p) = unat (of_nat PIPESIZE :: uint32)" by (rule word_unat_eq_iff)
  also have "unat (of_nat PIPESIZE :: uint32) = PIPESIZE" by (simp add: PIPESIZE_def)
  finally show ?thesis by (simp add: pipe_cont_def)
qed

lemma fold_pipe_put_open [simp]:
  "pi_readopen (fold pipe_put bs p) = pi_readopen p" "pi_writeopen (fold pipe_put bs p) = pi_writeopen p"
  by (induction bs arbitrary: p) (simp_all add: pipe_put_def)

section \<open>Writing\<close>

lemma pipewrite_loop_spec:
  assumes "confined s pt ps" "pagetable (procs s pr) = pt" "\<not> killed (procs s pr)" "pi_readopen (pipes s pi)"
    "pipe_inv (pipes s pi)" "length (pipe_cont (pipes s pi)) + k \<le> PIPESIZE"
    "\<And>j. i \<le> j \<Longrightarrow> j < i + k \<Longrightarrow> utrans (mem s) pt (addr + of_nat j) \<noteq> None"
  shows "pipewrite_loop pr pi addr k i (acq (LkPipe pi) s) =
    pipewrite_loop pr pi addr 0 (i + k) (acq (LkPipe pi) (s\<lparr>pipes := (pipes s)(pi :=
      fold pipe_put (map (\<lambda>j. mem s (the (utrans (mem s) pt (addr + of_nat j)))) [i..<i + k]) (pipes s pi))\<rparr>))"
  using assms
proof (induction k arbitrary: s i)
  case 0
  then show ?case by simp
next
  case (Suc k)
  let ?c = "mem s (the (utrans (mem s) pt (addr + of_nat i)))"
  let ?s = "s\<lparr>pipes := (pipes s)(pi := pipe_put ?c (pipes s pi))\<rparr>"
  have nf: "pi_nwrite (pipes s pi) \<noteq> pi_nread (pipes s pi) + of_nat PIPESIZE"
    using pipe_full [OF Suc.prems(5)] Suc.prems(6) by simp
  obtain a where a: "utrans (mem s) pt (addr + of_nat i) = Some a" using Suc.prems(7) [of i] by auto
  have "copyin_b pt (addr + of_nat i) 1 (acq (LkPipe pi) s) = Ok ([?c], True) (acq (LkPipe pi) s)"
    using copyin_b_one [OF confined_acq [OF Suc.prems(1)], of "LkPipe pi"] a by simp
  then have "pipewrite_loop pr pi addr (Suc k) i (acq (LkPipe pi) s) = pipewrite_loop pr pi addr k (Suc i) (acq (LkPipe pi) ?s)"
    using Suc.prems(2-4) nf by (simp add: getpi_def getp_def upd_pipe_def pipe_put_def)
  also have "\<dots> = pipewrite_loop pr pi addr 0 (Suc i + k) (acq (LkPipe pi) (?s\<lparr>pipes := (pipes ?s)(pi :=
      fold pipe_put (map (\<lambda>j. mem ?s (the (utrans (mem ?s) pt (addr + of_nat j)))) [Suc i..<Suc i + k]) (pipes ?s pi))\<rparr>))"
    by (rule Suc.IH) (use Suc.prems pq.put [of "pipes s pi" ?c] in \<open>auto simp: pipe_put_def\<close>)
  also have "\<dots> = pipewrite_loop pr pi addr 0 (i + Suc k) (acq (LkPipe pi) (s\<lparr>pipes := (pipes s)(pi :=
      fold pipe_put (map (\<lambda>j. mem s (the (utrans (mem s) pt (addr + of_nat j)))) [i..<i + Suc k]) (pipes s pi))\<rparr>))"
    by (simp add: upt_conv_Cons del: upt_Suc)
  finally show ?case .
qed

section \<open>Reading\<close>

lemma confined_byte:
  assumes "confined s pt ps" "utrans (mem s) pt va = Some a"
  shows "confined (s\<lparr>mem := (mem s)(a := c)\<rparr>) pt ps" "utrans ((mem s)(a := c)) pt = utrans (mem s) pt"
proof -
  have "\<forall>x. PGROUNDDOWN x \<notin> uframe (mem s) pt \<longrightarrow> ((mem s)(a := c)) x = mem s x"
    using assms(2) by (auto simp: uframe_def)
  note w = confined_write [OF assms(1) this]
  show "confined (s\<lparr>mem := (mem s)(a := c)\<rparr>) pt ps" by (rule w(1))
  show "utrans ((mem s)(a := c)) pt = utrans (mem s) pt" by (rule w(3))
qed

lemma piperead_copy_spec:
  assumes "confined s pt ps" "pagetable (procs s pr) = pt" "pipe_inv (pipes s pi)" "k \<le> length (pipe_cont (pipes s pi))"
    "\<And>j. j < k \<Longrightarrow> utrans (mem s) pt (addr + of_nat (i + j)) \<noteq> None"
    "\<And>j l. j < l \<Longrightarrow> l < k \<Longrightarrow> utrans (mem s) pt (addr + of_nat (i + j)) \<noteq> utrans (mem s) pt (addr + of_nat (i + l))"
  shows "\<exists>m. piperead_copy pr pi addr k i (acq (LkPipe pi) s) = Ok (i + k) (acq (LkPipe pi)
      (s\<lparr>pipes := (pipes s)(pi := (pipe_get ^^ k) (pipes s pi)), mem := m\<rparr>))
    \<and> confined (s\<lparr>mem := m\<rparr>) pt ps \<and> utrans m pt = utrans (mem s) pt
    \<and> copied (mem s) (\<lambda>j. utrans (mem s) pt (addr + of_nat (i + j))) (\<lambda>j. pipe_cont (pipes s pi) ! j) k m"
  using assms
proof (induction k arbitrary: s i)
  case 0
  have "s\<lparr>pipes := (pipes s)(pi := pipes s pi), mem := mem s\<rparr> = s" by simp
  then show ?case using 0 by (intro exI [of _ "mem s"]) (simp add: copied_def)
next
  case (Suc k)
  let ?p = "pipes s pi"
  define U where "U = (\<lambda>j. utrans (mem s) pt (addr + of_nat (i + j)))"
  obtain a where a: "U 0 = Some a" using Suc.prems(5) [of 0] by (auto simp: U_def)
  let ?s = "s\<lparr>pipes := (pipes s)(pi := pipe_get ?p), mem := (mem s)(a := pipe_front ?p)\<rparr>"
  have ne: "pipe_cont ?p \<noteq> []" using Suc.prems(4) by auto
  note g = pq.get [OF Suc.prems(3) ne]
  have "copyout_b pt (addr + of_nat i) [pipe_front ?p] (acq (LkPipe pi) (s\<lparr>pipes := (pipes s)(pi := pipe_get ?p)\<rparr>)) =
      Ok 0 (acq (LkPipe pi) ?s)"
    using copyout_b_one [OF confined_acq, of "s\<lparr>pipes := (pipes s)(pi := pipe_get ?p)\<rparr>" pt ps "LkPipe pi"] Suc.prems(1) a
    by (simp add: U_def)
  then have 1: "piperead_copy pr pi addr (Suc k) i (acq (LkPipe pi) s) = piperead_copy pr pi addr k (Suc i) (acq (LkPipe pi) ?s)"
    using Suc.prems(2) ne pipe_empty [of ?p] by (simp add: getpi_def getp_def upd_pipe_def pipe_get_def pipe_front_def)
  have cb: "confined ?s pt ps" "utrans ((mem s)(a := pipe_front ?p)) pt = utrans (mem s) pt"
    using confined_byte [of "s\<lparr>pipes := (pipes s)(pi := pipe_get ?p)\<rparr>" pt ps _ a] Suc.prems(1) a by (simp_all add: U_def)
  have "\<exists>m. piperead_copy pr pi addr k (Suc i) (acq (LkPipe pi) ?s) = Ok (Suc i + k) (acq (LkPipe pi)
      (?s\<lparr>pipes := (pipes ?s)(pi := (pipe_get ^^ k) (pipes ?s pi)), mem := m\<rparr>))
    \<and> confined (?s\<lparr>mem := m\<rparr>) pt ps \<and> utrans m pt = utrans (mem ?s) pt
    \<and> copied (mem ?s) (\<lambda>j. utrans (mem ?s) pt (addr + of_nat (Suc i + j))) (\<lambda>j. pipe_cont (pipes ?s pi) ! j) k m"
  proof (rule Suc.IH)
    show "utrans (mem ?s) pt (addr + of_nat (Suc i + j)) \<noteq> None" if "j < k" for j
      using Suc.prems(5) [of "Suc j"] that cb(2) by (simp add: algebra_simps)
    show "utrans (mem ?s) pt (addr + of_nat (Suc i + j)) \<noteq> utrans (mem ?s) pt (addr + of_nat (Suc i + l))"
      if "j < l" "l < k" for j l
      using Suc.prems(6) [of "Suc j" "Suc l"] that cb(2) by (simp add: algebra_simps)
  qed (use cb(1) Suc.prems(2,4) g in simp_all)
  then obtain m where m: "piperead_copy pr pi addr k (Suc i) (acq (LkPipe pi) ?s) = Ok (Suc i + k) (acq (LkPipe pi)
      (?s\<lparr>pipes := (pipes ?s)(pi := (pipe_get ^^ k) (pipes ?s pi)), mem := m\<rparr>))"
    "confined (?s\<lparr>mem := m\<rparr>) pt ps" "utrans m pt = utrans (mem ?s) pt"
    "copied (mem ?s) (\<lambda>j. utrans (mem ?s) pt (addr + of_nat (Suc i + j))) (\<lambda>j. pipe_cont (pipes ?s pi) ! j) k m"
    by blast
  have "copied (mem s) U (\<lambda>j. pipe_cont ?p ! j) (1 + k) m"
  proof (rule copied_append)
    show "copied (mem s) U (\<lambda>j. pipe_cont ?p ! j) 1 ((mem s)(a := pipe_front ?p))"
      using a g ne by (simp add: copied_def hd_conv_nth)
    show "copied ((mem s)(a := pipe_front ?p)) (\<lambda>j. U (1 + j)) (\<lambda>j. pipe_cont ?p ! (1 + j)) k m"
    proof -
      have "pipe_cont (pipes ?s pi) ! j = pipe_cont ?p ! (1 + j)" for j
        using g ne by (cases "pipe_cont ?p") simp_all
      moreover have "utrans (mem ?s) pt (addr + of_nat (Suc i + j)) = U (1 + j)" for j
        using cb(2) by (simp add: U_def add.left_commute)
      ultimately show ?thesis using m(4) by simp
    qed
    show "U l \<noteq> U (1 + j)" if "l < 1" "j < k" for l j
      using Suc.prems(6) [of 0 "Suc j"] that by (simp add: U_def algebra_simps)
  qed
  moreover have "?s\<lparr>pipes := (pipes ?s)(pi := (pipe_get ^^ k) (pipes ?s pi)), mem := m\<rparr> =
      s\<lparr>pipes := (pipes s)(pi := (pipe_get ^^ Suc k) ?p), mem := m\<rparr>"
    by (simp add: funpow_swap1)
  moreover have "confined (s\<lparr>mem := m\<rparr>) pt ps"
    by (rule confined_cong [OF m(2)]) (use confined_ready [OF m(2)] in simp_all)
  ultimately show ?case using 1 m(1,3) cb(2) by (intro exI [of _ m]) (simp only: U_def, simp add: fun_upd_def)
qed

section \<open>The whole routines\<close>

definition pipe_ready :: "uint64 \<Rightarrow> nat \<Rightarrow> 'a kfile_scheme \<Rightarrow> bool" where
  \<comment> \<open>process \<open>pr\<close> runs, was not killed, both ends are open and no lock that is needed is held\<close>
  "pipe_ready pi pr s \<longleftrightarrow> running pr s \<and> procs_free s \<and> lock_free (LkPipe pi) s \<and> \<not> killed (procs s pr)
    \<and> pi_readopen (pipes s pi) \<and> pi_writeopen (pipes s pi) \<and> pipe_inv (pipes s pi)"

lemma pipewrite_spec:
  assumes "confined s pt ps" "pagetable (procs s pr) = pt" "pipe_ready pi pr s"
    "length (pipe_cont (pipes s pi)) + nat (sint n) \<le> PIPESIZE"
    "\<And>j. j < nat (sint n) \<Longrightarrow> utrans (mem s) pt (addr + of_nat j) \<noteq> None"
  shows "pipewrite pi addr n s = Ok (max 0 (sint n)) (s\<lparr>pipes := (pipes s)(pi :=
      fold pipe_put (map (\<lambda>j. mem s (the (utrans (mem s) pt (addr + of_nat j)))) [0..<nat (sint n)]) (pipes s pi)),
      procs := wakes (ChPipeRead pi) s\<rparr>)"
proof -
  have r: "cpu_ok s" "running pr s" "lock_free (LkPipe pi) s" using assms(3) by (simp_all add: pipe_ready_def procs_free_def)
  show ?thesis
    using pipewrite_loop_spec [OF assms(1,2), of pi "nat (sint n)" 0 addr] assms(3-5)
    by (simp add: pipewrite_def pipe_ready_def wakeup_eq wakes_def max_def r curproc_running [OF r(1,2)])
qed

lemma piperead_spec:
  assumes "confined s pt ps" "pagetable (procs s pr) = pt" "pipe_ready pi pr s" "pipe_cont (pipes s pi) \<noteq> []"
    "nat (sint n) \<le> length (pipe_cont (pipes s pi))"
    "\<And>j. j < nat (sint n) \<Longrightarrow> utrans (mem s) pt (addr + of_nat j) \<noteq> None"
    "inj_on (\<lambda>j. utrans (mem s) pt (addr + of_nat j)) {..<nat (sint n)}"
  shows "\<exists>m. piperead pi addr n s = Ok (max 0 (sint n)) (s\<lparr>pipes := (pipes s)(pi := (pipe_get ^^ nat (sint n)) (pipes s pi)),
      mem := m, procs := wakes (ChPipeWrite pi) s\<rparr>)
    \<and> copied (mem s) (\<lambda>j. utrans (mem s) pt (addr + of_nat j)) (\<lambda>j. pipe_cont (pipes s pi) ! j) (nat (sint n)) m"
proof -
  have r: "cpu_ok s" "pipe_inv (pipes s pi)" "running pr s" "lock_free (LkPipe pi) s" using assms(3) by (simp_all add: pipe_ready_def procs_free_def)
  have "utrans (mem s) pt (addr + of_nat (0 + j)) \<noteq> utrans (mem s) pt (addr + of_nat (0 + l))"
    if "j < l" "l < nat (sint n)" for j l
    using inj_onD [OF assms(7), of j l] that by auto
  then have "\<exists>m. piperead_copy pr pi addr (nat (sint n)) 0 (acq (LkPipe pi) s) = Ok (0 + nat (sint n)) (acq (LkPipe pi)
      (s\<lparr>pipes := (pipes s)(pi := (pipe_get ^^ nat (sint n)) (pipes s pi)), mem := m\<rparr>))
    \<and> confined (s\<lparr>mem := m\<rparr>) pt ps \<and> utrans m pt = utrans (mem s) pt
    \<and> copied (mem s) (\<lambda>j. utrans (mem s) pt (addr + of_nat (0 + j))) (\<lambda>j. pipe_cont (pipes s pi) ! j) (nat (sint n)) m"
    using assms(6) by (intro piperead_copy_spec [OF assms(1,2) r(2) assms(5)]) simp_all
  then obtain m where m: "piperead_copy pr pi addr (nat (sint n)) 0 (acq (LkPipe pi) s) = Ok (nat (sint n)) (acq (LkPipe pi)
      (s\<lparr>pipes := (pipes s)(pi := (pipe_get ^^ nat (sint n)) (pipes s pi)), mem := m\<rparr>))"
    "copied (mem s) (\<lambda>j. utrans (mem s) pt (addr + of_nat j)) (\<lambda>j. pipe_cont (pipes s pi) ! j) (nat (sint n)) m"
    by auto
  then show ?thesis using assms(3,4) pipe_empty [of "pipes s pi"]
    by (intro exI [of _ m]) (simp add: piperead_def piperead_pass_def getpi_def pipe_ready_def wakeup_eq wakes_def max_def r
        curproc_running [OF r(1,3)])
qed

section \<open>Properties\<close>

text \<open>
  C10.  A pipe delivers what was written to it, in order.  A process that writes \<open>n\<close> bytes, at
  most \<^verbatim>\<open>PIPESIZE\<close>, from readable memory into an empty pipe is told that \<open>n\<close> bytes were written,
  and a \<^verbatim>\<open>piperead\<close> of \<open>n\<close> bytes returns \<open>n\<close>, stores exactly those bytes at its
  destination, changes no other byte of memory and leaves the pipe empty.  This holds
  for all values of the free-running 32-bit counters, also when they wrap around on the way.
\<close>

theorem pipe_transfer:
  assumes "confined s pt ps" "pagetable (procs s pr) = pt" "pipe_ready pi pr s" "pipe_cont (pipes s pi) = []"
    "0 < sint n" "nat (sint n) \<le> PIPESIZE"
    "\<And>j. j < nat (sint n) \<Longrightarrow> utrans (mem s) pt (src + of_nat j) \<noteq> None"
    "\<And>j. j < nat (sint n) \<Longrightarrow> utrans (mem s) pt (dst + of_nat j) \<noteq> None"
    "inj_on (\<lambda>j. utrans (mem s) pt (dst + of_nat j)) {..<nat (sint n)}"
  shows "\<exists>t u. pipewrite pi src n s = Ok (sint n) t \<and> piperead pi dst n t = Ok (sint n) u
    \<and> copied (mem s) (\<lambda>j. utrans (mem s) pt (dst + of_nat j))
        (\<lambda>j. mem s (the (utrans (mem s) pt (src + of_nat j)))) (nat (sint n)) (mem u)
    \<and> pipe_cont (pipes u pi) = []"
proof -
  define bs where "bs = map (\<lambda>j. mem s (the (utrans (mem s) pt (src + of_nat j)))) [0..<nat (sint n)]"
  let ?t = "s\<lparr>pipes := (pipes s)(pi := fold pipe_put bs (pipes s pi)), procs := wakes (ChPipeRead pi) s\<rparr>"
  have inv: "pipe_inv (pipes s pi)" using assms(3) by (simp add: pipe_ready_def)
  have w: "pipewrite pi src n s = Ok (sint n) ?t"
    using pipewrite_spec [OF assms(1-3), of n src] assms(4-7) by (simp add: bs_def)
  have c: "pipe_inv (fold pipe_put bs (pipes s pi))" "pipe_cont (fold pipe_put bs (pipes s pi)) = bs"
    using pq.put_many [OF inv, of bs] assms(4,6) by (simp_all add: bs_def)
  have ready: "pipe_ready pi pr ?t" using assms(3) c(1) by (simp add: pipe_ready_def wakes_def woken_def)
  have "confined ?t pt ps" "pagetable (procs ?t pr) = pt" using assms(1,2) by (simp_all add: wakes_def woken_def)
  from piperead_spec [OF this ready, of n dst]
  obtain m where m: "piperead pi dst n ?t = Ok (sint n) (?t\<lparr>pipes := (pipes ?t)(pi := (pipe_get ^^ nat (sint n)) (pipes ?t pi)),
      mem := m, procs := wakes (ChPipeWrite pi) ?t\<rparr>)"
    "copied (mem s) (\<lambda>j. utrans (mem s) pt (dst + of_nat j)) (\<lambda>j. bs ! j) (nat (sint n)) m"
    using assms(5,8,9) c(2) by (auto simp: bs_def max_def)
  have "pipe_cont ((pipe_get ^^ nat (sint n)) (fold pipe_put bs (pipes s pi))) = []"
    using pq.get_many [OF c(1), of "nat (sint n)"] c(2) by (simp add: bs_def)
  then show ?thesis using w m by (intro exI conjI) (auto simp: bs_def copied_def)
qed

theorem pipe_transfer_witness:
  "\<exists>t u. pipewrite 0x80105000 16 2 one_kfile = Ok 2 t \<and> piperead 0x80105000 64 2 t = Ok 2 u
    \<and> mem u 0x80103041 = sample_mem 0x80103011 \<and> pipe_cont (pipes u 0x80105000) = []"
proof -
  have s: "sint (2 :: int32) = 2" by simp
  have u: "utrans (mem one_kfile) sample_pt (16 + of_nat j) = Some (0x80103010 + of_nat j)"
    "utrans (mem one_kfile) sample_pt (64 + of_nat j) = Some (0x80103040 + of_nat j)" if "j < nat (sint (2 :: int32))" for j
  proof -
    have "j = 0 \<or> j = 1" using that s by auto
    then show "utrans (mem one_kfile) sample_pt (16 + of_nat j) = Some (0x80103010 + of_nat j)"
      "utrans (mem one_kfile) sample_pt (64 + of_nat j) = Some (0x80103040 + of_nat j)"
      by (auto simp: sample_utrans PGROUNDDOWN_def const_defs)
  qed
  have inj: "inj_on (\<lambda>j. utrans (mem one_kfile) sample_pt (64 + of_nat j)) {..<nat (sint (2 :: int32))}"
  proof (rule inj_onI)
    fix i j assume "i \<in> {..<nat (sint (2 :: int32))}" "j \<in> {..<nat (sint (2 :: int32))}"
      "utrans (mem one_kfile) sample_pt (64 + of_nat i) = utrans (mem one_kfile) sample_pt (64 + of_nat j)"
    moreover have "i = 0 \<or> i = 1" "j = 0 \<or> j = 1" using calculation(1,2) s by auto
    ultimately show "i = j" using u(2) [of i] u(2) [of j] by auto
  qed
  have "pipe_ready 0x80105000 0 one_kfile" "pipe_cont (pipes one_kfile 0x80105000) = []"
    "pagetable (procs one_kfile 0) = sample_pt"
    by (simp_all add: pipe_ready_def pipe_inv_def pipe_cont_def full_turn_pipe_def one_proc_def zero_proc_def)
  from pipe_transfer [OF one_kfile_confined this(3,1,2) _ _ _ _ inj, of 16]
  obtain t u' where "pipewrite 0x80105000 16 2 one_kfile = Ok 2 t" "piperead 0x80105000 64 2 t = Ok 2 u'"
    "copied (mem one_kfile) (\<lambda>j. utrans (mem one_kfile) sample_pt (64 + of_nat j))
      (\<lambda>j. mem one_kfile (the (utrans (mem one_kfile) sample_pt (16 + of_nat j)))) 2 (mem u')"
    "pipe_cont (pipes u' 0x80105000) = []"
    using u by (auto simp: PIPESIZE_def s)
  moreover have "mem u' (0x80103040 + of_nat 1) = mem one_kfile (the (Some (0x80103010 + of_nat 1)))"
    using calculation(3) u(1) [of 1] u(2) [of 1] s unfolding copied_def
    by (auto dest: spec [where x = 1])
  ultimately show ?thesis by auto
qed

text \<open>
  C31.  Error paths of the pipe.  Reading into memory the process does not have returns 0 and
  still takes a byte out of the pipe, so the byte is lost.  Writing to a pipe nobody can read
  any more returns -1 and puts nothing into it, and reading from an empty pipe nobody can
  write any more returns 0, the end of file, and stores nothing.
\<close>

theorem pipe_errors:
  assumes "confined s pt ps" "pagetable (procs s pr) = pt" "running pr s" "procs_free s" "lock_free (LkPipe pi) s"
    "pipe_inv (pipes s pi)" "0 < sint n"
  shows "(pipe_cont (pipes s pi) \<noteq> [] \<and> utrans (mem s) pt addr = None \<longrightarrow>
      (\<exists>t. piperead pi addr n s = Ok 0 t \<and> mem t = mem s \<and> pipe_cont (pipes t pi) = tl (pipe_cont (pipes s pi))))
    \<and> (\<not> pi_readopen (pipes s pi) \<longrightarrow> pipewrite pi addr n s = Ok (-1) s)
    \<and> (\<not> pi_writeopen (pipes s pi) \<and> pipe_cont (pipes s pi) = [] \<longrightarrow>
      piperead pi addr n s = Ok 0 (s\<lparr>procs := wakes (ChPipeWrite pi) s\<rparr>))"
proof (intro conjI impI; (elim conjE)?)
  have r: "cpu_ok s" using assms(4) by (simp add: procs_free_def)
  obtain k where k: "nat (sint n) = Suc k" using assms(7) by (cases "nat (sint n)") auto
  note cur = curproc_running [OF r assms(3)]
  show "pipewrite pi addr n s = Ok (-1) s" if "\<not> pi_readopen (pipes s pi)"
    using that assms(5) r by (simp add: pipewrite_def k cur getpi_def getp_def)
  show "piperead pi addr n s = Ok 0 (s\<lparr>procs := wakes (ChPipeWrite pi) s\<rparr>)"
    if "\<not> pi_writeopen (pipes s pi)" "pipe_cont (pipes s pi) = []"
    using that assms(4,5) r by (simp add: piperead_def piperead_pass_def k cur getpi_def pipe_empty wakeup_eq wakes_def)
  assume ne: "pipe_cont (pipes s pi) \<noteq> []" and u: "utrans (mem s) pt addr = None"
  let ?s = "s\<lparr>pipes := (pipes s)(pi := pipe_get (pipes s pi))\<rparr>"
  have "copyout_b pt addr [pipe_front (pipes s pi)] (acq (LkPipe pi) ?s) = Ok (-1) (acq (LkPipe pi) ?s)"
    using copyout_b_one [OF confined_acq, of ?s pt ps "LkPipe pi"] assms(1) u by simp
  then have "piperead pi addr n s = Ok 0 (?s\<lparr>procs := wakes (ChPipeWrite pi) ?s\<rparr>)"
    using assms(2,4,5) ne r
    by (simp add: piperead_def piperead_pass_def k cur getpi_def getp_def upd_pipe_def pipe_get_def pipe_front_def pipe_empty
        wakeup_eq wakes_def)
  then show "\<exists>t. piperead pi addr n s = Ok 0 t \<and> mem t = mem s \<and> pipe_cont (pipes t pi) = tl (pipe_cont (pipes s pi))"
    using pq.get [OF assms(6) ne] by simp
qed

theorem pipe_errors_witness:
  "(\<exists>t. piperead 0x80105000 8192 1 (one_kfile\<lparr>pipes := (\<lambda>_. pipe_put 7 full_turn_pipe)\<rparr>) = Ok 0 t
      \<and> pipe_cont (pipes t 0x80105000) = [])
    \<and> (let s = one_kfile\<lparr>pipes := (\<lambda>_. full_turn_pipe\<lparr>pi_readopen := False, pi_writeopen := False\<rparr>)\<rparr>
       in pipewrite 0x80105000 0 1 s = Ok (-1) s
        \<and> piperead 0x80105000 0 1 s = Ok 0 (s\<lparr>procs := wakes (ChPipeWrite 0x80105000) s\<rparr>))"
proof
  let ?s = "one_kfile\<lparr>pipes := (\<lambda>_. pipe_put 7 full_turn_pipe)\<rparr>"
  have "pipe_inv full_turn_pipe" "pipe_cont full_turn_pipe = []"
    by (simp_all add: pipe_inv_def pipe_cont_def full_turn_pipe_def)
  then have p: "pipe_inv (pipe_put 7 full_turn_pipe)" "pipe_cont (pipe_put 7 full_turn_pipe) = [7]"
    using pq.put [of full_turn_pipe 7] by (simp_all add: PIPESIZE_def)
  have c: "confined (one_kfile\<lparr>pipes := p\<rparr>) sample_pt []" for p using one_kfile_confined by simp
  have "utrans (mem ?s) sample_pt 8192 = None" by (simp add: sample_utrans PGROUNDDOWN_def const_defs)
  then show "\<exists>t. piperead 0x80105000 8192 1 ?s = Ok 0 t \<and> pipe_cont (pipes t 0x80105000) = []"
    using pipe_errors [OF c, of "\<lambda>_. pipe_put 7 full_turn_pipe" 0 "0x80105000" 1 8192] p
    by (auto simp: one_proc_def zero_proc_def)
  let ?t = "one_kfile\<lparr>pipes := (\<lambda>_. full_turn_pipe\<lparr>pi_readopen := False, pi_writeopen := False\<rparr>)\<rparr>"
  show "let s = ?t in pipewrite 0x80105000 0 1 s = Ok (-1) s
        \<and> piperead 0x80105000 0 1 s = Ok 0 (s\<lparr>procs := wakes (ChPipeWrite 0x80105000) s\<rparr>)"
    using pipe_errors [OF c, of "\<lambda>_. full_turn_pipe\<lparr>pi_readopen := False, pi_writeopen := False\<rparr>" 0 "0x80105000" 1 0]
    by (simp add: one_proc_def zero_proc_def pipe_inv_def pipe_cont_def full_turn_pipe_def)
qed

end
