(* ===== verification/Ulib.thy ===== *)
theory Ulib
  imports Xv6_Prelude
begin

text \<open>
  The user library: \<^verbatim>\<open>user/ulib.c\<close> and \<^verbatim>\<open>user/printf.c\<close>.  A C string is the list of its
  characters without the final NUL, a pointer into it is an index, and the standard input is
  the list of characters still to be read.  What a program writes is the list of characters it
  has passed to \<^verbatim>\<open>write\<close>.
\<close>

section \<open>Strings\<close>

definition NUL :: char where "NUL = CHR 0x00"

fun strlen :: "string \<Rightarrow> nat" where
  "strlen [] = 0"
| "strlen (c # s) = Suc (strlen s)"

fun strcpy :: "string \<Rightarrow> string \<Rightarrow> string option" where
  \<comment> \<open>the destination array after the copy; running over its end is undefined\<close>
  "strcpy [] t = None"
| "strcpy (d # s) [] = Some (NUL # s)"
| "strcpy (d # s) (c # t) = map_option ((#) c) (strcpy s t)"

fun strcmp :: "string \<Rightarrow> string \<Rightarrow> int" where
  "strcmp (c # p) (d # q) = (if c = d then strcmp p q else of_char c - of_char d)"
| "strcmp (c # p) [] = of_char c"
| "strcmp [] (d # q) = - of_char d"
| "strcmp [] [] = 0"

fun strchr :: "string \<Rightarrow> char \<Rightarrow> nat option" where
  \<comment> \<open>\<^verbatim>\<open>None\<close> is the null pointer\<close>
  "strchr [] c = None"
| "strchr (d # s) c = (if d = c then Some 0 else map_option Suc (strchr s c))"

fun atoi_loop :: "int \<Rightarrow> string \<Rightarrow> int option" where
  \<comment> \<open>\<open>n\<close> is an \<^verbatim>\<open>int\<close>: it is undefined (\<open>None\<close>) if \<^verbatim>\<open>n*10 + *s\<close>, from which \<^verbatim>\<open>'0'\<close> is still to be
      subtracted, overflows\<close>
  "atoi_loop n [] = Some n"
| "atoi_loop n (c # s) =
     (if (of_char CHR ''0'' :: nat) \<le> of_char c \<and> of_char c \<le> (of_char CHR ''9'' :: nat)
      then if n * 10 + of_char c < 2 ^ 31 then atoi_loop (n * 10 + of_char c - of_char CHR ''0'') s else None
      else Some n)"

definition atoi :: "string \<Rightarrow> int option" where
  "atoi s = atoi_loop 0 s"

fun memcmp :: "char list \<Rightarrow> char list \<Rightarrow> nat \<Rightarrow> int option" where
  \<comment> \<open>the first \<open>n\<close> bytes of two objects; reading beyond one of them is undefined\<close>
  "memcmp p1 p2 0 = Some 0"
| "memcmp (c # p1) (d # p2) (Suc n) = (if c \<noteq> d then Some (of_char c - of_char d) else memcmp p1 p2 n)"
| "memcmp _ _ (Suc n) = None"

fun gets_loop :: "nat \<Rightarrow> string \<Rightarrow> string \<times> string" where
  \<comment> \<open>with room for \<open>k\<close> characters before the final NUL: the characters stored and the input left\<close>
  "gets_loop 0 inp = ([], inp)"
| "gets_loop (Suc k) [] = ([], [])"
| "gets_loop (Suc k) (c # inp) =
     (if c = CHR 0x0A \<or> c = CHR 0x0D then ([c], inp)
      else let (s, rest) = gets_loop k inp in (c # s, rest))"

definition gets_user :: "int \<Rightarrow> string \<Rightarrow> string \<times> string" where
  \<comment> \<open>\<^verbatim>\<open>gets(buf, max)\<close>\<close>
  "gets_user n inp = gets_loop (nat (n - 1)) inp"

section \<open>Formatted output\<close>

definition digits :: string where
  "digits = ''0123456789ABCDEF''"

lemma quotient_less: "\<not> base < 2 \<Longrightarrow> 0 < x div base \<Longrightarrow> x div base < (x :: nat)"
  by (rule div_less_dividend) (auto intro: gr0I)

function digit_loop :: "nat \<Rightarrow> nat \<Rightarrow> string" where
  \<comment> \<open>\<^verbatim>\<open>do buf[i++] = digits[x % base]; while((x /= base) != 0)\<close>; the base is 10 or 16 in
      every call\<close>
  "digit_loop base x = digits ! (x mod base) #
     (if base < 2 \<or> x div base = 0 then [] else digit_loop base (x div base))"
  by auto

termination
  by (relation "measure snd") (auto simp: quotient_less)

declare digit_loop.simps [simp del]

definition printint_buf :: "int32 \<Rightarrow> nat \<Rightarrow> bool \<Rightarrow> string" where
  \<comment> \<open>\<^verbatim>\<open>buf[0..i]\<close> before it is printed backwards\<close>
  "printint_buf xx base sg =
     (let neg = (sg \<and> sint xx < 0);
          x = (if neg then - xx else xx)
      in digit_loop base (unat x) @ (if neg then ''-'' else []))"

definition printint :: "int32 \<Rightarrow> nat \<Rightarrow> bool \<Rightarrow> string" where
  "printint xx base sg = rev (printint_buf xx base sg)"

definition printptr :: "uint64 \<Rightarrow> string" where
  "printptr x = ''0x'' @ map (\<lambda>i. digits ! unat (drop_bit 60 (push_bit (4 * i) x))) [0..<16]"

datatype uarg = UInt int32 | ULong uint64 | UStr "string option"

fun vprintf :: "string \<Rightarrow> uarg list \<Rightarrow> string option" where
  \<comment> \<open>an argument that does not match its conversion is undefined; a final \<^verbatim>\<open>%\<close> prints nothing\<close>
  "vprintf [] ap = Some []"
| "vprintf [c] ap = Some (if c = CHR ''%'' then [] else [c])"
| "vprintf (c # d # fmt) ap =
     (if c \<noteq> CHR ''%'' then map_option ((#) c) (vprintf (d # fmt) ap)
      else if d = CHR ''d'' then
        (case ap of UInt x # ap' \<Rightarrow> map_option ((@) (printint x 10 True)) (vprintf fmt ap') | _ \<Rightarrow> None)
      else if d = CHR ''l'' then
        (case ap of ULong x # ap' \<Rightarrow> map_option ((@) (printint (ucast x) 10 False)) (vprintf fmt ap') | _ \<Rightarrow> None)
      else if d = CHR ''x'' then
        (case ap of UInt x # ap' \<Rightarrow> map_option ((@) (printint x 16 False)) (vprintf fmt ap') | _ \<Rightarrow> None)
      else if d = CHR ''p'' then
        (case ap of ULong x # ap' \<Rightarrow> map_option ((@) (printptr x)) (vprintf fmt ap') | _ \<Rightarrow> None)
      else if d = CHR ''s'' then
        (case ap of UStr s # ap' \<Rightarrow> map_option ((@) (case s of None \<Rightarrow> ''(null)'' | Some s \<Rightarrow> s)) (vprintf fmt ap')
         | _ \<Rightarrow> None)
      else if d = CHR ''c'' then
        (case ap of UInt x # ap' \<Rightarrow> map_option ((#) (char_of (unat x))) (vprintf fmt ap') | _ \<Rightarrow> None)
      else if d = CHR ''%'' then map_option ((#) d) (vprintf fmt ap)
      else map_option (\<lambda>out. CHR ''%'' # d # out) (vprintf fmt ap))"

section \<open>Numbers are printed and read back\<close>

lemma digit_loop_length: "2 \<le> base \<Longrightarrow> x < base ^ Suc k \<Longrightarrow> length (digit_loop base x) \<le> Suc k"
proof (induction base x arbitrary: k rule: digit_loop.induct)
  case (1 base x)
  show ?case
  proof (cases "x div base = 0")
    case False
    then obtain j where j: "k = Suc j" using 1(3) by (cases k) auto
    then have "x div base < base ^ Suc j" using 1(2,3) by (simp add: less_mult_imp_div_less mult.commute)
    then show ?thesis using 1(1) [of j] 1(2) False j by (subst digit_loop.simps) simp
  qed (subst digit_loop.simps, simp)
qed

lemma digit_nat: "d < 10 \<Longrightarrow> of_char (digits ! d) = of_char CHR ''0'' + d"
proof -
  have "\<forall>d \<in> set [0..<10]. of_char (digits ! d) = of_char CHR ''0'' + d" by code_simp
  then show "d < 10 \<Longrightarrow> ?thesis" by simp
qed

lemma digit_value: "d < 10 \<Longrightarrow> (of_char (digits ! d) :: int) = 48 + int d"
  using arg_cong [OF digit_nat, of d int] by (simp only: of_nat_of_char of_nat_add) simp

definition is_digit :: "char \<Rightarrow> bool" where
  "is_digit c \<longleftrightarrow> (of_char CHR ''0'' :: nat) \<le> of_char c \<and> of_char c \<le> (of_char CHR ''9'' :: nat)"

lemma digit_is_digit: "d < 10 \<Longrightarrow> is_digit (digits ! d)"
  by (simp add: is_digit_def digit_nat)

lemma atoi_append: "list_all is_digit s \<Longrightarrow> atoi_loop n (s @ t) = Option.bind (atoi_loop n s) (\<lambda>m. atoi_loop m t)"
  by (induction s arbitrary: n) (simp_all add: is_digit_def)

lemma digit_loop_digits: "list_all is_digit (digit_loop 10 x)"
proof (induction "10 :: nat" x rule: digit_loop.induct)
  case (1 x)
  then show ?case by (subst digit_loop.simps) (simp add: digit_is_digit)
qed

lemma atoi_digit: "d < 10 \<Longrightarrow> n * 10 + 48 + int d < 2 ^ 31 \<Longrightarrow> atoi_loop n [digits ! d] = Some (n * 10 + int d)"
  using digit_is_digit [of d] digit_value [of d] by (simp add: is_digit_def)

lemma atoi_digit_loop: "x + 48 < 2 ^ 31 \<Longrightarrow> atoi_loop 0 (rev (digit_loop 10 x)) = Some (int x)"
proof (induction "10 :: nat" x rule: digit_loop.induct)
  case (1 x)
  have x: "int (x div 10) * 10 + int (x mod 10) = int x" by (simp add: zdiv_int zmod_int)
  have step: "atoi_loop (int (x div 10)) [digits ! (x mod 10)] = Some (int x)"
    using atoi_digit [of "x mod 10" "int (x div 10)"] x "1.prems" by simp
  show ?case
  proof (cases "x div 10 = 0")
    case True
    then show ?thesis using step by (subst digit_loop.simps) simp
  next
    case False
    then have "atoi_loop 0 (rev (digit_loop 10 (x div 10))) = Some (int (x div 10))" using 1 by simp
    then show ?thesis using False step digit_loop_digits [of "x div 10"]
      by (subst digit_loop.simps) (simp add: atoi_append)
  qed
qed

section \<open>Properties\<close>

text \<open>
  C34.  Round trip through the user library: \<^verbatim>\<open>atoi\<close> reads back every non-negative number that
  \<^verbatim>\<open>printf\<close> has printed in decimal, without overflow on the way, except for the 48 numbers up to
  \<open>2 ^ 31 - 1\<close>, for which \<^verbatim>\<open>n*10 + *s\<close> overflows before \<^verbatim>\<open>'0'\<close> is subtracted.  It does not know
  signs: a negative number, printed with its sign, is read as 0.
\<close>

theorem atoi_printint:
  "(0 \<le> sint xx \<and> sint xx + 48 < 2 ^ 31 \<longrightarrow> atoi (printint xx 10 sg) = Some (sint xx)) \<and>
   (sint xx < 0 \<longrightarrow> atoi (printint xx 10 True) = Some 0)"
proof (intro conjI impI)
  assume a: "0 \<le> sint xx \<and> sint xx + 48 < 2 ^ 31"
  have "uint xx = sint xx" unfolding uint_sint using a by (simp add: take_bit_int_eq_self)
  then have u: "int (unat xx) = sint xx" by simp
  then have "int (unat xx + 48) < int (2 ^ 31)" using a by simp
  then have b: "unat xx + 48 < 2 ^ 31" by (simp only: of_nat_less_iff)
  have n: "(sint xx < 0) = False" using a by simp
  show "atoi (printint xx 10 sg) = Some (sint xx)"
    using atoi_digit_loop [OF b] u by (simp add: atoi_def printint_def printint_buf_def Let_def n)
next
  assume "sint xx < 0"
  then show "atoi (printint xx 10 True) = Some 0" by (simp add: atoi_def printint_def printint_buf_def Let_def)
qed

theorem atoi_printint_witness:
  "atoi (printint 2147483599 10 True) = Some 2147483599 \<and> atoi (printint (- 5) 10 True) = Some 0"
  using atoi_printint [of 2147483599 True] atoi_printint [of "- 5" True] by simp

text \<open>
  C35.  The 16-byte buffer of \<^verbatim>\<open>printint\<close> is large enough: for both bases that
  \<^verbatim>\<open>printf\<close> uses, no 32-bit number needs more than 11 characters, sign included.
\<close>

theorem printint_buf_bound:
  assumes "base = 10 \<or> base = 16"
  shows "length (printint_buf xx base sg) \<le> 11"
proof -
  have "unat x < base ^ Suc 9" for x :: int32
    using unsigned_less [of x] assms by (auto intro: less_le_trans)
  then have l: "length (digit_loop base (unat x)) \<le> 10" for x :: int32
    using digit_loop_length [of base "unat x" 9] assms by auto
  show ?thesis using l [of xx] l [of "- xx"] by (auto simp: printint_buf_def Let_def)
qed

theorem printint_buf_bound_witness: "length (printint_buf (- 2147483648) 10 True) \<le> 11"
  using printint_buf_bound [of 10] by simp

end
