(* ===== verification/Grep.thy ===== *)
theory Grep
  imports Ulib
begin

text \<open>
  \<^verbatim>\<open>user/grep.c\<close>: the matcher of Kernighan and Pike, and the loop that finds the lines of its
  input.  A text or a pattern is a C string as in \<open>Ulib\<close>: the character at its end is NUL.
\<close>

section \<open>The matcher\<close>

function (sequential) matchhere :: "string \<Rightarrow> string \<Rightarrow> bool"
  and matchstar :: "char \<Rightarrow> string \<Rightarrow> string \<Rightarrow> bool" where
  "matchhere [] text = True"
| "matchhere (c # re) text =
     (if re \<noteq> [] \<and> hd re = CHR ''*'' then matchstar c (tl re) text
      else if c = CHR ''$'' \<and> re = [] then text = []
      else case text of
        [] \<Rightarrow> False
      | d # text' \<Rightarrow> if c = CHR ''.'' \<or> c = d then matchhere re text' else False)"
| "matchstar c re text =
     (if matchhere re text then True
      else case text of
        [] \<Rightarrow> False
      | d # text' \<Rightarrow> if d = c \<or> c = CHR ''.'' then matchstar c re text' else False)"
  by pat_completeness auto

termination
  by (relation "inv_image (less_than <*lex*> less_than <*lex*> less_than)
      (\<lambda>x. case x of Inl (re, text) \<Rightarrow> (length re, length text, 0 :: nat)
        | Inr (c, re, text) \<Rightarrow> (length re, length text, 1))")
     (auto simp: neq_Nil_conv)

declare matchhere.simps [simp del] matchstar.simps [simp del]

fun match_loop :: "string \<Rightarrow> string \<Rightarrow> bool" where
  \<comment> \<open>the loop that also looks at the empty string\<close>
  "match_loop re [] = matchhere re []"
| "match_loop re (c # text) = (if matchhere re (c # text) then True else match_loop re text)"

definition match :: "string \<Rightarrow> string \<Rightarrow> bool" where
  "match re text = (if re \<noteq> [] \<and> hd re = CHR ''^'' then matchhere (tl re) text else match_loop re text)"

section \<open>The lines of the input\<close>

function grep_lines :: "string \<Rightarrow> string \<Rightarrow> string \<times> string" where
  \<comment> \<open>the inner loop on the bytes from \<^verbatim>\<open>p\<close> up to \<^verbatim>\<open>buf+m\<close>: what is written, and what is left after the
      last newline.  \<^verbatim>\<open>strchr\<close> stops at a NUL byte, which the input may contain.\<close>
  "grep_lines re p =
     (case strchr (takeWhile (\<lambda>c. c \<noteq> NUL) p) CHR 0x0A of
        None \<Rightarrow> ([], p)
      | Some q \<Rightarrow>
          let (out, rest) = grep_lines re (drop (Suc q) p)
          in ((if match re (take q p) then take (Suc q) p else []) @ out, rest))"
  by auto

termination
proof (relation "measure (length \<circ> snd)")
  fix re p q
  assume "strchr (takeWhile (\<lambda>c. c \<noteq> NUL) p) CHR 0x0A = Some q"
  then have "p \<noteq> []" by auto
  then show "((re, drop (Suc q) p), re, p) \<in> measure (length \<circ> snd)" by simp
qed simp

declare grep_lines.simps [simp del]

definition GREPBUF :: nat where "GREPBUF = 1024"

primrec grep_loop :: "string \<Rightarrow> nat list \<Rightarrow> string \<Rightarrow> string \<Rightarrow> string" where
  \<comment> \<open>\<open>b\<close> is what is in the buffer and \<open>inp\<close> the rest of the file.  A \<^verbatim>\<open>read\<close> returns as many bytes
      as the kernel likes: the next number of \<open>ns\<close>, or fewer when fewer were asked for or are left;
      after the list it returns nothing.  The result is what is written to the output.\<close>
  "grep_loop re [] b inp = []"
| "grep_loop re (n # ns) b inp =
     (let n = min n (min (GREPBUF - length b - 1) (length inp)) in
      if n = 0 then []
      else let (out, rest) = grep_lines re (b @ take n inp)
           in out @ grep_loop re ns rest (drop n inp))"

definition grep :: "string \<Rightarrow> nat list \<Rightarrow> string \<Rightarrow> string" where
  "grep re ns inp = grep_loop re ns [] inp"

section \<open>What a pattern means\<close>

datatype item = One char | Many char

fun pat :: "string \<Rightarrow> item list \<times> bool" where
  \<comment> \<open>the items of a pattern, and whether it is tied to the end of the line\<close>
  "pat [] = ([], False)"
| "pat [c] = (if c = CHR ''$'' then ([], True) else ([One c], False))"
| "pat (c # d # re) =
     (if d = CHR ''*'' then let (is, eol) = pat re in (Many c # is, eol)
      else let (is, eol) = pat (d # re) in (One c # is, eol))"

definition hits :: "char \<Rightarrow> char \<Rightarrow> bool" where
  "hits c d \<longleftrightarrow> c = CHR ''.'' \<or> c = d"

fun lang :: "item list \<Rightarrow> string set" where
  "lang [] = {[]}"
| "lang (One c # is) = {d # w |d w. hits c d \<and> w \<in> lang is}"
| "lang (Many c # is) = {v @ w |v w. list_all (hits c) v \<and> w \<in> lang is}"

definition found :: "item list \<Rightarrow> bool \<Rightarrow> string \<Rightarrow> bool" where
  \<comment> \<open>the text starts with a word of the language, and ends there if it has to\<close>
  "found items eol text \<longleftrightarrow> (\<exists>w suf. text = w @ suf \<and> w \<in> lang items \<and> (eol \<longrightarrow> suf = []))"

definition found_at :: "string \<Rightarrow> string \<Rightarrow> bool" where
  "found_at re text \<longleftrightarrow> found (fst (pat re)) (snd (pat re)) text"

lemma found_Nil: "found [] eol text \<longleftrightarrow> (eol \<longrightarrow> text = [])"
  by (auto simp: found_def)

lemma found_One: "found (One c # items) eol text \<longleftrightarrow> (\<exists>d t. text = d # t \<and> hits c d \<and> found items eol t)"
proof
  assume "found (One c # items) eol text"
  then show "\<exists>d t. text = d # t \<and> hits c d \<and> found items eol t" unfolding found_def by force
next
  assume "\<exists>d t. text = d # t \<and> hits c d \<and> found items eol t"
  then obtain d w suf where "text = (d # w) @ suf" "hits c d" "w \<in> lang items" "eol \<longrightarrow> suf = []"
    by (auto simp: found_def)
  then show "found (One c # items) eol text" unfolding found_def by (intro exI [of _ "d # w"] exI [of _ suf]) simp
qed

lemma found_Many:
  "found (Many c # items) eol text \<longleftrightarrow> (\<exists>v t. text = v @ t \<and> list_all (hits c) v \<and> found items eol t)"
proof
  assume "found (Many c # items) eol text"
  then obtain v w suf where "text = v @ (w @ suf)" "list_all (hits c) v" "w \<in> lang items" "eol \<longrightarrow> suf = []"
    unfolding found_def by force
  then show "\<exists>v t. text = v @ t \<and> list_all (hits c) v \<and> found items eol t" unfolding found_def by blast
next
  assume "\<exists>v t. text = v @ t \<and> list_all (hits c) v \<and> found items eol t"
  then obtain v w suf where "text = (v @ w) @ suf" "list_all (hits c) v" "w \<in> lang items" "eol \<longrightarrow> suf = []"
    unfolding found_def by force
  then show "found (Many c # items) eol text" unfolding found_def by (intro exI [of _ "v @ w"] exI [of _ suf]) auto
qed

lemma pat_Cons:
  "pat (c # re) =
    (if re = [] then (if c = CHR ''$'' then ([], True) else ([One c], False))
     else if hd re = CHR ''*'' then (Many c # fst (pat (tl re)), snd (pat (tl re)))
     else (One c # fst (pat re), snd (pat re)))"
  by (cases re) (simp_all add: case_prod_beta)

lemmas found_simps = found_Nil found_One found_Many

lemma split_many:
  "(\<exists>v t. text = v @ t \<and> list_all P v \<and> Q t) \<longleftrightarrow>
    Q text \<or> (\<exists>d text'. text = d # text' \<and> P d \<and> (\<exists>v t. text' = v @ t \<and> list_all P v \<and> Q t))"
proof
  assume "\<exists>v t. text = v @ t \<and> list_all P v \<and> Q t"
  then obtain v t where "text = v @ t" "list_all P v" "Q t" by blast
  then show "Q text \<or> (\<exists>d text'. text = d # text' \<and> P d \<and> (\<exists>v t. text' = v @ t \<and> list_all P v \<and> Q t))"
    by (cases v) auto
next
  assume "Q text \<or> (\<exists>d text'. text = d # text' \<and> P d \<and> (\<exists>v t. text' = v @ t \<and> list_all P v \<and> Q t))"
  then show "\<exists>v t. text = v @ t \<and> list_all P v \<and> Q t"
  proof
    assume "\<exists>d text'. text = d # text' \<and> P d \<and> (\<exists>v t. text' = v @ t \<and> list_all P v \<and> Q t)"
    then obtain d v t where "text = (d # v) @ t" "list_all P (d # v)" "Q t" by auto
    then show ?thesis by blast
  qed (auto intro: exI [of _ "[]"])
qed

lemma matchhere_iff:
  "matchhere re text \<longleftrightarrow> found_at re text"
  "matchstar c re text \<longleftrightarrow> (\<exists>v t. text = v @ t \<and> list_all (hits c) v \<and> found_at re t)"
proof (induction re "text" and c re "text" rule: matchhere_matchstar.induct)
  case (1 t)
  then show ?case by (simp add: matchhere.simps found_at_def found_simps)
next
  case (2 c re t)
  show ?case
  proof (cases "re \<noteq> [] \<and> hd re = CHR ''*''")
    case True
    then show ?thesis using 2(1) by (simp add: matchhere.simps found_at_def pat_Cons found_simps)
  next
    case False
    then show ?thesis using 2(2) [OF False]
      by (cases t) (auto simp: matchhere.simps found_at_def pat_Cons found_simps hits_def)
  qed
next
  case (3 c re t)
  have h: "d = c \<or> c = CHR ''.'' \<longleftrightarrow> hits c d" for d by (auto simp: hits_def)
  show ?case
  proof (cases t)
    case (Cons d u)
    have "hits c d \<Longrightarrow> \<not> matchhere re t \<Longrightarrow> matchstar c re u \<longleftrightarrow>
        (\<exists>v t. u = v @ t \<and> list_all (hits c) v \<and> found_at re t)"
      using 3(2) [OF _ Cons] h by blast
    then show ?thesis
      using 3(1) Cons by (subst split_many, subst matchstar.simps) (auto simp: h)
  qed (subst split_many, subst matchstar.simps, use 3(1) in simp)
qed

lemma match_loop_iff: "match_loop re text \<longleftrightarrow> (\<exists>pre t. text = pre @ t \<and> matchhere re t)"
proof (induction "text")
  case (Cons c t)
  then show ?case using split_many [of "c # t" "\<lambda>_. True" "matchhere re"] by (auto simp: list_all_iff)
qed simp

section \<open>What a line is\<close>

fun full_lines :: "string \<Rightarrow> string \<Rightarrow> string list" where
  \<comment> \<open>the lines of a text that end with a newline, after a first part \<open>acc\<close> of a line\<close>
  "full_lines acc [] = []"
| "full_lines acc (c # s) = (if c = CHR 0x0A then (acc @ [c]) # full_lines [] s else full_lines (acc @ [c]) s)"

fun last_line :: "string \<Rightarrow> string \<Rightarrow> string" where
  "last_line acc [] = acc"
| "last_line acc (c # s) = (if c = CHR 0x0A then last_line [] s else last_line (acc @ [c]) s)"

lemma full_lines_append: "full_lines acc (s @ t) = full_lines acc s @ full_lines (last_line acc s) t"
  by (induction acc s rule: full_lines.induct) simp_all

lemma full_lines_acc: "CHR 0x0A \<notin> set acc \<Longrightarrow> full_lines a (acc @ s) = full_lines (a @ acc) s"
  by (induction acc arbitrary: a) auto

lemma last_line_acc: "CHR 0x0A \<notin> set acc \<Longrightarrow> last_line a (acc @ s) = last_line (a @ acc) s"
  by (induction acc arbitrary: a) auto

lemma last_line_newline: "CHR 0x0A \<notin> set acc \<Longrightarrow> CHR 0x0A \<notin> set (last_line acc s)"
  by (induction acc s rule: last_line.induct) auto

lemma last_line_subset: "set (last_line acc s) \<subseteq> set acc \<union> set s"
  by (induction acc s rule: last_line.induct) auto

lemma strchr_None: "strchr s c = None \<longleftrightarrow> c \<notin> set s"
  by (induction s) auto

lemma strchr_Some: "strchr s c = Some q \<Longrightarrow> q < length s \<and> s ! q = c \<and> c \<notin> set (take q s)"
proof (induction s arbitrary: q)
  case (Cons d s)
  then show ?case by (cases q) (auto split: if_splits)
qed simp

definition chosen :: "string \<Rightarrow> string list \<Rightarrow> string" where
  \<comment> \<open>the lines in which the pattern is found\<close>
  "chosen re ls = concat (filter (\<lambda>l. match re (butlast l)) ls)"

lemma chosen_append [simp]: "chosen re (xs @ ys) = chosen re xs @ chosen re ys"
  by (simp add: chosen_def)

lemma grep_lines_spec:
  \<comment> \<open>\<open>a\<close> is what \<^verbatim>\<open>strchr\<close> sees of the buffer\<close>
  assumes "NUL \<notin> set a" "d = [] \<or> hd d = NUL"
  shows "grep_lines re (a @ d) = (chosen re (full_lines [] a), last_line [] a @ d)"
  using assms(1)
proof (induction a rule: length_induct)
  case (1 a)
  have tw: "takeWhile (\<lambda>c. c \<noteq> NUL) (a @ d) = a"
    using 1(2) assms(2) by (cases d) (auto simp: takeWhile_append takeWhile_eq_all_conv)
  show ?case
  proof (cases "strchr a CHR 0x0A")
    case None
    then have "full_lines [] a = []" "last_line [] a = a"
      using full_lines_acc [of a "[]" "[]"] last_line_acc [of a "[]" "[]"] by (simp_all add: strchr_None)
    then show ?thesis using None by (subst grep_lines.simps) (simp add: tw chosen_def)
  next
    case (Some q)
    then have q: "q < length a" "a ! q = CHR 0x0A" "CHR 0x0A \<notin> set (take q a)" using strchr_Some by blast+
    note a = id_take_nth_drop [OF q(1), unfolded q(2)]
    have tk: "take (Suc q) a = take q a @ [CHR 0x0A]" using q by (simp add: take_Suc_conv_app_nth)
    have "NUL \<notin> set (drop (Suc q) a)" using 1(2) by (auto dest: in_set_dropD)
    then have "grep_lines re (drop (Suc q) a @ d)
        = (chosen re (full_lines [] (drop (Suc q) a)), last_line [] (drop (Suc q) a) @ d)"
      using 1(1) q(1) by simp
    moreover have "full_lines [] a = take (Suc q) a # full_lines [] (drop (Suc q) a)"
      "last_line [] a = last_line [] (drop (Suc q) a)"
      using full_lines_acc [OF q(3), of "[]"] last_line_acc [OF q(3), of "[]"] by (subst a, simp add: tk)+
    ultimately show ?thesis using q(1) by (subst grep_lines.simps) (simp add: tw Some tk chosen_def)
  qed
qed

lemma full_lines_longer: "l \<in> set (take 1 (full_lines acc s)) \<Longrightarrow> length acc < length l"
  by (induction acc s rule: full_lines.induct) (auto split: if_splits)

lemma full_lines_length: "l \<in> set (full_lines acc s) \<Longrightarrow> length l \<le> length acc + length s"
  by (induction acc s rule: full_lines.induct) (auto split: if_splits)

lemma last_line_length: "length (last_line acc s) \<le> length acc + length s"
  by (induction acc s rule: last_line.induct) auto

abbreviation fitting :: "string list \<Rightarrow> string list" where
  \<comment> \<open>the lines before the first one that does not fit into the buffer\<close>
  "fitting ls \<equiv> takeWhile (\<lambda>l. length l < GREPBUF) ls"

abbreviation before_NUL :: "string \<Rightarrow> string" where
  "before_NUL s \<equiv> takeWhile (\<lambda>c. c \<noteq> NUL) s"

lemma before_NUL_append: "NUL \<notin> set a \<Longrightarrow> before_NUL (a @ s) = a @ before_NUL s"
  by (induction a) auto

lemma fitting_append: "\<forall>l \<in> set xs. length l < GREPBUF \<Longrightarrow> fitting (xs @ ys) = xs @ fitting ys"
  by (simp add: takeWhile_append2)

definition asked :: "nat \<Rightarrow> string \<Rightarrow> string \<Rightarrow> nat" where
  \<comment> \<open>the number of bytes the next \<^verbatim>\<open>read\<close> returns\<close>
  "asked n b inp = min n (min (GREPBUF - length b - 1) (length inp))"

lemma grep_loop_step:
  "grep_loop re (n # ns) b inp = (let k = asked n b inp in if k = 0 then [] else
      let (out, rest) = grep_lines re (b @ take k inp) in out @ grep_loop re ns rest (drop k inp))"
  by (simp only: grep_loop.simps asked_def Let_def)

lemma grep_loop_NUL:
  \<comment> \<open>a NUL in the first part of a line hides everything that follows\<close>
  assumes "NUL \<notin> set a" "CHR 0x0A \<notin> set a"
  shows "grep_loop re ns (a @ NUL # w) inp = []"
proof (induction ns arbitrary: w inp)
  case (Cons n ns)
  have "full_lines [] a = []" "last_line [] a = a"
    using full_lines_acc [of a "[]" "[]"] last_line_acc [of a "[]" "[]"] assms(2) by simp_all
  then have "grep_lines re (a @ NUL # w @ u) = ([], a @ NUL # w @ u)" for u
    using grep_lines_spec [OF assms(1), of "NUL # w @ u" re] by (simp add: chosen_def)
  then show ?case using Cons by (simp add: grep_loop_step Let_def del: grep_loop.simps)
qed simp

lemma grep_loop_full:
  \<comment> \<open>\<^verbatim>\<open>read\<close> is asked for nothing when the line does not fit, and returns nothing at the end of the file\<close>
  assumes "asked n b inp = 0" "n \<noteq> 0"
  shows "fitting (full_lines b (before_NUL inp)) = []"
proof (cases "inp = []")
  case False
  then have "GREPBUF \<le> length b + 1" using assms by (auto simp: asked_def min_def split: if_splits)
  then show ?thesis
    using full_lines_longer [of _ b "before_NUL inp"] by (cases "full_lines b (before_NUL inp)") fastforce+
qed simp

lemma grep_loop_spec:
  assumes "NUL \<notin> set b" "CHR 0x0A \<notin> set b" "0 \<notin> set ns" "length inp \<le> length ns" "length b < GREPBUF"
  shows "grep_loop re ns b inp = chosen re (fitting (full_lines b (before_NUL inp)))"
  using assms
proof (induction ns arbitrary: b inp)
  case Nil
  then show ?case by (simp add: chosen_def)
next
  case (Cons n ns)
  define k where "k = asked n b inp"
  note step = grep_loop_step [of re n ns b inp, folded k_def, unfolded Let_def]
  show ?case
  proof (cases "k = 0")
    case True
    then show ?thesis using step grep_loop_full [of n b inp] Cons.prems(3) by (simp add: k_def chosen_def del: grep_loop.simps)
  next
    case False
    define a where "a = before_NUL (take k inp)"
    define d where "d = dropWhile (\<lambda>c. c \<noteq> NUL) (take k inp)"
    define r where "r = last_line b a"
    have u: "take k inp = a @ d" by (simp add: a_def d_def)
    have k: "length b + k < GREPBUF" using Cons.prems(5) by (auto simp: k_def asked_def)
    have "length a + length d \<le> k" using arg_cong [OF u, of length] by simp
    then have len: "length b + length a < GREPBUF" using k by linarith
    have aN: "NUL \<notin> set a" by (auto simp: a_def dest: set_takeWhileD)
    have d: "d = [] \<or> hd d = NUL" using hd_dropWhile [of "\<lambda>c. c \<noteq> NUL" "take k inp"] by (auto simp: d_def)
    have g: "grep_lines re (b @ take k inp) = (chosen re (full_lines b a), r @ d)"
      using grep_lines_spec [of "b @ a" d re] Cons.prems(1,2) aN d
      by (simp add: u full_lines_acc last_line_acc r_def)
    have fits: "\<forall>l \<in> set (full_lines b a). length l < GREPBUF"
      using full_lines_length [of _ b a] len by fastforce
    have r: "NUL \<notin> set r" "CHR 0x0A \<notin> set r" "length r < GREPBUF"
      using last_line_subset [of b a] last_line_newline [of b a] last_line_length [of b a] Cons.prems(1,2) aN len
      by (auto simp: r_def)
    show ?thesis
    proof (cases d)
      case Nil
      have "before_NUL inp = a @ before_NUL (drop k inp)"
        using aN Nil u by (subst append_take_drop_id [of k inp, symmetric]) (simp add: before_NUL_append del: append_take_drop_id)
      then have "full_lines b (before_NUL inp) = full_lines b a @ full_lines r (before_NUL (drop k inp))"
        by (simp add: full_lines_append r_def)
      moreover have "grep_loop re ns r (drop k inp) = chosen re (fitting (full_lines r (before_NUL (drop k inp))))"
        using Cons.prems(3,4) False r by (intro Cons.IH) auto
      ultimately show ?thesis using step False g Nil fits by (simp add: fitting_append del: grep_loop.simps)
    next
      case (Cons x w)
      then have "before_NUL inp = a"
        using aN d u by (subst append_take_drop_id [of k inp, symmetric]) (simp add: before_NUL_append del: append_take_drop_id)
      moreover have "fitting (full_lines b a) = full_lines b a" using fits by (simp add: takeWhile_eq_all_conv)
      moreover have "grep_loop re ns (r @ d) (drop k inp) = []" using grep_loop_NUL [OF r(1,2)] Cons d by simp
      ultimately show ?thesis using step False g by (simp del: grep_loop.simps takeWhile_eq_all_conv)
    qed
  qed
qed

section \<open>Properties\<close>

text \<open>
  C14.  The matcher of \<^verbatim>\<open>grep\<close> is correct: \<^verbatim>\<open>match(re, text)\<close> is true exactly when the text
  contains a word of the language of the pattern, at its beginning if the pattern starts with
  \<^verbatim>\<open>^\<close> and at its end if it ends with \<^verbatim>\<open>$\<close>.  The language is given by the items of the pattern:
  a character stands for itself, a point for any character, and either followed by a star for any
  number of such characters.
\<close>

theorem match_correct:
  "match re text \<longleftrightarrow>
    (let bol = (re \<noteq> [] \<and> hd re = CHR ''^'');
         (items, eol) = pat (if bol then tl re else re)
     in \<exists>pre w suf. text = pre @ w @ suf \<and> w \<in> lang items \<and> (bol \<longrightarrow> pre = []) \<and> (eol \<longrightarrow> suf = []))"
  by (auto simp: match_def match_loop_iff matchhere_iff found_at_def found_def case_prod_beta Let_def)

theorem match_correct_witness: "match ''^ab*$'' ''abb''"
proof -
  have "''abb'' \<in> lang [One CHR ''a'', Many CHR ''b'']"
    by (auto simp: hits_def intro!: exI [of _ "''bb''"])
  then show ?thesis by (simp add: match_correct del: lang.simps)
qed

text \<open>
  C20.  What \<^verbatim>\<open>grep\<close> prints does not depend on how the kernel cuts the input into the results of
  \<^verbatim>\<open>read\<close>, as long as it is read to its end: it is, in their order and each with its newline, the
  lines in which the pattern is found, among the lines that \<^verbatim>\<open>grep\<close> gets to see.  These are the lines
  that end with a newline, up to the first one that does not fit into the 1024 bytes of the buffer
  with its newline and a NUL (more than 1022 characters before the newline), and up to the first NUL of the
  input.  So on an input without NUL and without such a line every matching line is printed,
  except for a last line without a newline.
\<close>

theorem grep_prints_matching_lines:
  assumes "0 \<notin> set ns" "length inp \<le> length ns"
  shows "grep re ns inp = concat (filter (\<lambda>l. match re (butlast l))
    (takeWhile (\<lambda>l. length l < 1024) (full_lines [] (takeWhile (\<lambda>c. c \<noteq> NUL) inp))))"
  using grep_loop_spec [of "[]" ns inp re] assms by (simp add: grep_def chosen_def GREPBUF_def)

theorem grep_prints_matching_lines_witness:
  "grep ''^a.*c$'' (replicate 12 5) ''abc\<newline>xabc\<newline>a'' = ''abc\<newline>''"
proof -
  have "takeWhile (\<lambda>l. length l < 1024) (full_lines [] (takeWhile (\<lambda>c. c \<noteq> NUL) ''abc\<newline>xabc\<newline>a'')) = [''abc\<newline>'', ''xabc\<newline>'']"
    by (simp add: NUL_def)
  moreover have "match ''^a.*c$'' ''abc''" "\<not> match ''^a.*c$'' ''xabc''" by code_simp+
  ultimately show ?thesis
    using grep_prints_matching_lines [of "replicate 12 5" "''abc\<newline>xabc\<newline>a''"] by simp
qed

end
