(* ===== verification/Shell.thy ===== *)
theory Shell
  imports Ulib
begin

text \<open>
  The parser of the shell, \<^verbatim>\<open>user/sh.c\<close>.  The line is a C string as in \<open>Ulib\<close>; the pointers
  \<^verbatim>\<open>*ps\<close>, \<^verbatim>\<open>q\<close> and \<^verbatim>\<open>eq\<close> are indices into it and \<^verbatim>\<open>es\<close> is its length.  A parsed command holds
  its words as pairs of indices, which is what the C structures do with \<^verbatim>\<open>argv\<close> and \<^verbatim>\<open>eargv\<close>.
  The C parser is recursive; here every call spends one unit of fuel, and \<open>parse_fuel\<close> is
  shown to be enough for every line.  Allocation of the command structures succeeds.
\<close>

section \<open>Commands\<close>

datatype 'w cmd =
    Exec "'w list"                 \<comment> \<open>\<^verbatim>\<open>struct execcmd\<close>\<close>
  | Redir "'w cmd" 'w nat nat      \<comment> \<open>\<^verbatim>\<open>struct redircmd\<close>: command, file, mode, descriptor\<close>
  | Pipe "'w cmd" "'w cmd"
  | Lst "'w cmd" "'w cmd"
  | Back "'w cmd"

definition MAXARGS :: nat where "MAXARGS = 10"

definition O_RDONLY :: nat where "O_RDONLY = 0"
definition O_WRONLY :: nat where "O_WRONLY = 1"
definition O_CREATE :: nat where "O_CREATE = 0x200"
definition O_TRUNC :: nat where "O_TRUNC = 0x400"

type_synonym span = "nat \<times> nat"

datatype 'a pres =
    Parsed 'a nat        \<comment> \<open>the result and the new \<^verbatim>\<open>*ps\<close>\<close>
  | Syntax string        \<comment> \<open>the shell's \<^verbatim>\<open>panic\<close>: a message, and the process exits\<close>
  | OutOfFuel

primrec pbind :: "'a pres \<Rightarrow> ('a \<Rightarrow> nat \<Rightarrow> 'b pres) \<Rightarrow> 'b pres" where
  "pbind (Parsed x i) f = f x i"
| "pbind (Syntax e) f = Syntax e"
| "pbind OutOfFuel f = OutOfFuel"

section \<open>Tokens\<close>

definition whitespace :: string where
  "whitespace = [CHR '' '', CHR 0x09, CHR 0x0D, CHR 0x0A, CHR 0x0B]"

definition symbols :: string where
  "symbols = ''<|>&;()''"

definition ch :: "string \<Rightarrow> nat \<Rightarrow> char" where
  \<comment> \<open>the character a pointer points at\<close>
  "ch s i = (if i < length s then s ! i else NUL)"

function skip_ws :: "string \<Rightarrow> nat \<Rightarrow> nat" where
  "skip_ws s i = (if i < length s \<and> strchr whitespace (s ! i) \<noteq> None then skip_ws s (Suc i) else i)"
  by auto

termination
  by (relation "measure (\<lambda>(s, i). length s - i)") auto

function skip_word :: "string \<Rightarrow> nat \<Rightarrow> nat" where
  "skip_word s i =
     (if i < length s \<and> strchr whitespace (s ! i) = None \<and> strchr symbols (s ! i) = None
      then skip_word s (Suc i) else i)"
  by auto

termination
  by (relation "measure (\<lambda>(s, i). length s - i)") auto

declare skip_ws.simps [simp del] skip_word.simps [simp del]

definition single :: string where
  \<comment> \<open>the tokens of one character\<close>
  "single = ''|();&<''"

definition token_at :: "string \<Rightarrow> nat \<Rightarrow> char \<times> nat" where
  \<comment> \<open>the \<^verbatim>\<open>switch\<close> of \<^verbatim>\<open>gettoken\<close>: the token at \<open>q\<close> and its end\<close>
  "token_at s q =
     (let c = ch s q in
      if c = NUL then (c, q)
      else if c \<in> set single then (c, Suc q)
      else if c = CHR ''>''
      then (if ch s (Suc q) = CHR ''>'' then (CHR ''+'', q + 2) else (c, Suc q))
      else (CHR ''a'', skip_word s q))"

definition gettoken :: "string \<Rightarrow> nat \<Rightarrow> char \<times> span \<times> nat" where
  \<comment> \<open>the token, its start and end, and the new \<^verbatim>\<open>*ps\<close>\<close>
  "gettoken s ps =
     (let q = skip_ws s ps; (tok, eq) = token_at s q
      in (tok, (q, eq), skip_ws s eq))"

definition peek :: "string \<Rightarrow> nat \<Rightarrow> string \<Rightarrow> bool \<times> nat" where
  "peek s ps toks =
     (let i = skip_ws s ps
      in (ch s i \<noteq> NUL \<and> strchr toks (ch s i) \<noteq> None, i))"

lemma skip_ws_ge: "i \<le> skip_ws s i"
  by (induction s i rule: skip_ws.induct) (subst skip_ws.simps, auto)

lemma skip_ws_le: "i \<le> length s \<Longrightarrow> skip_ws s i \<le> length s"
  by (induction s i rule: skip_ws.induct) (subst skip_ws.simps, auto)

lemma skip_ws_stop: "skip_ws s i < length s \<Longrightarrow> strchr whitespace (s ! skip_ws s i) = None"
proof (induction s i rule: skip_ws.induct)
  case (1 s i)
  show ?case
  proof (cases "i < length s \<and> strchr whitespace (s ! i) \<noteq> None")
    case True
    then have "skip_ws s i = skip_ws s (Suc i)" by (subst skip_ws.simps) simp
    then show ?thesis using 1 True by simp
  next
    case False
    then have "skip_ws s i = i" by (subst skip_ws.simps) auto
    then show ?thesis using False 1(2) by auto
  qed
qed

lemma skip_ws_idem [simp]: "skip_ws s (skip_ws s i) = skip_ws s i"
  using skip_ws_stop [of s i] by (subst skip_ws.simps) auto

lemma skip_word_ge: "i \<le> skip_word s i"
  by (induction s i rule: skip_word.induct) (subst skip_word.simps, auto)

lemma skip_word_le: "i \<le> length s \<Longrightarrow> skip_word s i \<le> length s"
  by (induction s i rule: skip_word.induct) (subst skip_word.simps, auto)

lemma ch_NUL: "ch s i \<noteq> NUL \<Longrightarrow> i < length s"
  by (auto simp: ch_def split: if_splits)

definition wordchar :: "char \<Rightarrow> bool" where
  "wordchar c \<longleftrightarrow> strchr whitespace c = None \<and> strchr symbols c = None"

lemma strchr_notin: "strchr s c = None \<longleftrightarrow> c \<notin> set s"
  by (induction s) auto

lemma wordchar_iff: "wordchar c \<longleftrightarrow> c \<notin> set whitespace \<and> c \<notin> set single \<and> c \<noteq> CHR ''>''"
proof -
  have "set symbols = insert CHR ''>'' (set single)" by code_simp
  then show ?thesis by (auto simp only: wordchar_def strchr_notin insert_iff)
qed

lemma skip_word_wordchar: "skip_word s i = (if i < length s \<and> wordchar (s ! i) then skip_word s (Suc i) else i)"
  unfolding wordchar_def by (rule skip_word.simps)

lemma token_at_eqs:
  "ch s q = NUL \<Longrightarrow> token_at s q = (NUL, q)"
  "ch s q \<noteq> NUL \<Longrightarrow> ch s q \<in> set single \<Longrightarrow> token_at s q = (ch s q, Suc q)"
  "ch s q \<noteq> NUL \<Longrightarrow> ch s q \<notin> set single \<Longrightarrow> ch s q = CHR ''>'' \<Longrightarrow>
    token_at s q = (if ch s (Suc q) = CHR ''>'' then (CHR ''+'', q + 2) else (CHR ''>'', Suc q))"
  "ch s q \<noteq> NUL \<Longrightarrow> ch s q \<notin> set single \<Longrightarrow> ch s q \<noteq> CHR ''>'' \<Longrightarrow> token_at s q = (CHR ''a'', skip_word s q)"
  by (simp_all only: token_at_def Let_def if_True if_False simp_thms)

lemma ch_nth: "ch s q \<noteq> NUL \<Longrightarrow> s ! q = ch s q"
  by (simp add: ch_def split: if_splits)

lemma token_at_cases:
  assumes "token_at s q = (tok, e)" "q < length s \<Longrightarrow> s ! q \<notin> set whitespace"
  obtains (eos) "ch s q = NUL" "tok = NUL" "e = q"
    | (one) "q < length s" "s ! q = tok" "tok \<in> set single" "e = Suc q"
    | (gt) "q < length s" "s ! q = CHR ''>''" "tok = CHR ''>''" "ch s (Suc q) \<noteq> CHR ''>''" "e = Suc q"
    | (gtgt) "q < length s" "s ! q = CHR ''>''" "tok = CHR ''+''" "Suc q < length s" "s ! Suc q = CHR ''>''" "e = q + 2"
    | (word) "q < length s" "wordchar (s ! q)" "tok = CHR ''a''" "e = skip_word s (Suc q)"
proof (cases "ch s q = NUL")
  case True
  then show thesis using assms(1) by (intro eos) (simp_all add: token_at_eqs(1))
next
  case nn: False
  note q = ch_NUL [OF nn] ch_nth [OF nn]
  show thesis
  proof (cases "ch s q \<in> set single")
    case True
    then have "tok = ch s q" "e = Suc q" using assms(1) token_at_eqs(2) [OF nn True] by simp_all
    then show ?thesis using q True by (intro one) simp_all
  next
    case ns: False
    show ?thesis
    proof (cases "ch s q = CHR ''>''")
      case True
      note t = token_at_eqs(3) [OF nn ns True]
      have gtn: "CHR ''>'' \<noteq> NUL" by (simp add: NUL_def)
      show ?thesis
      proof (cases "ch s (Suc q) = CHR ''>''")
        case gg: True
        then have "ch s (Suc q) \<noteq> NUL" using gtn by simp
        note q2 = ch_NUL [OF this] ch_nth [OF this]
        have "tok = CHR ''+''" "e = q + 2" using assms(1) t gg by simp_all
        then show ?thesis using q q2 True gg by (intro gtgt) simp_all
      next
        case False
        then have "tok = CHR ''>''" "e = Suc q" using assms(1) t by simp_all
        then show ?thesis using q True False by (intro gt) simp_all
      qed
    next
      case False
      have w: "wordchar (s ! q)" using assms(2) q ns False by (simp add: wordchar_iff)
      have "skip_word s q = skip_word s (Suc q)" using q(1) w by (subst skip_word_wordchar) (rule if_P, simp)
      then have "tok = CHR ''a''" "e = skip_word s (Suc q)" using assms(1) token_at_eqs(4) [OF nn ns False] by simp_all
      then show ?thesis using q(1) w by (intro word)
    qed
  qed
qed

lemma tok_not_NUL: "NUL \<notin> set single" "CHR ''a'' \<noteq> NUL" "CHR ''+'' \<noteq> NUL" "CHR ''>'' \<noteq> NUL"
  by (simp_all add: NUL_def single_def)

lemma gettoken_split:
  assumes "gettoken s i = (tok, (q, e), j)"
  shows "q = skip_ws s i" "token_at s q = (tok, e)" "j = skip_ws s e"
  using assms by (auto simp: gettoken_def Let_def split: prod.splits)

lemma skip_ws_nonws: "skip_ws s i < length s \<Longrightarrow> s ! skip_ws s i \<notin> set whitespace"
  using skip_ws_stop by (auto simp: strchr_notin)

lemma gettoken_pos:
  assumes "gettoken s i = (tok, (q, e), j)" "i \<le> length s"
  shows "i \<le> q" "q \<le> e" "e \<le> j" "j \<le> length s" "tok \<noteq> NUL \<Longrightarrow> q < e" "tok = NUL \<Longrightarrow> ch s q = NUL"
proof -
  note g = gettoken_split [OF assms(1)]
  have ql: "q \<le> length s" using g assms(2) skip_ws_le by simp
  have nw: "q < length s \<Longrightarrow> s ! q \<notin> set whitespace" using g(1) skip_ws_nonws by blast
  have "(q < e \<and> e \<le> length s \<and> tok \<noteq> NUL) \<or> (tok = NUL \<and> ch s q = NUL \<and> e = q)"
    by (rule token_at_cases [OF g(2) nw])
       (use tok_not_NUL skip_word_ge [of "Suc q" s] skip_word_le [of "Suc q" s] in auto)
  then show "q \<le> e" "j \<le> length s" "tok \<noteq> NUL \<Longrightarrow> q < e" "tok = NUL \<Longrightarrow> ch s q = NUL"
    using ql skip_ws_le g(3) by auto
  show "i \<le> q" "e \<le> j" using g by (simp_all add: skip_ws_ge)
qed

lemma peek_gettoken:
  assumes "peek s i toks = (True, j)" "gettoken s j = (tok, (q, e), k)"
  shows "q = j" "j < length s" "j < e" "e \<le> k" "k \<le> length s" "i \<le> j"
proof -
  have j: "j = skip_ws s i" "ch s j \<noteq> NUL" using assms(1) by (auto simp: peek_def Let_def)
  then show jl: "j < length s" "i \<le> j" using ch_NUL skip_ws_ge by auto
  show q: "q = j" using gettoken_split(1) [OF assms(2)] j(1) by simp
  have "tok \<noteq> NUL" using gettoken_pos(6) [OF assms(2)] j(2) jl q by auto
  then show "j < e" "e \<le> k" "k \<le> length s" using gettoken_pos [OF assms(2)] jl q by auto
qed

section \<open>Parsing\<close>

definition redir_switch :: "char \<Rightarrow> 'w cmd \<Rightarrow> 'w \<Rightarrow> 'w cmd" where
  \<comment> \<open>the \<^verbatim>\<open>switch\<close> of \<^verbatim>\<open>parseredirs\<close>\<close>
  "redir_switch tok cmd word =
     (if tok = CHR ''<'' then Redir cmd word O_RDONLY 0
      else if tok = CHR ''>'' then Redir cmd word (O_WRONLY OR O_CREATE OR O_TRUNC) 1
      else if tok = CHR ''+'' then Redir cmd word (O_WRONLY OR O_CREATE) 1
      else cmd)"

function parseredirs :: "string \<Rightarrow> span cmd \<Rightarrow> nat \<Rightarrow> span cmd pres" where
  "parseredirs s cmd ps =
     (let (more, i) = peek s ps ''<>'' in
      if \<not> more then Parsed cmd i
      else
        let (tok, _, j) = gettoken s i;
            (tok', word, k) = gettoken s j
        in if tok' \<noteq> CHR ''a'' then Syntax ''missing file for redirection''
           else parseredirs s
             (redir_switch tok cmd word) k)"
  by auto

termination
proof (relation "measure (\<lambda>(s, cmd, i). length s - i)")
  fix s :: string and cmd ps x more i y tok z w j y' tok' z' word k
  assume a: "x = peek s ps ''<>''" "(more, i) = x" "\<not> \<not> more" "y = gettoken s i" "(tok, z) = y" "(w, j) = z"
    "y' = gettoken s j" "(tok', z') = y'" "(word, k) = z'"
  obtain q e q' e' where w: "w = (q, e)" "word = (q', e')" by fastforce
  then have "j \<le> length s" "i < j" "i < length s" "ps \<le> i"
    using peek_gettoken [of s ps "''<>''" i tok q e j] a by auto
  moreover have "j \<le> k" using gettoken_pos [of s j tok' q' e' k] a w calculation by auto
  ultimately show "((s, redir_switch tok cmd word, k), s, cmd, ps) \<in> measure (\<lambda>(s, cmd, i). length s - i)"
    by simp
qed simp

declare parseredirs.simps [simp del]

fun add_arg :: "'w \<Rightarrow> 'w cmd \<Rightarrow> 'w cmd" where
  \<comment> \<open>\<^verbatim>\<open>cmd->argv[argc] = q\<close>, where \<^verbatim>\<open>cmd\<close> is the \<^verbatim>\<open>execcmd\<close> that the redirections of \<^verbatim>\<open>ret\<close> wrap\<close>
  "add_arg w (Exec args) = Exec (args @ [w])"
| "add_arg w (Redir c f m d) = Redir (add_arg w c) f m d"
| "add_arg w c = c"

fun parse_args :: "nat \<Rightarrow> string \<Rightarrow> span cmd \<Rightarrow> nat \<Rightarrow> span cmd pres" where
  \<comment> \<open>the loop of \<^verbatim>\<open>parseexec\<close>, with \<open>MAXARGS - argc\<close> entries of \<^verbatim>\<open>argv\<close> left; they are never used up\<close>
  "parse_args 0 s cmd ps = OutOfFuel"
| "parse_args (Suc k) s cmd ps =
     (let (stop, i) = peek s ps ''|)&;'' in
      if stop then Parsed cmd i
      else
        let (tok, word, j) = gettoken s i in
        if tok = NUL then Parsed cmd j
        else if tok \<noteq> CHR ''a'' then Syntax ''syntax''
        else if k = 0 then Syntax ''too many args''
        else pbind (parseredirs s (add_arg word cmd) j) (\<lambda>cmd i. parse_args k s cmd i))"

function parse_back :: "string \<Rightarrow> span cmd \<Rightarrow> nat \<Rightarrow> span cmd \<times> nat" where
  \<comment> \<open>the loop of \<^verbatim>\<open>parseline\<close> on \<^verbatim>\<open>&\<close>\<close>
  "parse_back s cmd ps =
     (let (more, i) = peek s ps ''&'' in
      if more then let (_, _, j) = gettoken s i in parse_back s (Back cmd) j
      else (cmd, i))"
  by auto

termination
proof (relation "measure (\<lambda>(s, cmd, i). length s - i)")
  fix s :: string and cmd ps x more i y tok z w j
  assume a: "x = peek s ps ''&''" "(more, i) = x" more "y = gettoken s i" "(tok, z) = y" "(w, j) = z"
  obtain q e where w: "w = (q, e)" by fastforce
  then have "i < j" "i < length s" "ps \<le> i" using peek_gettoken [of s ps "''&''" i tok q e j] a by auto
  then show "((s, Back cmd, j), s, cmd, ps) \<in> measure (\<lambda>(s, cmd, i). length s - i)" by simp
qed simp

declare parse_back.simps [simp del]

fun parseline :: "nat \<Rightarrow> string \<Rightarrow> nat \<Rightarrow> span cmd pres"
  and parsepipe :: "nat \<Rightarrow> string \<Rightarrow> nat \<Rightarrow> span cmd pres"
  and parseexec :: "nat \<Rightarrow> string \<Rightarrow> nat \<Rightarrow> span cmd pres"
  and parseblock :: "nat \<Rightarrow> string \<Rightarrow> nat \<Rightarrow> span cmd pres" where
  "parseline 0 s ps = OutOfFuel"
| "parseline (Suc n) s ps =
     pbind (parsepipe n s ps) (\<lambda>cmd i.
       let (cmd, i) = parse_back s cmd i;
           (semi, i) = peek s i '';''
       in if semi
          then let (_, _, j) = gettoken s i
               in pbind (parseline n s j) (\<lambda>right k. Parsed (Lst cmd right) k)
          else Parsed cmd i)"
| "parsepipe 0 s ps = OutOfFuel"
| "parsepipe (Suc n) s ps =
     pbind (parseexec n s ps) (\<lambda>cmd i.
       let (bar, i) = peek s i ''|''
       in if bar
          then let (_, _, j) = gettoken s i
               in pbind (parsepipe n s j) (\<lambda>right k. Parsed (Pipe cmd right) k)
          else Parsed cmd i)"
| "parseexec 0 s ps = OutOfFuel"
| "parseexec (Suc n) s ps =
     (let (block, i) = peek s ps ''('' in
      if block then parseblock n s i
      else pbind (parseredirs s (Exec []) i) (\<lambda>cmd i. parse_args MAXARGS s cmd i))"
| "parseblock 0 s ps = OutOfFuel"
| "parseblock (Suc n) s ps =
     (let (op, i) = peek s ps ''('' in
      if \<not> op then Syntax ''parseblock''
      else
        let (_, _, j) = gettoken s i in
        pbind (parseline n s j) (\<lambda>cmd i.
          let (cl, i) = peek s i '')'' in
          if \<not> cl then Syntax ''syntax - missing )''
          else let (_, _, j) = gettoken s i in parseredirs s cmd j))"

fun nulterminate :: "span cmd \<Rightarrow> string \<Rightarrow> string" where
  \<comment> \<open>the buffer after \<^verbatim>\<open>*ecmd->eargv[i] = 0\<close> and \<^verbatim>\<open>*rcmd->efile = 0\<close>\<close>
  "nulterminate (Exec args) buf = fold (\<lambda>(q, eq) buf. buf[eq := NUL]) args buf"
| "nulterminate (Redir c (q, eq) m d) buf = (nulterminate c buf)[eq := NUL]"
| "nulterminate (Pipe l r) buf = nulterminate r (nulterminate l buf)"
| "nulterminate (Lst l r) buf = nulterminate r (nulterminate l buf)"
| "nulterminate (Back c) buf = nulterminate c buf"

definition parse_fuel :: "string \<Rightarrow> nat" where
  "parse_fuel s = 4 * length s + 4"

definition parsecmd :: "string \<Rightarrow> (span cmd \<times> string) pres" where
  \<comment> \<open>the command and the buffer with its words terminated\<close>
  "parsecmd s =
     pbind (parseline (parse_fuel s) s 0) (\<lambda>cmd i.
       let (_, i) = peek s i [] in
       if i \<noteq> length s then Syntax ''syntax''
       else Parsed (cmd, nulterminate cmd (s @ [NUL])) i)"

end
