(* ===== verification/Shell_Parse.thy ===== *)
theory Shell_Parse
  imports Shell
begin

text \<open>
  The parser of the shell is total, stays within its line and its arrays, and leaves every
  word of the command as a proper C string.
\<close>

section \<open>Well-formed results\<close>

definition span_ok :: "string \<Rightarrow> span \<Rightarrow> bool" where
  \<comment> \<open>a maximal piece of the line without white space and symbols, not empty\<close>
  "span_ok s w \<longleftrightarrow> (case w of (q, e) \<Rightarrow> q < e \<and> e \<le> length s \<and> (\<forall>i. q \<le> i \<longrightarrow> i < e \<longrightarrow> wordchar (s ! i))
     \<and> (e < length s \<longrightarrow> \<not> wordchar (s ! e)))"

fun args_ok :: "'w cmd \<Rightarrow> bool" where
  \<comment> \<open>every \<^verbatim>\<open>argv\<close> has room for its final null pointer\<close>
  "args_ok (Exec args) \<longleftrightarrow> length args < MAXARGS"
| "args_ok (Redir c f m d) \<longleftrightarrow> args_ok c"
| "args_ok (Pipe l r) \<longleftrightarrow> args_ok l \<and> args_ok r"
| "args_ok (Lst l r) \<longleftrightarrow> args_ok l \<and> args_ok r"
| "args_ok (Back c) \<longleftrightarrow> args_ok c"

definition cmd_ok :: "string \<Rightarrow> span cmd \<Rightarrow> bool" where
  "cmd_ok s c \<longleftrightarrow> (\<forall>w \<in> set_cmd c. span_ok s w) \<and> args_ok c"

lemma cmd_ok_simps [simp]:
  "cmd_ok s (Exec args) \<longleftrightarrow> (\<forall>w \<in> set args. span_ok s w) \<and> length args < MAXARGS"
  "cmd_ok s (Redir c f m d) \<longleftrightarrow> cmd_ok s c \<and> span_ok s f"
  "cmd_ok s (Pipe l r) \<longleftrightarrow> cmd_ok s l \<and> cmd_ok s r"
  "cmd_ok s (Lst l r) \<longleftrightarrow> cmd_ok s l \<and> cmd_ok s r"
  "cmd_ok s (Back c) \<longleftrightarrow> cmd_ok s c"
  by (auto simp: cmd_ok_def)

fun good :: "string \<Rightarrow> nat \<Rightarrow> span cmd pres \<Rightarrow> bool" where
  "good s i (Parsed c j) \<longleftrightarrow> i \<le> j \<and> j \<le> length s \<and> cmd_ok s c"
| "good s i (Syntax e) \<longleftrightarrow> True"
| "good s i OutOfFuel \<longleftrightarrow> False"

lemma good_mono: "good s j r \<Longrightarrow> i \<le> j \<Longrightarrow> good s i r"
  by (cases r) auto

lemma good_pbind:
  assumes "good s i m" "\<And>c j. m = Parsed c j \<Longrightarrow> i \<le> j \<Longrightarrow> j \<le> length s \<Longrightarrow> cmd_ok s c \<Longrightarrow> good s i (f c j)"
  shows "good s i (pbind m f)"
  using assms by (cases m) auto

section \<open>Tokens\<close>

lemma skip_word_chars: "i \<le> k \<Longrightarrow> k < skip_word s i \<Longrightarrow> wordchar (s ! k)"
proof (induction s i rule: skip_word.induct)
  case (1 s i)
  show ?case
  proof (cases "i < length s \<and> wordchar (s ! i)")
    case True
    then have "skip_word s i = skip_word s (Suc i)" using skip_word_wordchar [of s i] by simp
    then show ?thesis using 1 True by (cases "k = i") (auto simp: wordchar_def)
  next
    case False
    then have "skip_word s i = i" using skip_word_wordchar [of s i] by auto
    then show ?thesis using 1(2,3) by simp
  qed
qed

lemma skip_word_end: "skip_word s i < length s \<Longrightarrow> \<not> wordchar (s ! skip_word s i)"
proof (induction s i rule: skip_word.induct)
  case (1 s i)
  show ?case
  proof (cases "i < length s \<and> wordchar (s ! i)")
    case True
    then have "skip_word s i = skip_word s (Suc i)" using skip_word_wordchar [of s i] by simp
    then show ?thesis using 1 True by (auto simp: wordchar_def)
  next
    case False
    then have "skip_word s i = i" using skip_word_wordchar [of s i] by auto
    then show ?thesis using 1(2) False by simp
  qed
qed

lemma a_not_single: "CHR ''a'' \<notin> set single"
  by (simp add: single_def)

lemma gettoken_word:
  assumes "gettoken s i = (CHR ''a'', w, j)" "i \<le> length s"
  shows "span_ok s w" "i < j"
proof -
  obtain q e where w: "w = (q, e)" by fastforce
  note g = gettoken_split [OF assms(1) [unfolded w]]
  have nw: "q < length s \<Longrightarrow> s ! q \<notin> set whitespace" using g(1) skip_ws_nonws by blast
  have "q < length s \<and> wordchar (s ! q) \<and> e = skip_word s (Suc q)"
    by (rule token_at_cases [OF g(2) nw]) (use tok_not_NUL a_not_single in auto)
  then have q: "q < length s" "e = skip_word s q" "q < e"
    using skip_word_wordchar [of s q] skip_word_ge [of "Suc q" s] by auto
  then show "span_ok s w"
    using skip_word_chars [of q _ s] skip_word_end [of s q] skip_word_le [of q s] w by (auto simp: span_ok_def)
  show "i < j" using q(3) gettoken_pos [OF assms(1) [unfolded w] assms(2)] by linarith
qed

lemma peek_pos:
  assumes "peek s i toks = (b, j)" "i \<le> length s"
  shows "i \<le> j" "j \<le> length s"
  using assms skip_ws_ge skip_ws_le by (auto simp: peek_def Let_def)

lemma peek_token:
  assumes "peek s i toks = (True, j)" "gettoken s j = (tok, w, k)"
  shows "j < k" "k \<le> length s" "i \<le> j"
proof -
  obtain q e where w: "w = (q, e)" by fastforce
  show "j < k" "k \<le> length s" "i \<le> j" using peek_gettoken [OF assms(1) assms(2) [unfolded w]] by auto
qed

section \<open>Every call is good\<close>

fun leaf_args :: "'w cmd \<Rightarrow> nat option" where
  \<comment> \<open>the number of arguments of the \<^verbatim>\<open>execcmd\<close> that redirections wrap\<close>
  "leaf_args (Exec args) = Some (length args)"
| "leaf_args (Redir c f m d) = leaf_args c"
| "leaf_args c = None"

lemma parseredirs_step:
  "parseredirs s c ps =
    (case peek s ps ''<>'' of (more, i) \<Rightarrow>
      if \<not> more then Parsed c i
      else case gettoken s i of (tok, _, j) \<Rightarrow> case gettoken s j of (tok', w, k) \<Rightarrow>
        if tok' \<noteq> CHR ''a'' then Syntax ''missing file for redirection''
        else parseredirs s (redir_switch tok c w) k)"
  by (subst parseredirs.simps) (simp only: Let_def)

lemma parseredirs_good:
  "i \<le> length s \<Longrightarrow> cmd_ok s c \<Longrightarrow> good s i (parseredirs s c i)
    \<and> (\<forall>c' j. parseredirs s c i = Parsed c' j \<longrightarrow> leaf_args c' = leaf_args c)"
proof (induction "length s - i" arbitrary: c i rule: less_induct)
  case less
  obtain more j where p: "peek s i ''<>'' = (more, j)" by fastforce
  show ?case
  proof (cases more)
    case False
    then show ?thesis using p peek_pos [OF p less.prems(1)] less.prems
      by (subst (1 2) parseredirs_step) simp
  next
    case True
    obtain tok w k tok' w' l where g: "gettoken s j = (tok, w, k)" "gettoken s k = (tok', w', l)" by (metis prod_cases3)
    have p': "peek s i ''<>'' = (True, j)" using p True by simp
    note pk = peek_token [OF p' g(1)]
    define d where "d = redir_switch tok c w'"
    have st: "parseredirs s c i = (if tok' \<noteq> CHR ''a'' then Syntax ''missing file for redirection'' else parseredirs s d l)"
      using p g True by (subst parseredirs_step) (simp add: d_def)
    show ?thesis
    proof (cases "tok' = CHR ''a''")
      case True
      note gw = gettoken_word [OF g(2) [unfolded True] pk(2)]
      obtain q e where w': "w' = (q, e)" by fastforce
      have "l \<le> length s" using gettoken_pos(4) [OF g(2) [unfolded w'] pk(2)] .
      moreover have "cmd_ok s d" "leaf_args d = leaf_args c" using less.prems(2) gw(1) by (simp_all add: d_def redir_switch_def)
      ultimately have "good s l (parseredirs s d l) \<and> (\<forall>c' j. parseredirs s d l = Parsed c' j \<longrightarrow> leaf_args c' = leaf_args d)"
        using pk gw(2) less.prems(1) by (intro less.hyps) auto
      then show ?thesis using st True pk gw(2) \<open>leaf_args d = leaf_args c\<close> by (auto intro: good_mono)
    qed (simp add: st)
  qed
qed

lemma leaf_add_arg: "leaf_args c = Some n \<Longrightarrow> leaf_args (add_arg w c) = Some (Suc n)"
  by (induction c) auto

lemma cmd_ok_add_arg:
  "leaf_args c = Some n \<Longrightarrow> Suc n < MAXARGS \<Longrightarrow> cmd_ok s c \<Longrightarrow> span_ok s w \<Longrightarrow> cmd_ok s (add_arg w c)"
  by (induction c) auto

lemma parse_args_good:
  "i \<le> length s \<Longrightarrow> cmd_ok s c \<Longrightarrow> leaf_args c = Some n \<Longrightarrow> n + k = MAXARGS \<Longrightarrow> 0 < k \<Longrightarrow> good s i (parse_args k s c i)"
proof (induction k arbitrary: c i n)
  case (Suc k)
  obtain stop j tok w l where p: "peek s i ''|)&;'' = (stop, j)" "gettoken s j = (tok, w, l)" by (metis prod_cases3 surj_pair)
  note pk = peek_pos [OF p(1) Suc.prems(1)]
  obtain q e where w: "w = (q, e)" by fastforce
  note gp = gettoken_pos [OF p(2) [unfolded w] pk(2)]
  have st: "parse_args (Suc k) s c i = (if stop then Parsed c j else if tok = NUL then Parsed c l
      else if tok \<noteq> CHR ''a'' then Syntax ''syntax'' else if k = 0 then Syntax ''too many args''
      else pbind (parseredirs s (add_arg w c) l) (\<lambda>c i. parse_args k s c i))"
    using p by simp
  show ?case
  proof (cases "stop \<or> tok \<noteq> CHR ''a'' \<or> k = 0")
    case True
    then show ?thesis using pk gp Suc.prems(2) st by auto
  next
    case False
    then have t: "tok = CHR ''a''" by simp
    note gw = gettoken_word [OF p(2) [unfolded t] pk(2)]
    have a: "cmd_ok s (add_arg w c)" "leaf_args (add_arg w c) = Some (Suc n)"
      using Suc.prems gw(1) False by (auto intro: cmd_ok_add_arg leaf_add_arg)
    note r = parseredirs_good [OF gp(4) a(1)]
    have "good s l (pbind (parseredirs s (add_arg w c) l) (\<lambda>c i. parse_args k s c i))"
    proof (rule good_pbind)
      fix c' m assume "parseredirs s (add_arg w c) l = Parsed c' m" "l \<le> m" "m \<le> length s" "cmd_ok s c'"
      then show "good s l (parse_args k s c' m)"
        using r a(2) Suc.prems(4) False by (intro good_mono [OF Suc.IH [of m c' "Suc n"]]) auto
    qed (use r in simp)
    then have "good s i (pbind (parseredirs s (add_arg w c) l) (\<lambda>c i. parse_args k s c i))"
      by (rule good_mono) (use pk gw(2) in linarith)
    then show ?thesis using st False t tok_not_NUL(2) by presburger
  qed
qed simp

lemma parse_back_step:
  "parse_back s c ps = (case peek s ps ''&'' of (more, i) \<Rightarrow>
    if more then case gettoken s i of (_, _, j) \<Rightarrow> parse_back s (Back c) j else (c, i))"
  by (subst parse_back.simps) (simp only: Let_def)

lemma parse_back_good:
  "i \<le> length s \<Longrightarrow> cmd_ok s c \<Longrightarrow> parse_back s c i = (c', j) \<Longrightarrow> i \<le> j \<and> j \<le> length s \<and> cmd_ok s c'"
proof (induction "length s - i" arbitrary: c i rule: less_induct)
  case less
  obtain more k where p: "peek s i ''&'' = (more, k)" by fastforce
  show ?case
  proof (cases more)
    case False
    then have "parse_back s c i = (c, k)" using p by (subst parse_back_step) simp
    then show ?thesis using less.prems peek_pos [OF p less.prems(1)] by simp
  next
    case True
    then have p': "peek s i ''&'' = (True, k)" using p by simp
    obtain tok w l where g: "gettoken s k = (tok, w, l)" by (metis prod_cases3)
    note pk = peek_token [OF p' g]
    have "parse_back s c i = parse_back s (Back c) l" using p' g by (subst parse_back_step) simp
    then have "l \<le> j \<and> j \<le> length s \<and> cmd_ok s c'"
      using less.prems pk by (intro less.hyps [of l "Back c"]) auto
    then show ?thesis using pk by auto
  qed
qed

text \<open>After a first part, an optional separator and another command.\<close>

lemma rest_good:
  assumes "i \<le> j" "j \<le> length s" "cmd_ok s c" "\<And>r. cmd_ok s r \<Longrightarrow> cmd_ok s (F r)"
    "\<And>m. j < m \<Longrightarrow> m \<le> length s \<Longrightarrow> good s m (P m)"
  shows "good s i (let (b, l) = peek s j toks in
    if b then let (_, _, m) = gettoken s l in pbind (P m) (\<lambda>r k. Parsed (F r) k) else Parsed c l)"
proof -
  obtain b l tok w m where e: "peek s j toks = (b, l)" "gettoken s l = (tok, w, m)" by (metis prod_cases3 surj_pair)
  note pk = peek_pos [OF e(1) assms(2)]
  show ?thesis
  proof (cases b)
    case True
    then have m: "l < m" "m \<le> length s" using peek_token [of s j toks l tok w m] e by auto
    then have "good s m (pbind (P m) (\<lambda>r k. Parsed (F r) k))"
      using pk assms(4,5) by (intro good_pbind) simp_all
    then have "good s i (pbind (P m) (\<lambda>r k. Parsed (F r) k))" by (rule good_mono) (use m pk assms(1) in linarith)
    then show ?thesis using e True by simp
  qed (use e pk assms(1,3) in simp)
qed

lemma parseexec_good:
  assumes "i \<le> length s" "\<And>j. i \<le> j \<Longrightarrow> j \<le> length s \<Longrightarrow> good s j (parseblock n s j)"
  shows "good s i (parseexec (Suc n) s i)"
proof -
  obtain b j where p: "peek s i ''('' = (b, j)" by fastforce
  note pk = peek_pos [OF p assms(1)]
  have e: "cmd_ok s (Exec [])" by (simp add: MAXARGS_def)
  note r = parseredirs_good [OF pk(2) e]
  have "good s j (pbind (parseredirs s (Exec []) j) (\<lambda>c i. parse_args MAXARGS s c i))"
  proof (rule good_pbind)
    fix c k assume "parseredirs s (Exec []) j = Parsed c k" "j \<le> k" "k \<le> length s" "cmd_ok s c"
    then show "good s j (parse_args MAXARGS s c k)"
      using r by (intro good_mono [OF parse_args_good [of k s c 0]]) (auto simp: MAXARGS_def)
  qed (use r in simp)
  then have "good s i (pbind (parseredirs s (Exec []) j) (\<lambda>c i. parse_args MAXARGS s c i))"
    using pk(1) by (rule good_mono)
  then show ?thesis using p good_mono [OF assms(2) [OF pk] pk(1)] by simp
qed

lemma parseblock_good:
  assumes "i \<le> length s" "\<And>j. i < j \<Longrightarrow> j \<le> length s \<Longrightarrow> good s j (parseline n s j)"
  shows "good s i (parseblock (Suc n) s i)"
proof -
  obtain b j tok w k where p: "peek s i ''('' = (b, j)" "gettoken s j = (tok, w, k)" by (metis prod_cases3 surj_pair)
  show ?thesis
  proof (cases b)
    case True
    then have pk: "j < k" "k \<le> length s" "i \<le> j" using peek_token [of s i "''(''" j tok w k] p by auto
    have "good s k (pbind (parseline n s k) (\<lambda>cmd i. let (cl, i) = peek s i '')'' in
      if \<not> cl then Syntax ''syntax - missing )'' else let (_, _, j) = gettoken s i in parseredirs s cmd j))"
    proof (rule good_pbind)
      show "good s k (parseline n s k)" using pk by (intro assms(2)) linarith+
      fix c l assume l: "k \<le> l" "l \<le> length s" "cmd_ok s c"
      obtain b' m tok' w' o' where q: "peek s l '')'' = (b', m)" "gettoken s m = (tok', w', o')" by (metis prod_cases3 surj_pair)
      have "good s k (parseredirs s c o')" if b'
      proof -
        have o: "m < o'" "o' \<le> length s" "l \<le> m" using that peek_token [of s l "'')''" m tok' w' o'] q by auto
        then have "good s o' (parseredirs s c o')" using parseredirs_good l(3) by blast
        then show ?thesis by (rule good_mono) (use o l in linarith)
      qed
      then show "good s k (let (cl, i) = peek s l '')'' in
        if \<not> cl then Syntax ''syntax - missing )'' else let (_, _, j) = gettoken s i in parseredirs s c j)"
        using q by simp
    qed
    then have "good s i (pbind (parseline n s k) (\<lambda>cmd i. let (cl, i) = peek s i '')'' in
      if \<not> cl then Syntax ''syntax - missing )'' else let (_, _, j) = gettoken s i in parseredirs s cmd j))"
      by (rule good_mono) (use pk in linarith)
    then show ?thesis using p True by simp
  qed (use p in simp)
qed

lemma parse_good:
  "(i \<le> length s \<longrightarrow> 4 * (length s - i) + 4 \<le> n \<longrightarrow> good s i (parseline n s i))
    \<and> (i \<le> length s \<longrightarrow> 4 * (length s - i) + 3 \<le> n \<longrightarrow> good s i (parsepipe n s i))
    \<and> (i \<le> length s \<longrightarrow> 4 * (length s - i) + 2 \<le> n \<longrightarrow> good s i (parseexec n s i))
    \<and> (i \<le> length s \<longrightarrow> 4 * (length s - i) + 1 \<le> n \<longrightarrow> good s i (parseblock n s i))"
proof (induction n arbitrary: i)
  case (Suc n)
  have line: "good s i (parseline (Suc n) s i)" if i: "i \<le> length s" "4 * (length s - i) + 4 \<le> Suc n"
    unfolding parseline.simps
  proof (rule good_pbind)
    show "good s i (parsepipe n s i)" using i Suc.IH [of i] by simp
    fix c j assume j: "i \<le> j" "j \<le> length s" "cmd_ok s c"
    obtain c' k where e: "parse_back s c j = (c', k)" by fastforce
    note b = parse_back_good [OF j(2,3) e]
    have "good s m (parseline n s m)" if "k < m" "m \<le> length s" for m using Suc.IH [of m] i j b that by auto
    then have "good s i (let (b, l) = peek s k '';'' in
        if b then let (_, _, m) = gettoken s l in pbind (parseline n s m) (\<lambda>r k. Parsed (Lst c' r) k) else Parsed c' l)"
      using b j by (intro rest_good) simp_all
    then show "good s i (let (cmd, i) = parse_back s c j; (semi, i) = peek s i '';'' in
        if semi then let (_, _, j) = gettoken s i in pbind (parseline n s j) (\<lambda>right k. Parsed (Lst cmd right) k)
        else Parsed cmd i)"
      using e by simp
  qed
  have pipe: "good s i (parsepipe (Suc n) s i)" if i: "i \<le> length s" "4 * (length s - i) + 3 \<le> Suc n"
    unfolding parsepipe.simps
  proof (rule good_pbind)
    show "good s i (parseexec n s i)" using i Suc.IH [of i] by simp
    fix c j assume j: "i \<le> j" "j \<le> length s" "cmd_ok s c"
    have "good s m (parsepipe n s m)" if "j < m" "m \<le> length s" for m using Suc.IH [of m] i j that by auto
    then show "good s i (let (bar, i) = peek s j ''|'' in
        if bar then let (_, _, j) = gettoken s i in pbind (parsepipe n s j) (\<lambda>right k. Parsed (Pipe c right) k)
        else Parsed c i)"
      using j by (intro rest_good) simp_all
  qed
  have "good s i (parseexec (Suc n) s i)" if "i \<le> length s" "4 * (length s - i) + 2 \<le> Suc n"
    using that Suc.IH by (intro parseexec_good) auto
  moreover have "good s i (parseblock (Suc n) s i)" if "i \<le> length s" "4 * (length s - i) + 1 \<le> Suc n"
    using that Suc.IH by (intro parseblock_good) auto
  ultimately show ?case using line pipe by blast
qed simp

lemma parseline_good: "good s 0 (parseline (parse_fuel s) s 0)"
  using parse_good [of 0 s "parse_fuel s"] by (simp add: parse_fuel_def)

section \<open>The words as C strings\<close>

definition cstring_at :: "string \<Rightarrow> nat \<Rightarrow> string" where
  \<comment> \<open>the C string a pointer into the buffer points at\<close>
  "cstring_at buf q = takeWhile (\<lambda>c. c \<noteq> NUL) (drop q buf)"

definition word_of :: "string \<Rightarrow> span \<Rightarrow> string" where
  "word_of s w = (case w of (q, e) \<Rightarrow> take (e - q) (drop q s))"

lemma nth_upd: "i < length xs \<Longrightarrow> xs[j := v] ! i = (if j = i then v else xs ! i)"
  by (cases "j < length xs") (simp_all add: nth_list_update list_update_beyond)

lemma nulterminate_fold_length: "length (fold (\<lambda>(q, eq) buf. buf[eq := NUL]) args buf) = length buf"
  by (induction args arbitrary: buf) auto

lemma nulterminate_fold_nth:
  "i < length buf \<Longrightarrow> fold (\<lambda>(q, eq) buf. buf[eq := NUL]) args buf ! i = (if \<exists>q. (q, i) \<in> set args then NUL else buf ! i)"
  by (induction args arbitrary: buf) (auto simp: nth_upd)

lemma nulterminate_length: "length (nulterminate c buf) = length buf"
  by (induction c buf rule: nulterminate.induct) (simp_all add: nulterminate_fold_length)

lemma nulterminate_nth:
  "i < length buf \<Longrightarrow> nulterminate c buf ! i = (if \<exists>q. (q, i) \<in> set_cmd c then NUL else buf ! i)"
  by (induction c buf rule: nulterminate.induct)
     (auto simp: nulterminate_fold_nth nulterminate_length nth_upd split: if_splits)

lemma takeWhile_take_drop:
  assumes "q \<le> e" "e < length buf" "\<And>i. q \<le> i \<Longrightarrow> i < e \<Longrightarrow> P (buf ! i)" "\<not> P (buf ! e)"
  shows "takeWhile P (drop q buf) = take (e - q) (drop q buf)"
  using assms by (intro takeWhile_eq_take_P_nth) (simp_all add: nth_drop)

lemma nulterminate_word:
  assumes "cmd_ok s c" "NUL \<notin> set s" "w \<in> set_cmd c"
  shows "cstring_at (nulterminate c (s @ [NUL])) (fst w) = word_of s w"
proof -
  obtain q e where w: "w = (q, e)" by fastforce
  have ok: "span_ok s v" if "v \<in> set_cmd c" for v using assms(1) that by (simp add: cmd_ok_def)
  have sp: "q < e" "e \<le> length s" "\<And>i. q \<le> i \<Longrightarrow> i < e \<Longrightarrow> wordchar (s ! i)"
    using ok [OF assms(3)] w by (auto simp: span_ok_def)
  let ?b = "nulterminate c (s @ [NUL])"
  have l: "length ?b = Suc (length s)" by (simp add: nulterminate_length)
  have keep: "?b ! i = s ! i" if "q \<le> i" "i < e" for i
  proof -
    have "\<not> (\<exists>p. (p, i) \<in> set_cmd c)"
    proof
      assume "\<exists>p. (p, i) \<in> set_cmd c"
      then have "\<not> wordchar (s ! i)" using ok sp(2) that(2) by (force simp: span_ok_def)
      then show False using sp(3) that by blast
    qed
    then show ?thesis using that sp(2) by (simp add: nulterminate_nth nth_append)
  qed
  have "?b ! e = NUL"
    using assms(3) w sp(2) by (auto simp: nulterminate_nth)
  moreover have "s ! i \<noteq> NUL" if "i < e" for i using assms(2) sp(2) that by (metis less_le_trans nth_mem)
  ultimately have "cstring_at ?b q = take (e - q) (drop q ?b)"
    unfolding cstring_at_def using sp(1,2) l keep by (intro takeWhile_take_drop) auto
  also have "\<dots> = take (e - q) (drop q s)"
    using sp(1,2) l keep by (intro nth_equalityI) auto
  finally show ?thesis by (simp add: w word_of_def)
qed

section \<open>Properties\<close>

text \<open>
  C21.  The parser of the shell terminates on every line: the fuel \<open>parse_fuel\<close> is enough, so
  \<^verbatim>\<open>parsecmd\<close> either returns a command, having consumed the whole line, or gives up with a message.
\<close>

theorem parsecmd_terminates:
  "(\<exists>c buf. parsecmd s = Parsed (c, buf) (length s)) \<or> (\<exists>msg. parsecmd s = Syntax msg)"
  using parseline_good [of s]
  by (cases "parseline (parse_fuel s) s 0") (auto simp: parsecmd_def split: prod.split)

lemma parsecmd_ok:
  assumes "parsecmd s = Parsed (c, buf) i"
  shows "cmd_ok s c" "buf = nulterminate c (s @ [NUL])"
  using assms parseline_good [of s]
  by (cases "parseline (parse_fuel s) s 0"; auto simp: parsecmd_def split: prod.splits if_splits)+

lemma wordchar_chars: "wordchar x \<longleftrightarrow> x \<notin> {CHR '' '', CHR 0x09, CHR 0x0D, CHR 0x0A, CHR 0x0B} \<union> set ''<|>&;()''"
  unfolding wordchar_def strchr_notin whitespace_def symbols_def by (simp only: list.set Un_iff de_Morgan_disj)

lemma span_word: "span_ok s (q, e) \<Longrightarrow> q < e \<and> e \<le> length s \<and> (\<forall>c \<in> set (word_of s (q, e)). wordchar c)"
  by (auto simp: span_ok_def word_of_def in_set_conv_nth)

text \<open>
  C23.  Nothing a user types makes the parser write outside its arrays: in a parsed command no
  \<^verbatim>\<open>argv\<close> has more than 9 of its 10 entries in use, so the final null pointer fits, and every word
  lies within the line, is not empty and contains no white space and no symbol of the shell.
\<close>

theorem parsecmd_bounds:
  assumes "parsecmd s = Parsed (c, buf) i"
  shows "args_ok c \<and> (\<forall>(q, e) \<in> set_cmd c. q < e \<and> e \<le> length s \<and> (\<forall>c \<in> set (word_of s (q, e)). wordchar c))"
  using parsecmd_ok(1) [OF assms] span_word [of s] unfolding cmd_ok_def by blast

theorem parsecmd_bounds_witness:
  "args_ok (Redir (Exec [(0, 2)]) (4, 5) O_RDONLY 0) \<and> length ''ls <a'' = 5"
proof -
  have "parsecmd ''ls <a'' = Parsed (Redir (Exec [(0, 2)]) (4, 5) O_RDONLY 0, [CHR ''l'', CHR ''s'', NUL, CHR ''<'', CHR ''a'', NUL]) 5"
    by code_simp
  from parsecmd_bounds [OF this] show ?thesis by simp
qed

text \<open>
  C22.  After \<^verbatim>\<open>nulterminate\<close> every word of the command is a C string: the characters from its
  start up to the next NUL are exactly the characters of the word, although the terminators are
  written into the line over whatever followed each word.  It is not empty, and it has no blank
  and no symbol of the shell in it.
\<close>

theorem parsecmd_words:
  assumes "NUL \<notin> set s" "parsecmd s = Parsed (c, buf) i"
  shows "map_cmd (\<lambda>w. cstring_at buf (fst w)) c = map_cmd (word_of s) c \<and>
    (\<forall>w \<in> set_cmd (map_cmd (\<lambda>w. cstring_at buf (fst w)) c). w \<noteq> [] \<and>
      set w \<inter> ({CHR '' '', CHR 0x09, CHR 0x0D, CHR 0x0A, CHR 0x0B} \<union> set ''<|>&;()'') = {})"
proof -
  note ok = parsecmd_ok [OF assms(2)]
  have m: "map_cmd (\<lambda>w. cstring_at buf (fst w)) c = map_cmd (word_of s) c"
    using nulterminate_word [OF ok(1) assms(1)] ok(2) by (auto intro: cmd.map_cong)
  have w: "word_of s w \<noteq> [] \<and> (\<forall>x \<in> set (word_of s w). wordchar x)" if "w \<in> set_cmd c" for w
  proof -
    obtain q e where w: "w = (q, e)" by force
    then have "span_ok s (q, e)" using ok(1) that by (auto simp: cmd_ok_def)
    from span_word [OF this] show ?thesis by (auto simp: w word_of_def)
  qed
  have x: "set w \<inter> ({CHR '' '', CHR 0x09, CHR 0x0D, CHR 0x0A, CHR 0x0B} \<union> set ''<|>&;()'') = {}"
    if "\<forall>x \<in> set w. wordchar x" for w
    unfolding disjoint_iff using that wordchar_chars by blast
  show ?thesis unfolding m cmd.set_map ball_simps using w x by simp
qed

theorem parsecmd_words_witness:
  "cstring_at [CHR ''a'', NUL, CHR ''b'', NUL] 0 = ''a'' \<and> cstring_at [CHR ''a'', NUL, CHR ''b'', NUL] 2 = ''b''"
proof -
  have p: "parsecmd ''a|b'' = Parsed (Pipe (Exec [(0, 1)]) (Exec [(2, 3)]), [CHR ''a'', NUL, CHR ''b'', NUL]) 3" by code_simp
  have "NUL \<notin> set ''a|b''" by (simp add: NUL_def)
  from conjunct1 [OF parsecmd_words [OF this p]] show ?thesis by (simp add: word_of_def)
qed

end
