(* ===== verification/Shell_Print.thy ===== *)
theory Shell_Print
  imports Shell_Parse
begin

text \<open>
  Printing a command and parsing it again: the grammar of the shell, as a printer that puts
  parentheses where they are needed, and the proof that the parser of \<open>Shell\<close> inverts it.
  The proof follows the remaining text of the line instead of positions in it.
\<close>

section \<open>The printer\<close>

definition redir_op :: "nat \<Rightarrow> nat \<Rightarrow> string" where
  "redir_op m d = (if d = 0 then ''<'' else if m = O_WRONLY OR O_CREATE OR O_TRUNC then ''>'' else ''>>'')"

definition parens :: "bool \<Rightarrow> string \<Rightarrow> string" where
  "parens b t = (if b then ''('' @ t @ '')'' else t)"

fun pr :: "nat \<Rightarrow> string cmd \<Rightarrow> string" where
  \<comment> \<open>level 0 is a line, 1 a command with \<^verbatim>\<open>&\<close>, 2 a pipeline and 3 a simple command or block\<close>
  "pr l (Exec wl) = concat (map (\<lambda>w. '' '' @ w) wl)"
| "pr l (Redir c f m d) = pr 3 c @ redir_op m d @ f"
| "pr l (Pipe a b) = parens (2 < l) (pr 3 a @ ''|'' @ pr 2 b)"
| "pr l (Back c) = parens (1 < l) (pr 1 c @ ''&'')"
| "pr l (Lst a b) = parens (0 < l) (pr 1 a @ '';'' @ pr 0 b)"

definition word_ok :: "string \<Rightarrow> bool" where
  "word_ok w \<longleftrightarrow> w \<noteq> [] \<and> list_all wordchar w \<and> NUL \<notin> set w"

fun redirs_ok :: "'w cmd \<Rightarrow> bool" where
  \<comment> \<open>the modes and descriptors the shell has redirections for\<close>
  "redirs_ok (Exec wl) \<longleftrightarrow> True"
| "redirs_ok (Redir c f m d) \<longleftrightarrow> redirs_ok c \<and>
    (m = O_RDONLY \<and> d = 0 \<or> (m = O_WRONLY OR O_CREATE OR O_TRUNC \<or> m = O_WRONLY OR O_CREATE) \<and> d = 1)"
| "redirs_ok (Pipe a b) \<longleftrightarrow> redirs_ok a \<and> redirs_ok b"
| "redirs_ok (Lst a b) \<longleftrightarrow> redirs_ok a \<and> redirs_ok b"
| "redirs_ok (Back c) \<longleftrightarrow> redirs_ok c"

definition printable :: "string cmd \<Rightarrow> bool" where
  "printable c \<longleftrightarrow> args_ok c \<and> redirs_ok c \<and> (\<forall>w \<in> set_cmd c. word_ok w)"

section \<open>The remaining text\<close>

definition ws :: "char \<Rightarrow> bool" where "ws c \<longleftrightarrow> c \<in> set whitespace"

abbreviation trim :: "string \<Rightarrow> string" where "trim \<equiv> dropWhile ws"

definition rest :: "string \<Rightarrow> nat \<Rightarrow> string \<Rightarrow> bool" where
  \<comment> \<open>from index \<open>i\<close> on the line reads \<open>t\<close>, up to leading white space\<close>
  "rest s i t \<longleftrightarrow> i \<le> length s \<and> trim (drop i s) = trim t"

lemma drop_skip_ws: "i \<le> length s \<Longrightarrow> drop (skip_ws s i) s = trim (drop i s)"
proof (induction s i rule: skip_ws.induct)
  case (1 s i)
  show ?case
  proof (cases "i < length s \<and> strchr whitespace (s ! i) \<noteq> None")
    case True
    then have "skip_ws s i = skip_ws s (Suc i)" by (subst skip_ws.simps) simp
    moreover have "drop i s = s ! i # drop (Suc i) s" "ws (s ! i)"
      using True by (auto simp: Cons_nth_drop_Suc ws_def strchr_notin)
    ultimately show ?thesis using 1 True by simp
  next
    case False
    then have "skip_ws s i = i" by (subst skip_ws.simps) auto
    moreover have "trim (drop i s) = drop i s"
    proof (cases "i < length s")
      case True
      then have "drop i s = s ! i # drop (Suc i) s" "\<not> ws (s ! i)"
        using False by (auto simp: Cons_nth_drop_Suc ws_def strchr_notin)
      then show ?thesis by simp
    qed simp
    ultimately show ?thesis by simp
  qed
qed

lemma drop_skip_word: "i \<le> length s \<Longrightarrow> drop (skip_word s i) s = dropWhile wordchar (drop i s)"
proof (induction s i rule: skip_word.induct)
  case (1 s i)
  show ?case
  proof (cases "i < length s \<and> wordchar (s ! i)")
    case True
    then have "skip_word s i = skip_word s (Suc i)" using skip_word_wordchar [of s i] by simp
    moreover have "drop i s = s ! i # drop (Suc i) s" using True by (simp add: Cons_nth_drop_Suc)
    ultimately show ?thesis using 1 True by (simp add: wordchar_def)
  next
    case False
    then have "skip_word s i = i" using skip_word_wordchar [of s i] by auto
    moreover have "dropWhile wordchar (drop i s) = drop i s"
    proof (cases "i < length s")
      case True
      then show ?thesis using False by (simp add: Cons_nth_drop_Suc [symmetric])
    qed simp
    ultimately show ?thesis by simp
  qed
qed

lemma trim_trim [simp]: "trim (trim t) = trim t"
  by (induction t) auto

lemma rest_skip: "rest s i t \<Longrightarrow> rest s (skip_ws s i) t \<and> drop (skip_ws s i) s = trim t"
  using drop_skip_ws [of i s] skip_ws_le [of i s] by (auto simp: rest_def)

lemma drop_eq_Cons: "drop q s = c # r \<Longrightarrow> q < length s \<and> s ! q = c \<and> drop (Suc q) s = r"
  by (metis Cons_nth_drop_Suc drop_eq_Nil linorder_not_le list.discI list.inject)

lemma ch_drop: "drop q s = t \<Longrightarrow> NUL \<notin> set s \<Longrightarrow> ch s q = (if t = [] then NUL else hd t)"
  by (cases t) (auto simp: ch_def dest: drop_eq_Cons)

lemma peek_rest:
  assumes "rest s i t" "NUL \<notin> set s"
  obtains j where "peek s i toks = (trim t \<noteq> [] \<and> hd (trim t) \<in> set toks, j)" "rest s j t"
proof -
  note r = rest_skip [OF assms(1)]
  then have c: "ch s (skip_ws s i) = (if trim t = [] then NUL else hd (trim t))" using ch_drop assms(2) by blast
  have "hd (trim t) \<noteq> NUL" if "trim t \<noteq> []"
  proof -
    have "hd (trim t) \<in> set (drop (skip_ws s i) s)" using r that by simp
    then show ?thesis using assms(2) by (metis in_set_dropD)
  qed
  then have "peek s i toks = (trim t \<noteq> [] \<and> hd (trim t) \<in> set toks, skip_ws s i)"
    using c by (auto simp: peek_def Let_def strchr_notin simp del: not_None_eq)
  then show thesis using that r by blast
qed

lemma peek_yes:
  assumes "rest s i t" "NUL \<notin> set s" "trim t = c # r" "c \<in> set toks"
  obtains j where "peek s i toks = (True, j)" "rest s j t"
proof -
  from peek_rest [OF assms(1,2)] obtain j where
    j: "peek s i toks = (trim t \<noteq> [] \<and> hd (trim t) \<in> set toks, j)" "rest s j t" .
  have "trim t \<noteq> [] \<and> hd (trim t) \<in> set toks" using assms(3,4) by simp
  then show thesis using j that by simp
qed

lemma peek_no:
  assumes "rest s i t" "NUL \<notin> set s" "trim t = [] \<or> hd (trim t) \<notin> set toks"
  obtains j where "peek s i toks = (False, j)" "rest s j t"
proof -
  from peek_rest [OF assms(1,2)] obtain j where
    j: "peek s i toks = (trim t \<noteq> [] \<and> hd (trim t) \<in> set toks, j)" "rest s j t" .
  have "\<not> (trim t \<noteq> [] \<and> hd (trim t) \<in> set toks)" using assms(3) by blast
  then show thesis using j that by simp
qed

lemma gettoken_rest:
  assumes "token_at s (skip_ws s i) = (tok, e)" "e \<le> length s" "drop e s = r"
  shows "gettoken s i = (tok, (skip_ws s i, e), skip_ws s e)" "rest s (skip_ws s e) r"
proof -
  show "gettoken s i = (tok, (skip_ws s i, e), skip_ws s e)" using assms(1) by (simp add: gettoken_def)
  have "rest s e r" using assms(2,3) by (simp add: rest_def)
  then show "rest s (skip_ws s e) r" using rest_skip by blast
qed

lemma gettoken_single:
  assumes "rest s i t" "NUL \<notin> set s" "trim t = c # r" "c \<in> set single"
  obtains w j where "gettoken s i = (c, w, j)" "rest s j r"
proof -
  let ?q = "skip_ws s i"
  have d: "drop ?q s = c # r" using rest_skip [OF assms(1)] assms(3) by simp
  note q = drop_eq_Cons [OF d]
  have "ch s ?q = c" using ch_drop [OF d assms(2)] by simp
  moreover have "c \<noteq> NUL" using assms(4) tok_not_NUL(1) by auto
  ultimately have "token_at s ?q = (c, Suc ?q)" using token_at_eqs(2) [of s ?q] assms(4) by simp
  from gettoken_rest [OF this] q show thesis using that by simp
qed

lemma gt_not_single: "CHR ''>'' \<notin> set single" "CHR ''>'' \<noteq> NUL"
  by (simp_all add: single_def NUL_def)

lemma gettoken_gt:
  assumes "rest s i t" "NUL \<notin> set s" "trim t = CHR ''>'' # r" "r = [] \<or> hd r \<noteq> CHR ''>''"
  obtains w j where "gettoken s i = (CHR ''>'', w, j)" "rest s j r"
proof -
  let ?q = "skip_ws s i"
  have d: "drop ?q s = CHR ''>'' # r" using rest_skip [OF assms(1)] assms(3) by simp
  note q = drop_eq_Cons [OF d]
  have c: "ch s ?q = CHR ''>''" using ch_drop [OF d assms(2)] by simp
  have "ch s (Suc ?q) \<noteq> CHR ''>''" using ch_drop [of "Suc ?q" s r] q assms(2,4) gt_not_single(2) by auto
  then have "token_at s ?q = (CHR ''>'', Suc ?q)"
    using token_at_eqs(3) [of s ?q] c gt_not_single by simp
  from gettoken_rest [OF this] q show thesis using that by simp
qed

lemma gettoken_gtgt:
  assumes "rest s i t" "NUL \<notin> set s" "trim t = CHR ''>'' # CHR ''>'' # r"
  obtains w j where "gettoken s i = (CHR ''+'', w, j)" "rest s j r"
proof -
  let ?q = "skip_ws s i"
  have d: "drop ?q s = CHR ''>'' # CHR ''>'' # r" using rest_skip [OF assms(1)] assms(3) by simp
  note q = drop_eq_Cons [OF d]
  then have q': "Suc ?q < length s" "drop (?q + 2) s = r"
    using drop_eq_Cons [of "Suc ?q" s "CHR ''>''" r] by auto
  have "ch s ?q = CHR ''>''" "ch s (Suc ?q) = CHR ''>''" using ch_drop [OF d assms(2)] ch_drop [OF _ assms(2)] q by auto
  then have "token_at s ?q = (CHR ''+'', ?q + 2)"
    using token_at_eqs(3) [of s ?q] gt_not_single by simp
  from gettoken_rest [OF this] q' show thesis using that by simp
qed

lemma wordchar_not: "wordchar c \<Longrightarrow> \<not> ws c \<and> c \<notin> set single \<and> c \<noteq> CHR ''>''"
  by (simp add: wordchar_iff ws_def)

lemma dropWhile_word: "list_all P w \<Longrightarrow> r = [] \<or> \<not> P (hd r) \<Longrightarrow> dropWhile P (w @ r) = r"
  by (induction w) (auto simp: dropWhile_eq_self_iff)

lemma gettoken_word_rest:
  assumes "rest s i t" "NUL \<notin> set s" "trim t = w @ r" "word_ok w" "r = [] \<or> \<not> wordchar (hd r)"
  obtains v j where "gettoken s i = (CHR ''a'', v, j)" "word_of s v = w" "rest s j r"
proof -
  let ?q = "skip_ws s i"
  have d: "drop ?q s = w @ r" using rest_skip [OF assms(1)] assms(3) by simp
  have ql: "?q \<le> length s" using assms(1) skip_ws_le by (simp add: rest_def)
  obtain c w' where w: "w = c # w'" "wordchar c" using assms(4) by (cases w) (auto simp: word_ok_def)
  then have "ch s ?q = c" using ch_drop [OF d assms(2)] by simp
  moreover have "c \<noteq> NUL" using assms(4) w by (auto simp: word_ok_def)
  ultimately have t: "token_at s ?q = (CHR ''a'', skip_word s ?q)"
    using token_at_eqs(4) [of s ?q] wordchar_not [OF w(2)] by simp
  have dr: "drop (skip_word s ?q) s = r"
    using drop_skip_word [OF ql] d assms(4,5) by (simp add: dropWhile_word word_ok_def)
  have le: "skip_word s ?q \<le> length s" using ql skip_word_le by simp
  have "length (w @ r) = length s - ?q" "length r = length s - skip_word s ?q" using d dr by (metis length_drop)+
  then have "skip_word s ?q - ?q = length w" using le ql by simp
  then have "word_of s (?q, skip_word s ?q) = w" using d by (simp add: word_of_def)
  then show thesis using that gettoken_rest [OF t le dr] by blast
qed

lemma gettoken_eos:
  assumes "rest s i t" "NUL \<notin> set s" "trim t = []"
  obtains w j where "gettoken s i = (NUL, w, j)" "rest s j []"
proof -
  let ?q = "skip_ws s i"
  have d: "drop ?q s = []" using rest_skip [OF assms(1)] assms(3) by simp
  have "token_at s ?q = (NUL, ?q)" using ch_drop [OF d assms(2)] token_at_eqs(1) by simp
  from gettoken_rest [OF this _ d] show thesis using that assms(1) skip_ws_le by (simp add: rest_def)
qed

section \<open>Redirections and arguments\<close>

type_synonym redir = "string \<times> nat \<times> nat"

definition wrap :: "redir list \<Rightarrow> string cmd \<Rightarrow> string cmd" where
  "wrap rs c = fold (\<lambda>(f, m, d) c. Redir c f m d) rs c"

definition pr_redirs :: "redir list \<Rightarrow> string" where
  "pr_redirs rs = concat (map (\<lambda>(f, m, d). redir_op m d @ f) rs)"

definition redir_ok :: "redir \<Rightarrow> bool" where
  "redir_ok r \<longleftrightarrow> (case r of (f, m, d) \<Rightarrow> word_ok f \<and>
    (m = O_RDONLY \<and> d = 0 \<or> (m = O_WRONLY OR O_CREATE OR O_TRUNC \<or> m = O_WRONLY OR O_CREATE) \<and> d = 1))"

definition ends_word :: "string \<Rightarrow> bool" where
  "ends_word v \<longleftrightarrow> v = [] \<or> \<not> wordchar (hd v)"

definition no_redir :: "string \<Rightarrow> bool" where
  "no_redir v \<longleftrightarrow> trim v = [] \<or> hd (trim v) \<notin> set ''<>''"

lemma modes_differ: "O_WRONLY OR O_CREATE OR O_TRUNC \<noteq> O_WRONLY OR O_CREATE"
  by (simp add: O_WRONLY_def O_CREATE_def O_TRUNC_def)

lemma op_chars: "\<not> ws CHR ''<''" "\<not> ws CHR ''>''" "\<not> wordchar CHR ''<''" "\<not> wordchar CHR ''>''" "CHR ''<'' \<in> set single"
  by (simp_all add: ws_def wordchar_iff whitespace_def single_def)

lemma trim_word: "word_ok w \<Longrightarrow> trim (w @ r) = w @ r"
  by (cases w) (auto simp: word_ok_def dest: wordchar_not)

lemma redir_token:
  assumes "redir_ok (f, m, d)" "rest s i (redir_op m d @ f @ r)" "NUL \<notin> set s"
  obtains tok w j where "gettoken s i = (tok, w, j)" "rest s j (f @ r)"
    "redir_switch tok = (\<lambda>(c :: span cmd) v. Redir c v m d)"
proof -
  have f: "f @ r = [] \<or> hd (f @ r) \<noteq> CHR ''>''"
    using assms(1) op_chars(4) by (cases f) (auto simp: redir_ok_def word_ok_def)
  consider (rd) "m = O_RDONLY" "d = 0" | (tr) "m = O_WRONLY OR O_CREATE OR O_TRUNC" "d = 1"
    | (ap) "m = O_WRONLY OR O_CREATE" "d = 1" using assms(1) by (auto simp: redir_ok_def)
  then show thesis
  proof cases
    case rd
    then have "trim (redir_op m d @ f @ r) = CHR ''<'' # f @ r" by (simp add: redir_op_def op_chars)
    from gettoken_single [OF assms(2,3) this op_chars(5)] obtain w j where g: "gettoken s i = (CHR ''<'', w, j)" "rest s j (f @ r)" .
    then show ?thesis using rd by (intro that [of "CHR ''<''" w j]) (simp_all add: redir_switch_def fun_eq_iff)
  next
    case tr
    then have "trim (redir_op m d @ f @ r) = CHR ''>'' # f @ r" by (simp add: redir_op_def op_chars)
    from gettoken_gt [OF assms(2,3) this f] obtain w j where g: "gettoken s i = (CHR ''>'', w, j)" "rest s j (f @ r)" .
    then show ?thesis using tr by (intro that [of "CHR ''>''" w j]) (simp_all add: redir_switch_def fun_eq_iff)
  next
    case ap
    then have "trim (redir_op m d @ f @ r) = CHR ''>'' # CHR ''>'' # f @ r"
      using modes_differ by (simp add: redir_op_def op_chars)
    from gettoken_gtgt [OF assms(2,3) this] obtain w j where g: "gettoken s i = (CHR ''+'', w, j)" "rest s j (f @ r)" .
    then show ?thesis using ap by (intro that [of "CHR ''+''" w j]) (simp_all add: redir_switch_def fun_eq_iff)
  qed
qed

lemma redir_op_hd: "redir_op m d \<noteq> []" "hd (redir_op m d) \<in> set ''<>''"
  by (simp_all add: redir_op_def)

lemma lt_gt: "c \<in> set ''<>'' \<Longrightarrow> \<not> ws c \<and> \<not> wordchar c"
  using op_chars by auto

lemma trim_Cons: "\<not> ws (hd t) \<Longrightarrow> trim t = t"
  by (cases t) auto

lemma ends_word_redirs: "ends_word v \<Longrightarrow> ends_word (pr_redirs rs @ v)"
  using redir_op_hd lt_gt by (cases rs) (auto simp: ends_word_def pr_redirs_def hd_append split: prod.splits)

lemma parseredirs_rest:
  "NUL \<notin> set s \<Longrightarrow> rest s i (pr_redirs rs @ v) \<Longrightarrow> list_all redir_ok rs \<Longrightarrow> no_redir v \<Longrightarrow> (rs \<noteq> [] \<longrightarrow> ends_word v) \<Longrightarrow>
    \<exists>c' j. parseredirs s c i = Parsed c' j \<and> map_cmd (word_of s) c' = wrap rs (map_cmd (word_of s) c)
      \<and> rest s j v \<and> leaf_args c' = leaf_args c"
proof (induction rs arbitrary: c i)
  case Nil
  then have "rest s i v" by (simp add: pr_redirs_def)
  from peek_no [OF this Nil(1) Nil(4) [unfolded no_redir_def]] obtain j where "peek s i ''<>'' = (False, j)" "rest s j v" .
  then show ?case by (subst parseredirs_step) (simp add: wrap_def)
next
  case (Cons r rs)
  obtain f m d where r: "r = (f, m, d)" using prod_cases3 by blast
  let ?R = "pr_redirs rs @ v"
  have t: "rest s i (redir_op m d @ f @ ?R)" using Cons.prems(2) by (simp add: pr_redirs_def r)
  have ok: "redir_ok (f, m, d)" using Cons.prems(3) by (simp add: r)
  obtain c0 o' where op: "redir_op m d = c0 # o'" "c0 \<in> set ''<>''" using redir_op_hd [of m d] by (cases "redir_op m d") auto
  then have "trim (redir_op m d @ f @ ?R) = c0 # o' @ f @ ?R" using lt_gt by simp
  from peek_yes [OF t Cons.prems(1) this op(2)]
  obtain i' where p: "peek s i ''<>'' = (True, i')" "rest s i' (redir_op m d @ f @ ?R)" .
  obtain tok w j where g: "gettoken s i' = (tok, w, j)" "rest s j (f @ ?R)"
    and tk: "redir_switch tok = (\<lambda>(c :: span cmd) v. Redir c v m d)"
    by (rule redir_token [OF ok p(2) Cons.prems(1)])
  have wf: "word_ok f" using ok by (simp add: redir_ok_def)
  have "?R = [] \<or> \<not> wordchar (hd ?R)" using ends_word_redirs [of v rs] Cons.prems(5) by (auto simp: ends_word_def)
  then obtain u k where k: "gettoken s j = (CHR ''a'', u, k)" "word_of s u = f" "rest s k ?R"
    by (rule gettoken_word_rest [OF g(2) Cons.prems(1) trim_word [OF wf] wf])
  have "parseredirs s c i = parseredirs s (Redir c u m d) k"
    using p(1) g(1) k(1) by (subst parseredirs_step) (simp add: tk)
  moreover have "\<exists>c' l. parseredirs s (Redir c u m d) k = Parsed c' l
      \<and> map_cmd (word_of s) c' = wrap rs (map_cmd (word_of s) (Redir c u m d)) \<and> rest s l v
      \<and> leaf_args c' = leaf_args (Redir c u m d)"
    using Cons.prems k(3) by (intro Cons.IH) auto
  ultimately show ?case using k(2) by (simp add: wrap_def r)
qed

definition closes :: "string \<Rightarrow> bool" where
  \<comment> \<open>what can follow a simple command\<close>
  "closes v \<longleftrightarrow> v = [] \<or> hd v \<in> set ''|)&;''"

lemma closer_chars: "c \<in> set ''|)&;'' \<Longrightarrow> \<not> ws c \<and> \<not> wordchar c \<and> c \<noteq> CHR ''<'' \<and> c \<noteq> CHR ''>'' \<and> c \<noteq> CHR ''('' \<and> c \<in> set single"
  by (auto simp: ws_def wordchar_iff whitespace_def single_def)

lemma closes_trim: "closes v \<Longrightarrow> trim v = v" "closes v \<Longrightarrow> ends_word v" "closes v \<Longrightarrow> no_redir v"
proof -
  assume v: "closes v"
  show t: "trim v = v" using v closer_chars [of "hd v"] by (cases v) (auto simp: closes_def)
  show "ends_word v" using v closer_chars by (auto simp: closes_def ends_word_def)
  show "no_redir v" using v t closer_chars [of "hd v"] by (auto simp: closes_def no_redir_def)
qed

lemma map_add_arg: "map_cmd f (add_arg w c) = add_arg (f w) (map_cmd f c)"
  by (induction c) auto

lemma parse_args_stop:
  assumes "NUL \<notin> set s" "rest s i v" "closes v"
  shows "\<exists>j. parse_args (Suc k) s c i = Parsed c j \<and> rest s j v"
proof (cases v)
  case Nil
  from peek_no [OF assms(2,1)] obtain j where p: "peek s i ''|)&;'' = (False, j)" "rest s j v" using Nil by auto
  from gettoken_eos [OF p(2) assms(1)] obtain w k where "gettoken s j = (NUL, w, k)" "rest s k []" using Nil by auto
  then show ?thesis using p(1) Nil by simp
next
  case (Cons a r)
  have "a \<in> set ''|)&;''" "trim v = a # r" using assms(3) Cons closes_trim(1) [OF assms(3)] by (auto simp: closes_def)
  from peek_yes [OF assms(2,1) this(2,1)] obtain j where "peek s i ''|)&;'' = (True, j)" "rest s j v" .
  then show ?thesis by simp
qed

abbreviation pr_args :: "string list \<Rightarrow> string" where
  "pr_args wl \<equiv> concat (map (\<lambda>w. '' '' @ w) wl)"

lemma space: "ws CHR '' ''" "\<not> wordchar CHR '' ''"
  by (simp_all add: ws_def wordchar_iff whitespace_def)

lemma word_hd: "word_ok w \<Longrightarrow> w \<noteq> [] \<and> wordchar (hd w)"
  by (cases w) (auto simp: word_ok_def)

lemma trim_args: "word_ok w \<Longrightarrow> trim ('' '' @ w @ r) = w @ r"
  using trim_word space by simp

lemma parse_arg_step:
  assumes "NUL \<notin> set s" "rest s i ('' '' @ w @ r)" "word_ok w" "ends_word r" "k \<noteq> 0"
  obtains u j where "parse_args (Suc k) s c i = pbind (parseredirs s (add_arg u c) j) (\<lambda>c i. parse_args k s c i)"
    "word_of s u = w" "rest s j r"
proof -
  have t: "trim ('' '' @ w @ r) = w @ r" using trim_args assms(3) by blast
  have "hd (w @ r) \<notin> set ''|)&;''" using word_hd [OF assms(3)] closer_chars by (auto simp: hd_append)
  then have "trim ('' '' @ w @ r) = [] \<or> hd (trim ('' '' @ w @ r)) \<notin> set ''|)&;''" unfolding t by (rule disjI2)
  from peek_no [OF assms(2,1) this] obtain i' where p: "peek s i ''|)&;'' = (False, i')" "rest s i' ('' '' @ w @ r)" .
  from gettoken_word_rest [OF p(2) assms(1) t assms(3) assms(4) [unfolded ends_word_def]]
  obtain u j where g: "gettoken s i' = (CHR ''a'', u, j)" "word_of s u = w" "rest s j r" .
  then show thesis using p(1) assms(5) tok_not_NUL(2) by (intro that [of u j]) simp_all
qed

lemma parse_args_rest:
  "NUL \<notin> set s \<Longrightarrow> rest s i (pr_args wl @ pr_redirs rs @ v) \<Longrightarrow> list_all word_ok wl \<Longrightarrow> list_all redir_ok rs \<Longrightarrow> closes v
    \<Longrightarrow> wl \<noteq> [] \<Longrightarrow> length wl < k \<Longrightarrow>
    \<exists>c' j. parse_args k s c i = Parsed c' j \<and> map_cmd (word_of s) c' = wrap rs (fold add_arg wl (map_cmd (word_of s) c))
      \<and> rest s j v"
proof (induction wl arbitrary: c i k)
  case (Cons w wl)
  let ?R = "pr_args wl @ pr_redirs rs @ v"
  obtain k' where k: "k = Suc k'" "k' \<noteq> 0" "length wl < k'" using Cons.prems(7) by (cases k) auto
  have e: "ends_word ?R"
    using ends_word_redirs closes_trim(2) [OF Cons.prems(5)] space by (cases wl) (auto simp: ends_word_def)
  have r: "rest s i ('' '' @ w @ ?R)" and w: "word_ok w" using Cons.prems(2,3) by simp_all
  from parse_arg_step [OF Cons.prems(1) r w e k(2)] obtain u j where
    u: "parse_args (Suc k') s c i = pbind (parseredirs s (add_arg u c) j) (\<lambda>c i. parse_args k' s c i)"
    "word_of s u = w" "rest s j ?R" .
  show ?case
  proof (cases "wl = []")
    case True
    have "\<exists>c' l. parseredirs s (add_arg u c) j = Parsed c' l \<and> map_cmd (word_of s) c' = wrap rs (map_cmd (word_of s) (add_arg u c))
        \<and> rest s l v \<and> leaf_args c' = leaf_args (add_arg u c)"
      using u(3) True Cons.prems closes_trim(2,3) [OF Cons.prems(5)] by (intro parseredirs_rest) auto
    then obtain c' l where c': "parseredirs s (add_arg u c) j = Parsed c' l" "rest s l v"
      "map_cmd (word_of s) c' = wrap rs (add_arg w (map_cmd (word_of s) c))"
      using u(2) by (auto simp: map_add_arg)
    obtain k'' where "k' = Suc k''" using k(2) by (cases k') auto
    then show ?thesis using parse_args_stop [OF Cons.prems(1) c'(2) Cons.prems(5), of k'' c'] u(1) c' k(1) True by auto
  next
    case False
    then obtain w2 wl' where wl: "wl = w2 # wl'" by (cases wl) auto
    then have "trim ?R = w2 @ pr_args wl' @ pr_redirs rs @ v" "word_ok w2"
      using Cons.prems(3) trim_args [of w2 "pr_args wl' @ pr_redirs rs @ v"] by simp_all
    then have "no_redir ?R" using word_hd [of w2] op_chars(3,4) by (auto simp: no_redir_def hd_append)
    moreover have "rest s j (pr_redirs [] @ ?R)" using u(3) by (simp add: pr_redirs_def)
    ultimately have "\<exists>c' l. parseredirs s (add_arg u c) j = Parsed c' l \<and> map_cmd (word_of s) c' = wrap [] (map_cmd (word_of s) (add_arg u c))
        \<and> rest s l ?R \<and> leaf_args c' = leaf_args (add_arg u c)"
      using Cons.prems(1) by (intro parseredirs_rest) simp_all
    then obtain c' l where c': "parseredirs s (add_arg u c) j = Parsed c' l" "rest s l ?R"
      "map_cmd (word_of s) c' = add_arg w (map_cmd (word_of s) c)"
      using u(2) by (auto simp: map_add_arg wrap_def)
    have "\<exists>c2 l2. parse_args k' s c' l = Parsed c2 l2
        \<and> map_cmd (word_of s) c2 = wrap rs (fold add_arg wl (map_cmd (word_of s) c')) \<and> rest s l2 v"
      using Cons.prems c'(2) False k(3) by (intro Cons.IH) auto
    then show ?thesis using u(1) c' k(1) by auto
  qed
qed simp

section \<open>Blocks, pipelines and lines\<close>

definition yields :: "string \<Rightarrow> span cmd pres \<Rightarrow> string cmd \<Rightarrow> string \<Rightarrow> bool" where
  \<comment> \<open>unless the fuel was too small, the command \<open>c\<close> was parsed and \<open>v\<close> is left\<close>
  "yields s r c v \<longleftrightarrow> r = OutOfFuel \<or> (\<exists>c' j. r = Parsed c' j \<and> map_cmd (word_of s) c' = c \<and> rest s j v)"

lemma yields_fuel [simp]: "yields s OutOfFuel c v"
  by (simp add: yields_def)

lemma yields_pbind:
  assumes "yields s m c t" "\<And>c' j. m = Parsed c' j \<Longrightarrow> map_cmd (word_of s) c' = c \<Longrightarrow> rest s j t \<Longrightarrow> yields s (f c' j) d v"
  shows "yields s (pbind m f) d v"
proof (cases m)
  case (Parsed c' j)
  then show ?thesis using assms(2) [OF Parsed] assms(1) by (simp add: yields_def)
qed (use assms(1) in \<open>simp_all add: yields_def\<close>)

lemma fold_add_arg: "fold add_arg wl (Exec a) = Exec (a @ wl)"
  by (induction wl arbitrary: a) simp_all

lemma args_hd: "list_all word_ok wl \<Longrightarrow> wl \<noteq> [] \<Longrightarrow> trim (pr_args wl @ r) \<noteq> [] \<and> wordchar (hd (trim (pr_args wl @ r)))"
proof (cases wl)
  case (Cons w wl')
  assume "list_all word_ok wl"
  then have w: "word_ok w" using Cons by simp
  then have "trim (pr_args wl @ r) = w @ pr_args wl' @ r" using Cons trim_args [OF w, of "pr_args wl' @ r"] by simp
  then show ?thesis using word_hd [OF w] by simp
qed simp

lemma args_no_redir: "list_all word_ok wl \<Longrightarrow> wl \<noteq> [] \<Longrightarrow> no_redir (pr_args wl @ r)"
  using args_hd [of wl r] op_chars(3,4) by (auto simp: no_redir_def)

lemma redirs_hd: "rs \<noteq> [] \<Longrightarrow> pr_redirs rs \<noteq> [] \<and> hd (pr_redirs rs) \<in> set ''<>''"
proof (cases rs)
  case (Cons r rs')
  obtain f m d where r: "r = (f, m, d)" using prod_cases3 by blast
  obtain c t where "redir_op m d = c # t" "c \<in> set ''<>''" using redir_op_hd [of m d] by (cases "redir_op m d") auto
  then show ?thesis using Cons r by (simp add: pr_redirs_def)
qed simp

lemma args_start:
  assumes "list_all word_ok wl" "closes v"
  shows "trim (pr_args wl @ pr_redirs rs @ v) = [] \<or> hd (trim (pr_args wl @ pr_redirs rs @ v)) \<notin> set ''(''"
proof (cases "wl = []")
  case False
  have "\<not> wordchar CHR ''(''" by (simp add: wordchar_iff single_def)
  then show ?thesis using args_hd [OF assms(1) False, of "pr_redirs rs @ v"] by auto
next
  case wl: True
  show ?thesis
  proof (cases "rs = []")
    case True
    then show ?thesis using wl closes_trim(1) [OF assms(2)] assms(2) closer_chars [of "hd v"]
      by (auto simp: pr_redirs_def closes_def)
  next
    case False
    then obtain c t where "pr_redirs rs = c # t" "c \<in> set ''<>''" using redirs_hd [OF False] by (cases "pr_redirs rs") auto
    then show ?thesis using wl lt_gt [of c] by auto
  qed
qed

lemma parseexec_simple:
  assumes "NUL \<notin> set s" "rest s i (pr_args wl @ pr_redirs rs @ v)" "list_all word_ok wl" "list_all redir_ok rs" "closes v"
    "length wl < MAXARGS"
  shows "yields s (parseexec n s i) (wrap rs (Exec wl)) v"
proof (cases n)
  case (Suc m)
  let ?t = "pr_args wl @ pr_redirs rs @ v"
  note nr = args_start [OF assms(3,5), of rs]
  note no = args_no_redir [OF assms(3), of "pr_redirs rs @ v"]
  from peek_no [OF assms(2,1) nr] obtain j where p: "peek s i ''('' = (False, j)" "rest s j ?t" .
  have "\<exists>c' k. pbind (parseredirs s (Exec []) j) (\<lambda>c i. parse_args MAXARGS s c i) = Parsed c' k
      \<and> map_cmd (word_of s) c' = wrap rs (Exec wl) \<and> rest s k v"
  proof (cases "wl = []")
    case True
    have "\<exists>c' k. parseredirs s (Exec []) j = Parsed c' k \<and> map_cmd (word_of s) c' = wrap rs (map_cmd (word_of s) (Exec []))
        \<and> rest s k v \<and> leaf_args c' = leaf_args (Exec [] :: span cmd)"
      using assms p(2) True closes_trim(2,3) [OF assms(5)] by (intro parseredirs_rest) auto
    then obtain c' k where "parseredirs s (Exec []) j = Parsed c' k" "map_cmd (word_of s) c' = wrap rs (Exec [])" "rest s k v" by auto
    then show ?thesis using parse_args_stop [OF assms(1) _ assms(5), of k 9 c'] True by (auto simp: MAXARGS_def)
  next
    case False
    have "\<exists>c' k. parseredirs s (Exec []) j = Parsed c' k \<and> map_cmd (word_of s) c' = wrap [] (map_cmd (word_of s) (Exec []))
        \<and> rest s k ?t \<and> leaf_args c' = leaf_args (Exec [] :: span cmd)"
      using assms p(2) no [OF False] by (intro parseredirs_rest) (auto simp: pr_redirs_def)
    then obtain c' k where c': "parseredirs s (Exec []) j = Parsed c' k" "map_cmd (word_of s) c' = Exec []" "rest s k ?t"
      by (auto simp: wrap_def)
    then show ?thesis using parse_args_rest [OF assms(1) c'(3) assms(3-5) False assms(6), of c'] by (auto simp: fold_add_arg)
  qed
  then show ?thesis using p(1) Suc by (auto simp: yields_def)
qed simp

text \<open>One symbol of the line, seen by \<^verbatim>\<open>peek\<close> and taken by \<^verbatim>\<open>gettoken\<close>.\<close>

lemma symbol_step:
  assumes "rest s i (c # t)" "NUL \<notin> set s" "c \<in> set ''|()&;''" "c \<in> set toks"
  obtains j tok w k where "peek s i toks = (True, j)" "gettoken s j = (tok, w, k)" "rest s k t" "rest s j (c # t)"
proof -
  have c: "\<not> ws c" "c \<in> set single" using assms(3) by (auto simp: ws_def whitespace_def single_def)
  then have t: "trim (c # t) = c # t" by simp
  from peek_yes [OF assms(1,2) t assms(4)] obtain j where p: "peek s i toks = (True, j)" "rest s j (c # t)" .
  from gettoken_single [OF p(2) assms(2) t c(2)] obtain w k where "gettoken s j = (c, w, k)" "rest s k t" .
  then show thesis using that p by blast
qed

lemma parseexec_block:
  assumes "NUL \<notin> set s" "rest s i (''('' @ t @ '')'' @ pr_redirs rs @ v)" "list_all redir_ok rs" "closes v"
    "\<And>n j. rest s j (t @ '')'' @ pr_redirs rs @ v) \<Longrightarrow> yields s (parseline n s j) c ('')'' @ pr_redirs rs @ v)"
  shows "yields s (parseexec n s i) (wrap rs c) v"
proof (cases "n = 0 \<or> n = 1")
  case True
  have "rest s i (CHR ''('' # t @ '')'' @ pr_redirs rs @ v)" using assms(2) by simp
  then obtain j where "peek s i ''('' = (True, j)" by (rule symbol_step [where toks = "''(''"]) (use assms(1) in auto)
  then show ?thesis using True by auto
next
  case False
  then obtain m where n: "n = Suc (Suc m)" by (metis One_nat_def not0_implies_Suc)
  have r: "rest s i (CHR ''('' # t @ '')'' @ pr_redirs rs @ v)" using assms(2) by simp
  then obtain j where j: "peek s i ''('' = (True, j)" "rest s j (CHR ''('' # t @ '')'' @ pr_redirs rs @ v)"
    by (rule symbol_step [where toks = "''(''"]) (use assms(1) in auto)
  obtain k tok w l where k: "peek s j ''('' = (True, k)" "gettoken s k = (tok, w, l)" "rest s l (t @ '')'' @ pr_redirs rs @ v)"
    by (rule symbol_step [where toks = "''(''", OF j(2) assms(1)]) auto
  have "yields s (pbind (parseline m s l) (\<lambda>cmd i. let (cl, i) = peek s i '')'' in
      if \<not> cl then Syntax ''syntax - missing )'' else let (_, _, j) = gettoken s i in parseredirs s cmd j)) (wrap rs c) v"
  proof (rule yields_pbind [OF assms(5) [OF k(3)]])
    fix c' a assume c': "map_cmd (word_of s) c' = c" "rest s a ('')'' @ pr_redirs rs @ v)"
    then have "rest s a (CHR '')'' # pr_redirs rs @ v)" by simp
    then obtain b tok' w' d where b: "peek s a '')'' = (True, b)" "gettoken s b = (tok', w', d)" "rest s d (pr_redirs rs @ v)"
      by (rule symbol_step [where toks = "'')''"]) (use assms(1) in auto)
    from parseredirs_rest [OF assms(1) b(3) assms(3) closes_trim(3) [OF assms(4)], of c'] closes_trim(2) [OF assms(4)]
    show "yields s (let (cl, i) = peek s a '')'' in
        if \<not> cl then Syntax ''syntax - missing )'' else let (_, _, j) = gettoken s i in parseredirs s c' j) (wrap rs c) v"
      using b c'(1) by (auto simp: yields_def)
  qed
  then show ?thesis using n j(1) k by simp
qed

lemma parsepipe_one:
  assumes "NUL \<notin> set s" "\<And>n. yields s (parseexec n s i) c v" "closes v" "v = [] \<or> hd v \<noteq> CHR ''|''"
  shows "yields s (parsepipe n s i) c v"
proof (cases n)
  case (Suc m)
  have "yields s (pbind (parseexec m s i) (\<lambda>cmd i. let (bar, i) = peek s i ''|'' in
      if bar then let (_, _, j) = gettoken s i in pbind (parsepipe m s j) (\<lambda>right k. Parsed (Pipe cmd right) k) else Parsed cmd i)) c v"
  proof (rule yields_pbind [OF assms(2)])
    fix c' j assume c': "map_cmd (word_of s) c' = c" "rest s j v"
    have "trim v = [] \<or> hd (trim v) \<notin> set ''|''" using assms(4) closes_trim(1) [OF assms(3)] by auto
    from peek_no [OF c'(2) assms(1) this] obtain k where "peek s j ''|'' = (False, k)" "rest s k v" .
    then show "yields s (let (bar, i) = peek s j ''|'' in
        if bar then let (_, _, j) = gettoken s i in pbind (parsepipe m s j) (\<lambda>right k. Parsed (Pipe c' right) k) else Parsed c' i) c v"
      using c'(1) by (simp add: yields_def)
  qed
  then show ?thesis using Suc by simp
qed simp

lemma parsepipe_two:
  assumes "NUL \<notin> set s" "\<And>n. yields s (parseexec n s i) a (''|'' @ t)"
    "\<And>n j. rest s j t \<Longrightarrow> yields s (parsepipe n s j) b v"
  shows "yields s (parsepipe n s i) (Pipe a b) v"
proof (cases n)
  case (Suc m)
  have "yields s (pbind (parseexec m s i) (\<lambda>cmd i. let (bar, i) = peek s i ''|'' in
      if bar then let (_, _, j) = gettoken s i in pbind (parsepipe m s j) (\<lambda>right k. Parsed (Pipe cmd right) k) else Parsed cmd i))
      (Pipe a b) v"
  proof (rule yields_pbind [OF assms(2)])
    fix c' j assume c': "map_cmd (word_of s) c' = a" "rest s j (''|'' @ t)"
    then have "rest s j (CHR ''|'' # t)" by simp
    then obtain k tok w l where k: "peek s j ''|'' = (True, k)" "gettoken s k = (tok, w, l)" "rest s l t"
      by (rule symbol_step [where toks = "''|''"]) (use assms(1) in auto)
    have "yields s (pbind (parsepipe m s l) (\<lambda>right k. Parsed (Pipe c' right) k)) (Pipe a b) v"
      by (rule yields_pbind [OF assms(3) [OF k(3)]]) (use c'(1) in \<open>auto simp: yields_def\<close>)
    then show "yields s (let (bar, i) = peek s j ''|'' in
        if bar then let (_, _, j) = gettoken s i in pbind (parsepipe m s j) (\<lambda>right k. Parsed (Pipe c' right) k) else Parsed c' i)
        (Pipe a b) v"
      using k by simp
  qed
  then show ?thesis using Suc by simp
qed simp

lemma parse_back_rest:
  assumes "NUL \<notin> set s" "closes v" "v = [] \<or> hd v \<noteq> CHR ''&''"
  shows "rest s i (replicate k CHR ''&'' @ v) \<Longrightarrow>
    \<exists>c' j. parse_back s c i = (c', j) \<and> map_cmd (word_of s) c' = (Back ^^ k) (map_cmd (word_of s) c) \<and> rest s j v"
proof (induction k arbitrary: c i)
  case 0
  have "trim v = [] \<or> hd (trim v) \<notin> set ''&''" using assms(3) closes_trim(1) [OF assms(2)] by auto
  moreover have "rest s i v" using 0 by simp
  ultimately obtain j where "peek s i ''&'' = (False, j)" "rest s j v" using peek_no [OF _ assms(1)] by blast
  then show ?case by (subst parse_back_step) simp
next
  case (Suc k)
  then have "rest s i (CHR ''&'' # replicate k CHR ''&'' @ v)" by simp
  then obtain j tok w l where j: "peek s i ''&'' = (True, j)" "gettoken s j = (tok, w, l)" "rest s l (replicate k CHR ''&'' @ v)"
    by (rule symbol_step [where toks = "''&''"]) (use assms(1) in auto)
  have "parse_back s c i = parse_back s (Back c) l" using j by (subst parse_back_step) simp
  then show ?case using Suc.IH [OF j(3), of "Back c"] by (simp add: funpow_swap1)
qed

lemma parseline_step:
  assumes "NUL \<notin> set s" "\<And>n. yields s (parsepipe n s i) b (replicate k CHR ''&'' @ v)" "closes v" "v = [] \<or> hd v \<noteq> CHR ''&''"
    "\<And>m c' j. n = Suc m \<Longrightarrow> map_cmd (word_of s) c' = (Back ^^ k) b \<Longrightarrow> rest s j v \<Longrightarrow>
      yields s (let (semi, i) = peek s j '';'' in
        if semi then let (_, _, j) = gettoken s i in pbind (parseline m s j) (\<lambda>right k. Parsed (Lst c' right) k)
        else Parsed c' i) d w"
  shows "yields s (parseline n s i) d w"
proof (cases n)
  case (Suc m)
  have "yields s (pbind (parsepipe m s i) (\<lambda>cmd i. let (cmd, i) = parse_back s cmd i; (semi, i) = peek s i '';'' in
      if semi then let (_, _, j) = gettoken s i in pbind (parseline m s j) (\<lambda>right k. Parsed (Lst cmd right) k)
      else Parsed cmd i)) d w"
  proof (rule yields_pbind [OF assms(2)])
    fix c' j assume c': "map_cmd (word_of s) c' = b" "rest s j (replicate k CHR ''&'' @ v)"
    from parse_back_rest [OF assms(1,3,4) c'(2), of c'] c'(1)
    obtain c2 l where "parse_back s c' j = (c2, l)" "map_cmd (word_of s) c2 = (Back ^^ k) b" "rest s l v" by auto
    then show "yields s (let (cmd, i) = parse_back s c' j; (semi, i) = peek s i '';'' in
        if semi then let (_, _, j) = gettoken s i in pbind (parseline m s j) (\<lambda>right k. Parsed (Lst cmd right) k)
        else Parsed cmd i) d w"
      using assms(5) [OF Suc] by simp
  qed
  then show ?thesis using Suc by simp
qed simp

lemma parseline_one:
  assumes "NUL \<notin> set s" "\<And>n. yields s (parsepipe n s i) b (replicate k CHR ''&'' @ v)" "v = [] \<or> hd v = CHR '')''"
  shows "yields s (parseline n s i) ((Back ^^ k) b) v"
proof (rule parseline_step [OF assms(1,2)])
  show v: "closes v" "v = [] \<or> hd v \<noteq> CHR ''&''" using assms(3) by (auto simp: closes_def)
  fix m c' j assume c': "map_cmd (word_of s) c' = (Back ^^ k) b" "rest s j v"
  have "trim v = [] \<or> hd (trim v) \<notin> set '';''" using assms(3) closes_trim(1) [OF v(1)] by auto
  from peek_no [OF c'(2) assms(1) this] obtain l where "peek s j '';'' = (False, l)" "rest s l v" .
  then show "yields s (let (semi, i) = peek s j '';'' in
      if semi then let (_, _, j) = gettoken s i in pbind (parseline m s j) (\<lambda>right k. Parsed (Lst c' right) k)
      else Parsed c' i) ((Back ^^ k) b) v"
    using c'(1) by (simp add: yields_def)
qed

lemma parseline_two:
  assumes "NUL \<notin> set s" "\<And>n. yields s (parsepipe n s i) b (replicate k CHR ''&'' @ '';'' @ t)"
    "\<And>n j. rest s j t \<Longrightarrow> yields s (parseline n s j) d v"
  shows "yields s (parseline n s i) (Lst ((Back ^^ k) b) d) v"
proof (rule parseline_step [OF assms(1,2)])
  fix m c' j assume c': "map_cmd (word_of s) c' = (Back ^^ k) b" "rest s j ('';'' @ t)"
  then have "rest s j (CHR '';'' # t)" by simp
  then obtain l tok w o' where l: "peek s j '';'' = (True, l)" "gettoken s l = (tok, w, o')" "rest s o' t"
    by (rule symbol_step [where toks = "'';''"]) (use assms(1) in auto)
  have "yields s (pbind (parseline m s o') (\<lambda>right k. Parsed (Lst c' right) k)) (Lst ((Back ^^ k) b) d) v"
    by (rule yields_pbind [OF assms(3) [OF l(3)]]) (use c'(1) in \<open>auto simp: yields_def\<close>)
  then show "yields s (let (semi, i) = peek s j '';'' in
      if semi then let (_, _, j) = gettoken s i in pbind (parseline m s j) (\<lambda>right k. Parsed (Lst c' right) k)
      else Parsed c' i) (Lst ((Back ^^ k) b) d) v"
    using l by simp
qed (auto simp: closes_def)

section \<open>The round trip\<close>

fun unredir :: "string cmd \<Rightarrow> string cmd \<times> redir list" where
  "unredir (Redir c f m d) = (case unredir c of (b, rs) \<Rightarrow> (b, rs @ [(f, m, d)]))"
| "unredir c = (c, [])"

fun is_redir :: "'w cmd \<Rightarrow> bool" where
  "is_redir (Redir c f m d) = True"
| "is_redir c = False"

lemma printable_simps [simp]:
  "printable (Exec wl) \<longleftrightarrow> length wl < MAXARGS \<and> list_all word_ok wl"
  "printable (Redir c f m d) \<longleftrightarrow> printable c \<and> redir_ok (f, m, d)"
  "printable (Pipe a b) \<longleftrightarrow> printable a \<and> printable b"
  "printable (Lst a b) \<longleftrightarrow> printable a \<and> printable b"
  "printable (Back c) \<longleftrightarrow> printable c"
  by (auto simp: printable_def redir_ok_def list_all_iff)

lemma unredir_spec:
  "unredir c = (b, rs) \<Longrightarrow> c = wrap rs b \<and> \<not> is_redir b \<and> pr 3 c = pr 3 b @ pr_redirs rs
    \<and> (printable c \<longrightarrow> printable b \<and> list_all redir_ok rs) \<and> size b + length rs \<le> size c"
proof (induction c arbitrary: b rs)
  case (Redir c f m d)
  then obtain rs' where "unredir c = (b, rs')" "rs = rs' @ [(f, m, d)]" by (auto split: prod.splits)
  then show ?case using Redir.IH [of b rs'] by (auto simp: wrap_def pr_redirs_def)
qed (auto simp: wrap_def pr_redirs_def)

fun unback :: "string cmd \<Rightarrow> string cmd \<times> nat" where
  "unback (Back c) = (case unback c of (b, k) \<Rightarrow> (b, Suc k))"
| "unback c = (c, 0)"

lemma unback_spec:
  "unback c = (b, k) \<Longrightarrow> c = (Back ^^ k) b \<and> pr 1 c = pr 2 b @ replicate k CHR ''&'' \<and> (printable c \<longrightarrow> printable b)
    \<and> size b + k \<le> size c"
proof (induction c arbitrary: b k)
  case (Back c)
  then obtain k' where "unback c = (b, k')" "k = Suc k'" by (auto split: prod.splits)
  then show ?case using Back.IH [of b k'] by (auto simp: parens_def replicate_append_same)
qed (auto simp: parens_def)

definition execs :: "string cmd \<Rightarrow> bool" where
  "execs c \<longleftrightarrow> (\<forall>s i v n. NUL \<notin> set s \<longrightarrow> rest s i (pr 3 c @ v) \<longrightarrow> closes v \<longrightarrow> yields s (parseexec n s i) c v)"

definition pipes :: "string cmd \<Rightarrow> bool" where
  "pipes c \<longleftrightarrow> (\<forall>s i v n. NUL \<notin> set s \<longrightarrow> rest s i (pr 2 c @ v) \<longrightarrow> closes v \<longrightarrow> v = [] \<or> hd v \<noteq> CHR ''|'' \<longrightarrow>
     yields s (parsepipe n s i) c v)"

definition lines :: "string cmd \<Rightarrow> bool" where
  "lines c \<longleftrightarrow> (\<forall>s i v n. NUL \<notin> set s \<longrightarrow> rest s i (pr 0 c @ v) \<longrightarrow> v = [] \<or> hd v = CHR '')'' \<longrightarrow>
     yields s (parseline n s i) c v)"

lemma execs_of:
  assumes "printable c" "unredir c = (b, rs)" "(\<exists>wl. b = Exec wl) \<or> lines b"
  shows "execs c"
  unfolding execs_def
proof (intro allI impI)
  fix s i v n assume a: "NUL \<notin> set s" "rest s i (pr 3 c @ v)" "closes v"
  note u = unredir_spec [OF assms(2)]
  have rs: "list_all redir_ok rs" "printable b" using u assms(1) by auto
  show "yields s (parseexec n s i) c v"
  proof (cases "\<exists>wl. b = Exec wl")
    case True
    then obtain wl where b: "b = Exec wl" by blast
    have p: "pr 3 c = pr 3 b @ pr_redirs rs" using u by blast
    have "rest s i (pr_args wl @ pr_redirs rs @ v)" using a(2) by (simp only: p b pr.simps append_assoc)
    then have "yields s (parseexec n s i) (wrap rs (Exec wl)) v"
      using rs(2) b by (intro parseexec_simple [OF a(1) _ _ rs(1) a(3)]) simp_all
    then show ?thesis using u b by simp
  next
    case False
    then have p: "pr 3 b = ''('' @ pr 0 b @ '')''" using u by (cases b) (auto simp: parens_def)
    have "yields s (parseline m s j) b ('')'' @ pr_redirs rs @ v)" if "rest s j (pr 0 b @ '')'' @ pr_redirs rs @ v)" for m j
      using assms(3) False that a(1) unfolding lines_def by auto
    then have "yields s (parseexec n s i) (wrap rs b) v"
      using a u p by (intro parseexec_block [OF a(1) _ rs(1) a(3), of i "pr 0 b"]) auto
    then show ?thesis using u by simp
  qed
qed

lemma pipes_of:
  assumes "case c of Pipe a b \<Rightarrow> execs a \<and> pipes b | _ \<Rightarrow> execs c"
  shows "pipes c"
  unfolding pipes_def
proof (intro allI impI)
  fix s i v n assume a: "NUL \<notin> set s" "rest s i (pr 2 c @ v)" "closes v" "v = [] \<or> hd v \<noteq> CHR ''|''"
  show "yields s (parsepipe n s i) c v"
  proof (cases "\<exists>x y. c = Pipe x y")
    case True
    then obtain x y where c: "c = Pipe x y" by blast
    have "rest s i (pr 3 x @ ''|'' @ pr 2 y @ v)" using a(2) c by (simp add: parens_def)
    then have x: "yields s (parseexec m s i) x (''|'' @ pr 2 y @ v)" for m
      using assms c a(1) unfolding execs_def by (auto simp: closes_def)
    have y: "rest s j (pr 2 y @ v) \<Longrightarrow> yields s (parsepipe m s j) y v" for m j
      using assms c a unfolding pipes_def by auto
    show ?thesis unfolding c by (rule parsepipe_two [OF a(1) x y])
  next
    case False
    then have "pr 2 c = pr 3 c" "execs c" using assms by (cases c; auto simp: parens_def)+
    then have "yields s (parseexec m s i) c v" for m using a unfolding execs_def by auto
    then show ?thesis using parsepipe_one [OF a(1) _ a(3,4)] by blast
  qed
qed

lemma pipesD:
  "pipes c \<Longrightarrow> NUL \<notin> set s \<Longrightarrow> rest s i (pr 2 c @ v) \<Longrightarrow> closes v \<Longrightarrow> v = [] \<or> hd v \<noteq> CHR ''|'' \<Longrightarrow> yields s (parsepipe n s i) c v"
  unfolding pipes_def by blast

lemma amps_close:
  assumes "v = [] \<or> hd v \<in> set '');''"
  shows "closes (replicate k CHR ''&'' @ v)" "replicate k CHR ''&'' @ v = [] \<or> hd (replicate k CHR ''&'' @ v) \<noteq> CHR ''|''"
  using assms by (cases k; auto simp: closes_def)+

lemma fst_unback [simp]: "fst (unback (Back c)) = fst (unback c)"
  by (cases "unback c") simp

lemma lines_of:
  assumes "case c of Lst a b \<Rightarrow> pipes (fst (unback a)) \<and> lines b | _ \<Rightarrow> pipes (fst (unback c))"
  shows "lines c"
  unfolding lines_def
proof (intro allI impI)
  fix s i v n assume a: "NUL \<notin> set s" "rest s i (pr 0 c @ v)" "v = [] \<or> hd v = CHR '')''"
  show "yields s (parseline n s i) c v"
  proof (cases "\<exists>x y. c = Lst x y")
    case True
    then obtain x y b k where c: "c = Lst x y" and u: "unback x = (b, k)" by fastforce
    note ub = unback_spec [OF u]
    have "pr 1 x = pr 2 b @ replicate k CHR ''&''" using ub by blast
    then have "rest s i (pr 2 b @ replicate k CHR ''&'' @ '';'' @ pr 0 y @ v)"
      using a(2) by (simp only: c pr.simps parens_def append_assoc less_irrefl if_False)
    moreover have "pipes b" using assms c u by simp
    ultimately have x: "yields s (parsepipe m s i) b (replicate k CHR ''&'' @ '';'' @ pr 0 y @ v)" for m
      using amps_close [of "'';'' @ pr 0 y @ v" k] a(1) by (intro pipesD) simp_all
    have y: "rest s j (pr 0 y @ v) \<Longrightarrow> yields s (parseline m s j) y v" for m j
      using assms c a unfolding lines_def by auto
    have "yields s (parseline n s i) (Lst ((Back ^^ k) b) y) v" by (rule parseline_two [OF a(1) x y])
    then show ?thesis using c ub by simp
  next
    case False
    obtain b k where u: "unback c = (b, k)" by fastforce
    note ub = unback_spec [OF u]
    have b: "pipes b" using assms False u by (cases c) auto
    have "pr 0 c = pr 1 c" using False by (cases c) (auto simp: parens_def)
    also have "\<dots> = pr 2 b @ replicate k CHR ''&''" using ub by blast
    finally have "rest s i (pr 2 b @ replicate k CHR ''&'' @ v)" using a(2) by (simp only: append_assoc)
    then have "yields s (parsepipe m s i) b (replicate k CHR ''&'' @ v)" for m
      using amps_close [of v k] a(1,3) b by (intro pipesD) auto
    then have "yields s (parseline n s i) ((Back ^^ k) b) v" by (intro parseline_one [OF a(1) _ a(3)])
    then show ?thesis using ub by simp
  qed
qed

lemma parse_pr: "printable c \<Longrightarrow> lines c \<and> pipes c \<and> execs c"
proof (induction "size c" arbitrary: c rule: less_induct)
  case less
  obtain b rs p k where u: "unredir c = (b, rs)" "unback c = (p, k)" by fastforce
  note ur = unredir_spec [OF u(1)] and ub = unback_spec [OF u(2)]
  have e1: "execs c" if "is_redir c \<or> (\<exists>wl. c = Exec wl)"
  proof (rule execs_of [OF less.prems u(1)])
    show "(\<exists>wl. b = Exec wl) \<or> lines b"
    proof (cases "is_redir c")
      case True
      then have "rs \<noteq> []" using u(1) by (cases c) (auto split: prod.splits)
      then have "size b < size c" using ur by (cases rs) auto
      then show ?thesis using less.hyps [of b] ur less.prems by blast
    next
      case False
      then show ?thesis using that u(1) by auto
    qed
  qed
  have p1: "pipes c" if "\<not> (\<exists>d. c = Back d) \<and> \<not> (\<exists>a d. c = Lst a d)"
  proof (rule pipes_of)
    show "case c of Pipe a b \<Rightarrow> execs a \<and> pipes b | _ \<Rightarrow> execs c"
      using that e1 less.hyps less.prems by (cases c) auto
  qed
  have l: "lines c"
  proof (rule lines_of)
    have "size (fst (unback d)) \<le> size d \<and> (printable d \<longrightarrow> printable (fst (unback d)))" for d
      using unback_spec [of d] by (cases "unback d") auto
    then show "case c of Lst a b \<Rightarrow> pipes (fst (unback a)) \<and> lines b | _ \<Rightarrow> pipes (fst (unback c))"
      using p1 less.hyps less.prems
      by (cases c) (auto simp: le_imp_less_Suc less_Suc_eq_le trans_le_add1 simp del: unback.simps(1))
  qed
  have e: "execs c"
  proof (cases "is_redir c \<or> (\<exists>wl. c = Exec wl)")
    case False
    then have "unredir c = (c, [])" by (cases c) auto
    then show ?thesis using execs_of [OF less.prems] l by blast
  qed (rule e1)
  have "pipes c" if "(\<exists>d. c = Back d) \<or> (\<exists>a d. c = Lst a d)"
    using that e by (intro pipes_of) auto
  then show ?case using l e p1 by blast
qed

section \<open>Property\<close>

text \<open>
  C7.  Parsing inverts printing.  Every command, nested in any way, with proper words, the three
  kinds of redirection and at most 9 arguments each, is printed with the least parentheses by
  \<open>pr 0\<close>, and \<^verbatim>\<open>parsecmd\<close> on that line returns this very command: the words it points at, read as
  C strings from the terminated buffer, are the words of the command.
\<close>

theorem parsecmd_roundtrip:
  assumes "printable c" "s = pr 0 c"
  shows "\<exists>c' buf. parsecmd s = Parsed (c', buf) (length s) \<and> map_cmd (\<lambda>w. cstring_at buf (fst w)) c' = c"
proof -
  have nul: "NUL \<notin> set (pr l c)" if "printable c" for l c
    using that
  proof (induction l c rule: pr.induct)
    case (1 l wl)
    then show ?case by (auto simp: list_all_iff word_ok_def NUL_def)
  next
    case (2 l c f m d)
    then show ?case by (auto simp: redir_ok_def word_ok_def redir_op_def NUL_def)
  qed (auto simp: parens_def NUL_def)
  have s: "NUL \<notin> set s" "rest s 0 (pr 0 c @ [])" using nul assms by (auto simp: rest_def)
  have y: "yields s (parseline (parse_fuel s) s 0) c []" using parse_pr [OF assms(1)] s unfolding lines_def by blast
  moreover have "parseline (parse_fuel s) s 0 \<noteq> OutOfFuel" using parseline_good [of s] by auto
  ultimately obtain c' j where c': "parseline (parse_fuel s) s 0 = Parsed c' j" "map_cmd (word_of s) c' = c" "rest s j []"
    unfolding yields_def by blast
  have "skip_ws s j = length s"
    using rest_skip [OF c'(3)] skip_ws_le [of j s] c'(3) by (auto simp: rest_def)
  then have p: "parsecmd s = Parsed (c', nulterminate c' (s @ [NUL])) (length s)"
    using c'(1) by (simp add: parsecmd_def peek_def Let_def)
  have "cmd_ok s c'" using parseline_good [of s] c'(1) by simp
  then have "map_cmd (\<lambda>w. cstring_at (nulterminate c' (s @ [NUL])) (fst w)) c' = map_cmd (word_of s) c'"
    using nulterminate_word [OF _ s(1)] by (auto intro: cmd.map_cong)
  then show ?thesis using p c'(2) by auto
qed

theorem parsecmd_roundtrip_witness:
  "\<exists>c' buf. parsecmd ''( ls; a| b)&'' = Parsed (c', buf) 12 \<and>
    map_cmd (\<lambda>w. cstring_at buf (fst w)) c' = Back (Lst (Exec [''ls'']) (Pipe (Exec [''a'']) (Exec [''b''])))"
proof -
  let ?c = "Back (Lst (Exec [''ls'']) (Pipe (Exec [''a'']) (Exec [''b''])))"
  have "word_ok ''ls''" "word_ok ''a''" "word_ok ''b''" by code_simp+
  then have "printable ?c" by (simp add: MAXARGS_def)
  moreover have "''( ls; a| b)&'' = pr 0 ?c" by (simp add: parens_def)
  ultimately have "\<exists>c' buf. parsecmd ''( ls; a| b)&'' = Parsed (c', buf) (length ''( ls; a| b)&'')
      \<and> map_cmd (\<lambda>w. cstring_at buf (fst w)) c' = ?c" by (rule parsecmd_roundtrip)
  moreover have "length ''( ls; a| b)&'' = 12" by simp
  ultimately show ?thesis by (simp only:)
qed

end
