(* ===== verification/Trap_Regs.thy ===== *)
theory Trap_Regs
  imports Trap
begin

text \<open>
  The assembly of \<^verbatim>\<open>kernel/trampoline.S\<close> and \<^verbatim>\<open>kernel/kernelvec.S\<close> gives every register back the
  value it had when the trap was taken.
\<close>

section \<open>Slots of eight bytes\<close>

lemma slot_of:
  fixes a x :: uint64
  assumes "in_range (a + 8 * of_nat i) 8 x" "i < 2 ^ 32"
  shows "unat (x - a) div 8 = i"
proof -
  let ?r = "x - (a + 8 * of_nat i)"
  have r: "unat ?r < 8" using assms(1) by (simp add: in_range_def)
  have i: "unat (of_nat i :: uint64) = i" using assms(2) by (simp add: unat_of_nat64)
  have "x - a = ?r + 8 * of_nat i" by simp
  also have "unat \<dots> = unat ?r + 8 * i"
  proof -
    have "unat (8 * of_nat i :: uint64) = 8 * i" using i assms(2) by (subst unat_mult_lem [THEN iffD1]) auto
    then show ?thesis using r assms(2) by (subst unat_add_lem [THEN iffD1]) auto
  qed
  finally show ?thesis using r by simp
qed

lemma load_slot:
  "i < 2 ^ 32 \<Longrightarrow> j < 2 ^ 32 \<Longrightarrow>
    load64 (store64 m (a + 8 * of_nat i) v) (a + 8 * of_nat j) = (if i = j then v else load64 m (a + 8 * of_nat j))"
  by (auto intro!: load64_cong store64_outside dest!: slot_of)

section \<open>The trapframe\<close>

lemma nth_pos_of: "x \<in> set xs \<Longrightarrow> pos_of x xs < length xs \<and> xs ! pos_of x xs = x"
  by (induction xs) auto

lemma tfregs_all: "r \<in> set tfregs"
  by (cases r) (simp_all add: tfregs_def)

lemma tf_slot: "pos_of r tfregs < 36" "pos_of r tfregs = pos_of q tfregs \<longleftrightarrow> r = q"
proof -
  have "length tfregs = 36" by (simp add: tfregs_def)
  then show "pos_of r tfregs < 36" using nth_pos_of [OF tfregs_all [of r]] by simp
  show "pos_of r tfregs = pos_of q tfregs \<longleftrightarrow> r = q"
    using nth_pos_of [OF tfregs_all [of r]] nth_pos_of [OF tfregs_all [of q]] by metis
qed

lemma tf_load_store: "tf_load tf r (tf_store tf q v m) = (if q = r then v else tf_load tf r m)"
  using tf_slot(1) [of r] tf_slot(1) [of q] by (auto simp: tf_load_def tf_store_def tf_off_def load_slot tf_slot(2))

lemma tf_load_saves:
  "tf_load tf r (fold (\<lambda>r m. tf_store tf r (g r) m) xs m) = (if r \<in> set xs then g r else tf_load tf r m)"
  by (induction xs arbitrary: m) (auto simp: tf_load_store)

lemma regs_loads: "fold (\<lambda>r regs. regs(r := L r)) xs g r = (if r \<in> set xs then L r else g r)"
  by (induction xs arbitrary: g) auto

lemma not_saved: "A0 \<notin> set saved_regs" "Kernel_sp \<notin> set saved_regs" "Kernel_trap \<notin> set saved_regs"
  "Kernel_satp \<notin> set saved_regs" "Kernel_hartid \<notin> set saved_regs"
  by (simp_all add: saved_regs_def)

definition is_gpr :: "tfreg \<Rightarrow> bool" where
  \<comment> \<open>a slot of the trapframe that holds one of the 31 general registers\<close>
  "is_gpr r \<longleftrightarrow> r \<noteq> Kernel_satp \<and> r \<noteq> Kernel_sp \<and> r \<noteq> Kernel_trap \<and> r \<noteq> Epc \<and> r \<noteq> Kernel_hartid"

lemma saved_all: "is_gpr r \<longleftrightarrow> r = A0 \<or> r \<in> set saved_regs"
  by (cases r) (simp_all add: is_gpr_def saved_regs_def)

lemma kvec_all: "is_gpr r \<longleftrightarrow> r \<in> set kvec_regs"
  by (cases r) (simp_all add: is_gpr_def kvec_regs_def)

lemma uservec_frame:
  "tf_load tf r (t_mem (uservec_code tf t)) = (if r = A0 \<or> r \<in> set saved_regs then t_regs t r else tf_load tf r (t_mem t))"
  using not_saved(1) by (auto simp: uservec_code_def Let_def tf_load_store tf_load_saves)

section \<open>The kernel's own stack\<close>

lemma load_saves:
  "n + length xs \<le> 2 ^ 32 \<Longrightarrow> j < 2 ^ 32 \<Longrightarrow>
    load64 (fold (\<lambda>(i, x) m. store64 m (b + 8 * of_nat i) (g x)) (enumerate n xs) m) (b + 8 * of_nat j) =
    (if n \<le> j \<and> j < n + length xs then g (xs ! (j - n)) else load64 m (b + 8 * of_nat j))"
proof (induction xs arbitrary: n m)
  case (Cons x xs)
  have "Suc n \<le> j \<Longrightarrow> (x # xs) ! (j - n) = xs ! (j - Suc n)" by (simp add: nth_Cons' Suc_diff_Suc)
  then show ?case using Cons.IH [of "Suc n"] Cons.prems by (auto simp: load_slot)
qed auto

lemma loads_regs:
  "(\<And>i. i < length xs \<Longrightarrow> load64 m (b + 8 * of_nat (n + i)) = v (xs ! i)) \<Longrightarrow> g Sp = b \<Longrightarrow> v Sp = b \<Longrightarrow>
    fold (\<lambda>(i, x) r. if x = Tp then r else r(x := load64 m (r Sp + 8 * of_nat i))) (enumerate n xs) g x =
    (if x \<in> set xs \<and> x \<noteq> Tp then v x else g x)"
proof (induction xs arbitrary: n g)
  case (Cons y ys)
  have y: "load64 m (b + 8 * of_nat n) = v y" using Cons.prems(1) [of 0] by simp
  have ys: "load64 m (b + 8 * of_nat (Suc n + i)) = v (ys ! i)" if "i < length ys" for i
    using Cons.prems(1) [of "Suc i"] that by simp
  let ?g = "if y = Tp then g else g(y := v y)"
  have "fold (\<lambda>(i, x) r. if x = Tp then r else r(x := load64 m (r Sp + 8 * of_nat i))) (enumerate (Suc n) ys) ?g x =
      (if x \<in> set ys \<and> x \<noteq> Tp then v x else ?g x)"
    by (rule Cons.IH) (use ys Cons.prems(2,3) in auto)
  then show ?case using y Cons.prems(2) by auto
qed simp

section \<open>Properties\<close>

text \<open>
  C8.  A trap from user space is transparent.  If the kernel does not change the registers saved
  in the trapframe, \<^verbatim>\<open>userret\<close> gives every general register the value it had when \<^verbatim>\<open>uservec\<close> was
  entered, installs the user page table, and leaves the address of the trapframe in \<^verbatim>\<open>sscratch\<close>
  for the next trap.  In between, \<^verbatim>\<open>uservec\<close> has entered the kernel with the stack, hart number,
  page table and entry point that the trapframe held.
\<close>

theorem user_trap_transparent:
  assumes "\<forall>r. is_gpr r \<longrightarrow> tf_load tf r (t_mem k) = tf_load tf r (t_mem (uservec_code tf t))"
  shows "(\<forall>r. is_gpr r \<longrightarrow> t_regs (userret_code tf a0 a1 k) r = t_regs t r)
    \<and> t_sscratch (userret_code tf a0 a1 k) = a0 \<and> t_satp (userret_code tf a0 a1 k) = a1
    \<and> t_regs (uservec_code tf t) Sp = tf_load tf Kernel_sp (t_mem t)
    \<and> t_regs (uservec_code tf t) Tp = tf_load tf Kernel_hartid (t_mem t)
    \<and> t_satp (uservec_code tf t) = tf_load tf Kernel_satp (t_mem t)
    \<and> t_pc (uservec_code tf t) = tf_load tf Kernel_trap (t_mem t)"
proof (intro conjI allI impI)
  fix r assume "is_gpr r"
  then show "t_regs (userret_code tf a0 a1 k) r = t_regs t r"
    using assms not_saved(1) by (auto simp: userret_code_def Let_def regs_loads uservec_frame saved_all)
next
  show "t_sscratch (userret_code tf a0 a1 k) = a0" "t_satp (userret_code tf a0 a1 k) = a1"
    using not_saved(1) by (simp_all add: userret_code_def Let_def regs_loads)
qed (use not_saved in \<open>simp_all add: uservec_code_def Let_def tf_load_store tf_load_saves\<close>)

theorem user_trap_transparent_witness:
  "let t = \<lparr>t_regs = (\<lambda>_. 5), t_sscratch = TRAPFRAME, t_satp = 1, t_mem = (\<lambda>_. 0), t_pc = 0\<rparr>
   in t_regs (userret_code 0x80104000 TRAPFRAME 1 (uservec_code 0x80104000 t)) S7 = 5"
proof -
  let ?t = "\<lparr>t_regs = (\<lambda>_. 5), t_sscratch = TRAPFRAME, t_satp = 1, t_mem = (\<lambda>_. 0), t_pc = 0\<rparr>"
  have "is_gpr S7" by (simp add: is_gpr_def)
  then show ?thesis
    using user_trap_transparent [of "0x80104000" "uservec_code 0x80104000 ?t" ?t TRAPFRAME 1] by simp
qed

text \<open>
  C19.  A trap in the kernel is transparent.  If the handler returns with the same stack pointer
  and has not changed the 31 words that \<^verbatim>\<open>kernelvec\<close> pushed, every register has its old value again,
  except \<^verbatim>\<open>tp\<close>, which holds the number of the CPU the handler returned on.
\<close>

theorem kernel_trap_transparent:
  assumes "kernelvec_save g m = (g1, m1)" "g2 Sp = g1 Sp"
    "\<forall>i < 31. load64 m2 (g1 Sp + 8 * of_nat i) = load64 m1 (g1 Sp + 8 * of_nat i)"
  shows "\<forall>x. is_gpr x \<longrightarrow> kernelvec_restore g2 m2 x = (if x = Tp then g2 Tp else g x)"
proof (intro allI impI)
  fix x assume "is_gpr x"
  then have x: "x \<in> set kvec_regs" by (simp add: kvec_all)
  have g1: "g1 = g(Sp := g Sp - 256)"
    and m1: "m1 = fold (\<lambda>(i, x) m. store64 m (g1 Sp + 8 * of_nat i) (g1 x)) (enumerate 0 kvec_regs) m"
    using assms(1) by (auto simp: kernelvec_save_def Let_def)
  have len: "length kvec_regs = 31" by (simp add: kvec_regs_def)
  have "load64 m2 (g1 Sp + 8 * of_nat (0 + i)) = g1 (kvec_regs ! i)" if "i < length kvec_regs" for i
    using assms(3) that len load_saves [of 0 kvec_regs i "g1 Sp" g1 m] by (simp add: m1 [symmetric])
  then have "fold (\<lambda>(i, x) r. if x = Tp then r else r(x := load64 m2 (r Sp + 8 * of_nat i))) (enumerate 0 kvec_regs) g2 y =
      (if y \<in> set kvec_regs \<and> y \<noteq> Tp then g1 y else g2 y)" for y
    using assms(2) by (intro loads_regs) simp_all
  moreover have "Sp \<in> set kvec_regs" by (simp add: kvec_regs_def)
  ultimately show "kernelvec_restore g2 m2 x = (if x = Tp then g2 Tp else g x)"
    using x by (simp add: kernelvec_restore_def Let_def g1)
qed

theorem kernel_trap_transparent_witness:
  "kernelvec_restore (fst (kernelvec_save (\<lambda>_. 0x80020000) (\<lambda>_. 0)))
     (snd (kernelvec_save (\<lambda>_. 0x80020000) (\<lambda>_. 0))) S3 = 0x80020000"
proof -
  obtain g1 m1 where s: "kernelvec_save (\<lambda>_. 0x80020000) (\<lambda>_. 0) = (g1, m1)" by fastforce
  have "is_gpr S3" by (simp add: is_gpr_def)
  then show ?thesis using kernel_trap_transparent [OF s, of g1 m1] s by simp
qed

end
