(* ===== verification/Redo_Log.thy ===== *)
theory Redo_Log
  imports Xv6_Prelude
begin

text \<open>
  The redo log as an interface: a disk maps block numbers to contents, the header block names
  the home blocks of the committed transaction, and slot \<open>i\<close> holds the new contents of the
  \<open>i\<close>th of them.  The lemmas say what \<open>replay\<close> (recovery) makes of a disk on which the
  writes of a commit were cut off at an arbitrary point.  The theory of \<^verbatim>\<open>kernel/log.c\<close>
  interprets the locale on the format of that file.
\<close>

section \<open>Sequences of block writes\<close>

definition apply_writes :: "('a \<times> 'b) list \<Rightarrow> ('a \<Rightarrow> 'b) \<Rightarrow> 'a \<Rightarrow> 'b" where
  "apply_writes ws D = fold (\<lambda>(n, x) D. D(n := x)) ws D"

lemma apply_writes_simps [simp]:
  "apply_writes [] D = D" "apply_writes ((n, x) # ws) D = apply_writes ws (D(n := x))"
  "apply_writes (us @ ws) D = apply_writes ws (apply_writes us D)"
  by (simp_all add: apply_writes_def)

lemma apply_writes_other: "n \<notin> fst ` set ws \<Longrightarrow> apply_writes ws D n = D n"
  by (induction ws arbitrary: D) (auto simp: image_iff)

lemma apply_writes_in:
  "(n, x) \<in> set ws \<Longrightarrow> (\<And>y. (n, y) \<in> set ws \<Longrightarrow> y = x) \<Longrightarrow> apply_writes ws D n = x"
proof (induction ws arbitrary: D)
  case (Cons w ws)
  obtain m y where w: "w = (m, y)" by (cases w)
  show ?case
  proof (cases "(n, x) \<in> set ws")
    case True
    have "apply_writes ws (D(m := y)) n = x" by (rule Cons.IH [OF True]) (simp add: Cons.prems(2))
    then show ?thesis by (simp add: w)
  next
    case False
    then have "n \<notin> fst ` set ws" using Cons.prems(2) by force
    moreover have "m = n" "y = x" using Cons.prems(1) False w by auto
    ultimately show ?thesis by (simp add: w apply_writes_other)
  qed
qed simp

lemma apply_writes_list:
  assumes "distinct hs"
  shows "apply_writes (map (\<lambda>h. (h, new h)) hs) D n = (if n \<in> set hs then new n else D n)"
  using assms by (auto intro!: apply_writes_other apply_writes_in)

lemma apply_writes_cases: "apply_writes ws D n = D n \<or> (n, apply_writes ws D n) \<in> set ws"
proof (induction ws arbitrary: D)
  case (Cons w ws)
  then show ?case by (cases w) (metis apply_writes_simps(2) fun_upd_apply list.set_intros(1,2))
qed simp

section \<open>Replay\<close>

definition replay_writes :: "('b \<Rightarrow> 'a list) \<Rightarrow> 'a \<Rightarrow> (nat \<Rightarrow> 'a) \<Rightarrow> ('a \<Rightarrow> 'b) \<Rightarrow> ('a \<times> 'b) list" where
  \<comment> \<open>the writes that install the transaction named in the header\<close>
  "replay_writes dec start slot D =
     (let hs = dec (D start) in map (\<lambda>i. (hs ! i, D (slot i))) [0..<length hs])"

definition replay :: "('b \<Rightarrow> 'a list) \<Rightarrow> 'a \<Rightarrow> (nat \<Rightarrow> 'a) \<Rightarrow> ('a \<Rightarrow> 'b) \<Rightarrow> 'a \<Rightarrow> 'b" where
  "replay dec start slot D = apply_writes (replay_writes dec start slot D) D"

definition commit_writes :: "'a \<Rightarrow> (nat \<Rightarrow> 'a) \<Rightarrow> 'a list \<Rightarrow> ('a \<Rightarrow> 'b) \<Rightarrow> 'b \<Rightarrow> 'b \<Rightarrow> ('a \<times> 'b) list" where
  \<comment> \<open>log the new contents, write the header, install, clear the header\<close>
  "commit_writes start slot hs new h1 h0 =
     map (\<lambda>i. (slot i, new (hs ! i))) [0..<length hs] @ [(start, h1)] @
     map (\<lambda>h. (h, new h)) hs @ [(start, h0)]"

locale redo_log =
  fixes dec :: "'b \<Rightarrow> 'a list" and start :: 'a and slot :: "nat \<Rightarrow> 'a" and cap :: nat
  assumes slot_start: "i < cap \<Longrightarrow> slot i \<noteq> start"
    and slot_inj: "i < cap \<Longrightarrow> j < cap \<Longrightarrow> slot i = slot j \<Longrightarrow> i = j"
begin

lemma logged_slots:
  assumes "length hs \<le> cap" "i < length hs"
  shows "apply_writes (map (\<lambda>i. (slot i, new (hs ! i))) [0..<length hs]) D (slot i) = new (hs ! i)"
proof (rule apply_writes_in)
  show "(slot i, new (hs ! i)) \<in> set (map (\<lambda>i. (slot i, new (hs ! i))) [0..<length hs])" using assms by auto
  show "y = new (hs ! i)" if y: "(slot i, y) \<in> set (map (\<lambda>i. (slot i, new (hs ! i))) [0..<length hs])" for y
  proof -
    obtain x where x: "x < length hs" "slot i = slot x" "y = new (hs ! x)"
      using y by auto
    then show ?thesis using slot_inj [of i x] assms by simp
  qed
qed

lemma replay_empty: "dec (D start) = [] \<Longrightarrow> replay dec start slot D = D"
  by (simp add: replay_def replay_writes_def)

lemma replay_committed:
  assumes "dec (D start) = hs" "distinct hs" "\<And>i. i < length hs \<Longrightarrow> D (slot i) = new (hs ! i)"
  shows "replay dec start slot D n = (if n \<in> set hs then new n else D n)"
proof -
  have "map (\<lambda>i. (hs ! i, D (slot i))) [0..<length hs] = map (\<lambda>h. (h, new h)) hs"
    using assms(3) by (auto intro!: nth_equalityI)
  then show ?thesis using assms(1,2) by (simp add: replay_def replay_writes_def apply_writes_list)
qed

lemma commit_result:
  assumes "length hs \<le> cap" "distinct hs" "n \<noteq> start" "\<And>i. i < cap \<Longrightarrow> n \<noteq> slot i"
  shows "apply_writes (commit_writes start slot hs new h1 h0) D n = (if n \<in> set hs then new n else D n)"
proof -
  let ?lw = "map (\<lambda>i. (slot i, new (hs ! i))) [0..<length hs]"
  have "n \<notin> fst ` set ?lw"
  proof
    assume "n \<in> fst ` set ?lw"
    then obtain i where "i < length hs" "n = slot i" by auto
    then show False using assms(1,4) by auto
  qed
  then have "apply_writes ?lw D n = D n" by (rule apply_writes_other)
  then show ?thesis using assms(2,3) by (simp add: commit_writes_def apply_writes_list)
qed

text \<open>
  A crash anywhere in the commit leaves a disk that recovery turns into the state before the
  transaction or the state after it, as seen outside the log.
\<close>

lemma crash_recovery:
  assumes "length hs \<le> cap" "distinct hs" "start \<notin> set hs" "\<And>i. i < cap \<Longrightarrow> slot i \<notin> set hs"
    "dec (D start) = []" "dec h1 = hs" "dec h0 = []"
    "n \<noteq> start" "\<And>i. i < cap \<Longrightarrow> n \<noteq> slot i"
  shows "replay dec start slot (apply_writes (take k (commit_writes start slot hs new h1 h0)) D) n =
    (if k \<le> length hs then D n else if n \<in> set hs then new n else D n)"
proof -
  let ?lw = "map (\<lambda>i. (slot i, new (hs ! i))) [0..<length hs]" and ?hw = "map (\<lambda>h. (h, new h)) hs"
  have nl: "n \<notin> fst ` set (take j ?lw)" "start \<notin> fst ` set (take j ?lw)" for j
  proof -
    have "\<exists>i < length hs. m = slot i" if m: "m \<in> fst ` set (take j ?lw)" for m
    proof -
      obtain w where "w \<in> set ?lw" "m = fst w" using m in_set_takeD by fast
      then show ?thesis by auto
    qed
    moreover have "n \<noteq> slot i" "start \<noteq> slot i" if "i < length hs" for i
      using assms(1,9) slot_start [of i] that by auto
    ultimately show "n \<notin> fst ` set (take j ?lw)" "start \<notin> fst ` set (take j ?lw)" by blast+
  qed
  consider "k \<le> length hs" | "length hs < k" "k \<le> 2 * length hs + 1" | "2 * length hs + 1 < k" by linarith
  then show ?thesis
  proof cases
    case 1
    then have "take k (commit_writes start slot hs new h1 h0) = take k ?lw" by (simp add: commit_writes_def)
    then show ?thesis using 1 assms(5) nl by (simp add: replay_empty apply_writes_other)
  next
    case 2
    define E where "E = (apply_writes ?lw D)(start := h1)"
    define j where "j = k - (length hs + 1)"
    then have j: "k = length hs + 1 + j" "j \<le> length hs" using 2 by simp_all
    have tk: "apply_writes (take k (commit_writes start slot hs new h1 h0)) D = apply_writes (take j ?hw) E"
      using j by (simp add: commit_writes_def E_def take_map)
    have hw: "m \<notin> set hs \<Longrightarrow> apply_writes (take j ?hw) E m = E m" for m
      by (rule apply_writes_other) (auto dest!: in_set_takeD)
    have "dec (apply_writes (take j ?hw) E start) = hs" using hw assms(3,6) by (simp add: E_def)
    moreover have "apply_writes (take j ?hw) E (slot i) = new (hs ! i)" if "i < length hs" for i
      using hw [of "slot i"] assms(1,4) that logged_slots [OF assms(1) that] slot_start [of i]
      by (simp add: E_def)
    ultimately have "replay dec start slot (apply_writes (take j ?hw) E) n =
        (if n \<in> set hs then new n else apply_writes (take j ?hw) E n)"
      by (rule replay_committed [OF _ assms(2)])
    then show ?thesis using 2 hw [of n] assms(8) nl [of "length hs"] by (simp add: tk E_def apply_writes_other)
  next
    case 3
    then have tk: "take k (commit_writes start slot hs new h1 h0) = commit_writes start slot hs new h1 h0"
      by (simp add: commit_writes_def)
    define E where "E = apply_writes ?hw ((apply_writes ?lw D)(start := h1))"
    have "apply_writes (commit_writes start slot hs new h1 h0) D = E(start := h0)"
      by (simp add: commit_writes_def E_def)
    then show ?thesis
      using 3 assms(7,8) nl [of "length hs"]
      by (simp add: tk replay_empty E_def apply_writes_list [OF assms(2)] apply_writes_other)
  qed
qed

text \<open>
  Recovery that is itself cut off can be repeated.
\<close>

lemma replay_idempotent:
  assumes "length (dec (D start)) \<le> cap" "distinct (dec (D start))" "start \<notin> set (dec (D start))"
    "\<And>i. i < cap \<Longrightarrow> slot i \<notin> set (dec (D start))"
  shows "replay dec start slot (apply_writes (take k (replay_writes dec start slot D)) D) = replay dec start slot D"
proof
  fix n
  let ?hs = "dec (D start)" and ?E = "apply_writes (take k (replay_writes dec start slot D)) D"
  have w: "m \<notin> set ?hs \<Longrightarrow> ?E m = D m" for m
    by (rule apply_writes_other) (auto simp: replay_writes_def Let_def dest!: in_set_takeD)
  obtain new where new: "\<And>i. i < length ?hs \<Longrightarrow> new (?hs ! i) = D (slot i)"
  proof
    fix i assume "i < length ?hs"
    then show "(\<lambda>h. D (slot (THE i. i < length ?hs \<and> ?hs ! i = h))) (?hs ! i) = D (slot i)"
      using assms(2) by (auto simp: nth_eq_iff_index_eq intro!: arg_cong [where f = "\<lambda>i. D (slot i)"] the_equality)
  qed
  have e: "dec (?E start) = ?hs" using w assms(3) by simp
  have es: "?E (slot i) = new (?hs ! i)" if "i < length ?hs" for i
    using w [of "slot i"] assms(1,4) that new by simp
  have "replay dec start slot ?E n = (if n \<in> set ?hs then new n else ?E n)"
    by (rule replay_committed [OF e assms(2) es])
  moreover have "replay dec start slot D n = (if n \<in> set ?hs then new n else D n)"
    by (rule replay_committed [of D, OF refl assms(2)]) (simp add: new)
  ultimately show "replay dec start slot ?E n = replay dec start slot D n" using w by simp
qed

end

end
