(* ===== verification/Log_Format.thy ===== *)
theory Log_Format
  imports Log Redo_Log
begin

text \<open>
  The format of the log header: what \<^verbatim>\<open>write_head\<close> stores in a block is what
  \<^verbatim>\<open>read_head\<close> finds there.
\<close>

section \<open>Fields of a block\<close>

lemma length_put_bytes [simp]: "off + length bs \<le> length d \<Longrightarrow> length (put_bytes d off bs) = length d"
  by (simp add: put_bytes_def)

lemma put_bytes_nth:
  assumes "off + length bs \<le> length d" "i < length d"
  shows "put_bytes d off bs ! i = (if off \<le> i \<and> i < off + length bs then bs ! (i - off) else d ! i)"
  using assms by (auto simp: put_bytes_def nth_append)

lemma put_bytes_same:
  "off + length bs \<le> length d \<Longrightarrow> take (length bs) (drop off (put_bytes d off bs)) = bs"
  by (simp add: put_bytes_def)

lemma put_bytes_other:
  assumes "off + length bs \<le> length d" "at + k \<le> off \<or> off + length bs \<le> at"
  shows "take k (drop at (put_bytes d off bs)) = take k (drop at d)"
  by (rule nth_equalityI) (use assms in \<open>auto simp: put_bytes_nth\<close>)

lemma length_put32 [simp]: "off + 4 \<le> length d \<Longrightarrow> length (put32 d off v) = length d"
  by (simp add: put32_def)

lemma get32_put32 [simp]: "off + 4 \<le> length d \<Longrightarrow> get32 (put32 d off v) off = v"
  using put_bytes_same [of off "le_split 4 v" d]
  by (simp add: get32_def put32_def le_join_split_full)

lemma get32_put32_other:
  "off + 4 \<le> length d \<Longrightarrow> at + 4 \<le> off \<or> off + 4 \<le> at \<Longrightarrow> get32 (put32 d off v) at = get32 d at"
  by (simp add: get32_def put32_def put_bytes_other)

section \<open>The header\<close>

definition log_hdr :: "uint8 list \<Rightarrow> uint32 list" where
  \<comment> \<open>the block numbers in a header block\<close>
  "log_hdr d = map (\<lambda>i. get32 d (4 + 4 * i)) [0..<nat (sint (get32 d 0))]"

lemma put_blocks_aux:
  "4 + 4 * (i + length vs) \<le> length d \<Longrightarrow> length (put_blocks d i vs) = length d
    \<and> (\<forall>at. at + 4 \<le> 4 + 4 * i \<longrightarrow> get32 (put_blocks d i vs) at = get32 d at)
    \<and> (\<forall>j < length vs. get32 (put_blocks d i vs) (4 + 4 * (i + j)) = vs ! j)"
proof (induction vs arbitrary: d i)
  case (Cons v vs)
  have l: "4 + 4 * i + 4 \<le> length d" using Cons.prems by simp
  let ?d = "put32 d (4 + 4 * i) v"
  have p: "4 + 4 * (Suc i + length vs) \<le> length ?d" using Cons.prems l by simp
  note IH = Cons.IH [OF p]
  have "get32 (put_blocks ?d (Suc i) vs) (4 + 4 * (i + j)) = (v # vs) ! j" if j: "j < length (v # vs)" for j
  proof (cases j)
    case 0
    then show ?thesis using IH l by simp
  next
    case (Suc k)
    then have "k < length vs" using j by simp
    then have "get32 (put_blocks ?d (Suc i) vs) (4 + 4 * (Suc i + k)) = vs ! k" using IH by blast
    then show ?thesis using Suc by simp
  qed
  then show ?case using IH l by (auto simp: get32_put32_other)
qed simp

lemmas put_blocks_spec = put_blocks_aux [THEN conjunct1] put_blocks_aux [THEN conjunct2, THEN conjunct1, rule_format]
  put_blocks_aux [THEN conjunct2, THEN conjunct2, rule_format]

lemma LOGSIZE_eq: "LOGSIZE = 30" by (simp add: LOGSIZE_def MAXOPBLOCKS_def)

lemma sint_small: "int k < 2 ^ 31 \<Longrightarrow> sint (of_int (int k) :: uint32) = int k"
  by (simp only: signed_of_int) (simp add: signed_take_bit_int_eq_self)

lemma log_hdr_put:
  assumes "length d = BSIZE" "length vs \<le> LOGSIZE"
  shows "log_hdr (put_blocks (put32 d 0 (of_int (int (length vs)))) 0 vs) = vs"
proof -
  let ?d = "put32 d 0 (of_int (int (length vs)))"
  have l: "4 + 4 * (0 + length vs) \<le> length ?d" using assms by (simp add: LOGSIZE_eq BSIZE_def)
  have "get32 (put_blocks ?d 0 vs) 0 = of_int (int (length vs))"
    using put_blocks_spec(2) [OF l, of 0] assms by (simp add: BSIZE_def)
  then have "nat (sint (get32 (put_blocks ?d 0 vs) 0)) = length vs"
    using assms(2) sint_small [of "length vs"] by (simp add: LOGSIZE_eq)
  then show ?thesis
    using put_blocks_spec(3) [OF l] by (intro nth_equalityI) (simp_all add: log_hdr_def)
qed

lemma log_hdr_empty: "length d = BSIZE \<Longrightarrow> log_hdr (put32 d 0 0) = []"
  using log_hdr_put [of d "[]"] by simp

definition log_slot :: "int \<Rightarrow> nat \<Rightarrow> uint32" where
  \<comment> \<open>the log block for the \<open>i\<close>th block of the transaction\<close>
  "log_slot st i = of_int (st + int i + 1)"

interpretation redo: redo_log log_hdr "of_int st :: uint32" "log_slot st" LOGSIZE for st :: int
proof
  have plus: "log_slot st i = of_int st + of_nat (i + 1)" for i by (simp add: log_slot_def)
  fix i assume i: "i < LOGSIZE"
  then have u: "unat (of_nat (i + 1) :: uint32) = i + 1" by (intro unat_of_nat32) (simp add: LOGSIZE_eq)
  then have "(of_nat (i + 1) :: uint32) \<noteq> 0" by (metis Suc_eq_plus1 nat.distinct(1) unat_0)
  then show "log_slot st i \<noteq> of_int st" unfolding plus by simp
  fix j assume "j < LOGSIZE" "log_slot st i = log_slot st j"
  then have "unat (of_nat (i + 1) :: uint32) = unat (of_nat (j + 1) :: uint32)" "j + 1 < 2 ^ 32"
    unfolding plus by (simp_all add: LOGSIZE_eq)
  then show "i = j" using u by (simp only: unat_of_nat32)
qed

end
