(* ===== verification/Log_Commit.thy ===== *)
theory Log_Commit
  imports Bcache Log_Format
begin

text \<open>
  What \<^verbatim>\<open>commit\<close> and \<^verbatim>\<open>recover_from_log\<close> of \<^verbatim>\<open>kernel/log.c\<close> write to the disk, in order, and
  that a crash at any point in between leaves all of the transaction or nothing of it.
\<close>

section \<open>Block copies through the cache\<close>

lemma in_use_upd: "in_use (v\<lparr>cv_refs := (cv_refs v)(n := k)\<rparr>) \<le> in_use v + 1"
proof -
  have "{m. 0 < ((cv_refs v)(n := k)) m} \<subseteq> insert n {m. 0 < cv_refs v m}" by auto
  then have "card {m. 0 < ((cv_refs v)(n := k)) m} \<le> card (insert n {m. 0 < cv_refs v m})"
    by (intro card_mono) auto
  also have "\<dots> \<le> card {m. 0 < cv_refs v m} + 1" by (simp add: card_insert_if)
  finally show ?thesis by (simp add: in_use_def)
qed

definition quiet :: "cview \<Rightarrow> bool" where
  \<comment> \<open>nobody has locked a buffer, and no reference count is near its limit\<close>
  "quiet v \<longleftrightarrow> (\<forall>n. \<not> cv_locked v n \<and> cv_refs v n + 1 < 2 ^ 32)"

definition stored :: "uint32 \<Rightarrow> uint8 list \<Rightarrow> cview \<Rightarrow> cview" where
  \<comment> \<open>the view after block \<open>n\<close> has been changed in the cache and written\<close>
  "stored n x v = v\<lparr>cv_blk := (cv_blk v)(n := x), cv_disk := (cv_disk v)(n := x),
     cv_writes := cv_writes v @ [(n, x)]\<rparr>"

lemma clean_block: "cache_ok d p s \<Longrightarrow> cv_refs (cview d s) n = 0 \<Longrightarrow> cv_blk (cview d s) n = disk s n"
proof (cases "\<exists>b. hasblk d n b s")
  case True
  assume a: "cache_ok d p s" "cv_refs (cview d s) n = 0"
  obtain b where b: "hasblk d n b s" using True by blast
  note v = cview_holder [OF cache_okD(3) [OF a(1)] b]
  have "b_refcnt (bufs s b) = 0" using v(2) a(2) by (simp add: unat_eq_0)
  then show ?thesis using v(1) cache_okD(7) [OF a(1), of b] b by (auto simp: hasblk_def)
next
  case False
  then show "cv_blk (cview d s) n = disk s n" using cview_none [of d n s] by simp
qed

lemma copy_block_upd: "copy_block x y s = upd_buf x (\<lambda>b. b\<lparr>b_data := b_data (bufs s y)\<rparr>) s"
  by (simp add: copy_block_def upd_buf_def)

lemma copy_spec:
  assumes "cache_ok d p s" "owns d n x p s" "owns d m y p s"
  shows "\<exists>t. copy_block x y s = Ok () t \<and> cache_ok d p t \<and> blk_frame s t
    \<and> (\<forall>m c. owns d m c p t = owns d m c p s)
    \<and> cview d t = (cview d s)\<lparr>cv_blk := (cv_blk (cview d s))(n := cv_blk (cview d s) m)\<rparr>"
  using set_data_spec [OF assms(1,2), of "\<lambda>_. b_data (bufs s y)"] owns_refs(3) [OF assms(1,3)]
  by (simp add: copy_block_upd)

text \<open>Changing one block through the cache, as \<^verbatim>\<open>write_head\<close> does.\<close>

lemma store_step:
  assumes "cache_ok d p s" "quiet (cview d s)" "in_use (cview d s) < NBUF" "cv_refs (cview d s) n = 0"
  shows "\<exists>t. bnd (bread d n) (\<lambda>b. bnd (upd_buf b (\<lambda>x. x\<lparr>b_data := g (b_data x)\<rparr>)) (\<lambda>_. bnd (bwrite b) (\<lambda>_. brelse b))) s
      = Ok () t \<and> cache_ok d p t \<and> blk_frame s t \<and> cview d t = stored n (g (disk s n)) (cview d s)"
proof -
  define v where "v = cview d s"
  have q: "\<not> cv_locked v n" "cv_refs v n + 1 < 2 ^ 32" using assms(2) by (auto simp: quiet_def v_def)
  obtain b t1 where 1: "bread d n s = Ok b t1" "cache_ok d p t1" "owns d n b p t1" "blk_frame s t1"
    "cview d t1 = v\<lparr>cv_refs := (cv_refs v)(n := cv_refs v n + 1), cv_locked := (cv_locked v)(n := True)\<rparr>"
    using bread_spec [OF assms(1)] q assms(3) unfolding v_def by blast
  obtain t2 where 2: "upd_buf b (\<lambda>x. x\<lparr>b_data := g (b_data x)\<rparr>) t1 = Ok () t2" "cache_ok d p t2" "blk_frame t1 t2"
    "owns d n b p t2" "cview d t2 = (cview d t1)\<lparr>cv_blk := (cv_blk (cview d t1))(n := g (cv_blk (cview d t1) n))\<rparr>"
    using set_data_spec [OF 1(2,3)] 1(3) by blast
  obtain t3 where 3: "bwrite b t2 = Ok () t3" "cache_ok d p t3" "blk_frame t2 t3" "owns d n b p t3"
    "cview d t3 = (cview d t2)\<lparr>cv_disk := (cv_disk (cview d t2))(n := cv_blk (cview d t2) n),
        cv_writes := cv_writes (cview d t2) @ [(n, cv_blk (cview d t2) n)]\<rparr>"
    using bwrite_spec [OF 2(2,4)] 2(4) by blast
  have "cv_blk (cview d t3) n = cv_disk (cview d t3) n" by (simp add: 3(5))
  then obtain t4 where 4: "brelse b t3 = Ok () t4" "cache_ok d p t4" "blk_frame t3 t4"
    "cview d t4 = (cview d t3)\<lparr>cv_refs := (cv_refs (cview d t3))(n := cv_refs (cview d t3) n - 1),
        cv_locked := (cv_locked (cview d t3))(n := False)\<rparr>"
    using brelse_spec [OF 3(2,4)] by blast
  have "cv_blk v n = disk s n" using clean_block [OF assms(1,4)] by (simp add: v_def)
  then have "cview d t4 = stored n (g (disk s n)) v"
    using q(1) by (intro cview_eqI) (simp_all only: 4(4) 3(5) 2(5) 1(5), simp_all add: stored_def)
  moreover have "blk_frame s t4" using 1(4) 2(3) 3(3) 4(3) by (blast intro: blk_frame_trans)
  ultimately show ?thesis using 1(1) 2(1) 3(1) 4(1,2) by (simp add: v_def)
qed

text \<open>Reading two blocks.\<close>

lemma read_two:
  assumes "cache_ok d p s" "quiet (cview d s)" "in_use (cview d s) < NBUF" "a \<noteq> h"
    "0 < cv_refs (cview d s) h \<or> in_use (cview d s) + 1 < NBUF"
  shows "\<exists>x t1 y t2. bread d a s = Ok x t1 \<and> bread d h t1 = Ok y t2 \<and> cache_ok d p t2 \<and> blk_frame s t2
    \<and> owns d a x p t2 \<and> owns d h y p t2
    \<and> cview d t2 = (cview d s)\<lparr>cv_refs := (cv_refs (cview d s))(a := cv_refs (cview d s) a + 1, h := cv_refs (cview d s) h + 1),
        cv_locked := (cv_locked (cview d s))(a := True, h := True)\<rparr>"
proof -
  define v where "v = cview d s"
  have q: "\<not> cv_locked v n" "cv_refs v n + 1 < 2 ^ 32" for n using assms(2) by (auto simp: quiet_def v_def)
  obtain x t1 where 1: "bread d a s = Ok x t1" "cache_ok d p t1" "owns d a x p t1" "blk_frame s t1"
    "cview d t1 = v\<lparr>cv_refs := (cv_refs v)(a := cv_refs v a + 1), cv_locked := (cv_locked v)(a := True)\<rparr>"
    using bread_spec [OF assms(1)] q assms(3) unfolding v_def by blast
  have "in_use (cview d t1) \<le> in_use v + 1" using in_use_upd [of v a "cv_refs v a + 1"] by (simp add: 1(5) in_use_def)
  then have "0 < cv_refs (cview d t1) h \<or> in_use (cview d t1) < NBUF"
    using assms(4,5) by (auto simp: 1(5) v_def)
  moreover have "\<not> cv_locked (cview d t1) h" "cv_refs (cview d t1) h + 1 < 2 ^ 32" using q [of h] assms(4) by (auto simp: 1(5))
  ultimately obtain y t2 where 2: "bread d h t1 = Ok y t2" "cache_ok d p t2" "owns d h y p t2" "blk_frame t1 t2"
    "owns d a x p t2" "cview d t2 = (cview d t1)\<lparr>cv_refs := (cv_refs (cview d t1))(h := cv_refs (cview d t1) h + 1),
      cv_locked := (cv_locked (cview d t1))(h := True)\<rparr>"
    using bread_spec [OF 1(2)] 1(3) by blast
  have "cview d t2 = v\<lparr>cv_refs := (cv_refs v)(a := cv_refs v a + 1, h := cv_refs v h + 1),
        cv_locked := (cv_locked v)(a := True, h := True)\<rparr>"
    unfolding 2(6) 1(5) using assms(4) by (intro cview_eqI) auto
  moreover have "blk_frame s t2" using 1(4) 2(4) by (rule blk_frame_trans)
  ultimately show ?thesis using 1(1) 2(1-3,5) unfolding v_def by blast
qed

definition relsed :: "uint32 \<Rightarrow> cview \<Rightarrow> cview" where
  "relsed n v = v\<lparr>cv_refs := (cv_refs v)(n := cv_refs v n - 1), cv_locked := (cv_locked v)(n := False)\<rparr>"

text \<open>Releasing two blocks.\<close>

lemma release_two:
  assumes "cache_ok d p s" "owns d a x p s" "owns d b y p s" "a \<noteq> b"
    "1 < cv_refs (cview d s) a \<or> cv_blk (cview d s) a = cv_disk (cview d s) a"
    "1 < cv_refs (cview d s) b \<or> cv_blk (cview d s) b = cv_disk (cview d s) b"
  shows "\<exists>t. bnd (brelse x) (\<lambda>_. brelse y) s = Ok () t \<and> cache_ok d p t \<and> blk_frame s t
    \<and> cview d t = relsed b (relsed a (cview d s))"
proof -
  obtain t1 where 1: "brelse x s = Ok () t1" "cache_ok d p t1" "blk_frame s t1" "owns d b y p t1"
    "cview d t1 = relsed a (cview d s)"
    using brelse_spec [OF assms(1,2,5)] assms(3) assms(4) [symmetric] unfolding relsed_def by blast
  have "1 < cv_refs (cview d t1) b \<or> cv_blk (cview d t1) b = cv_disk (cview d t1) b"
    using assms(4,6) by (simp only: 1(5)) (simp add: relsed_def)
  then obtain t2 where 2: "brelse y t1 = Ok () t2" "cache_ok d p t2" "blk_frame t1 t2" "cview d t2 = relsed b (cview d t1)"
    using brelse_spec [OF 1(2,4)] unfolding relsed_def by blast
  have "blk_frame s t2" using 1(3) 2(3) by (rule blk_frame_trans)
  then show ?thesis using 1(1,5) 2(1,2,4) by simp
qed

lemma log_step:
  assumes "cache_ok d p s" "quiet (cview d s)" "in_use (cview d s) < NBUF" "a \<noteq> h" "0 < cv_refs (cview d s) h"
  shows "\<exists>t. bnd (bread d a) (\<lambda>x. bnd (bread d h) (\<lambda>y. bnd (copy_block x y) (\<lambda>_. bnd (bwrite x) (\<lambda>_.
      bnd (brelse y) (\<lambda>_. brelse x))))) s = Ok () t \<and> cache_ok d p t \<and> blk_frame s t
    \<and> cview d t = stored a (cv_blk (cview d s) h) (cview d s)"
proof -
  define v where "v = cview d s"
  obtain x t1 y t2 where 2: "bread d a s = Ok x t1" "bread d h t1 = Ok y t2" "cache_ok d p t2" "blk_frame s t2"
    "owns d a x p t2" "owns d h y p t2"
    "cview d t2 = v\<lparr>cv_refs := (cv_refs v)(a := cv_refs v a + 1, h := cv_refs v h + 1),
        cv_locked := (cv_locked v)(a := True, h := True)\<rparr>"
    using read_two [OF assms(1-4) disjI1 [OF assms(5)]] unfolding v_def by blast
  obtain t3 where 3: "copy_block x y t2 = Ok () t3" "cache_ok d p t3" "blk_frame t2 t3" "owns d a x p t3" "owns d h y p t3"
    "cview d t3 = (cview d t2)\<lparr>cv_blk := (cv_blk (cview d t2))(a := cv_blk (cview d t2) h)\<rparr>"
    using copy_spec [OF 2(3,5,6)] 2(5,6) by blast
  obtain t4 where 4: "bwrite x t3 = Ok () t4" "cache_ok d p t4" "blk_frame t3 t4" "owns d a x p t4" "owns d h y p t4"
    "cview d t4 = (cview d t3)\<lparr>cv_disk := (cv_disk (cview d t3))(a := cv_blk (cview d t3) a),
        cv_writes := cv_writes (cview d t3) @ [(a, cv_blk (cview d t3) a)]\<rparr>"
    using bwrite_spec [OF 3(2,4)] 3(4,5) by blast
  note v4 = 4(6) [unfolded 3(6) 2(7)]
  have "1 < cv_refs (cview d t4) h" "cv_blk (cview d t4) a = cv_disk (cview d t4) a"
    using assms(4,5) unfolding v4 by (simp_all add: v_def)
  then obtain t5 where 5: "bnd (brelse y) (\<lambda>_. brelse x) t4 = Ok () t5" "cache_ok d p t5" "blk_frame t4 t5"
    "cview d t5 = relsed a (relsed h (cview d t4))"
    using release_two [OF 4(2,5,4)] assms(4) by blast
  have "cview d t5 = stored a (cv_blk v h) v"
    unfolding 5(4) v4 using assms(2,4) by (intro cview_eqI) (auto simp: relsed_def stored_def quiet_def v_def)
  moreover have "blk_frame s t5" using 2(4) 3(3) 4(3) 5(3) by (blast intro: blk_frame_trans)
  ultimately show ?thesis using 2(1,2) 3(1) 4(1) 5(1,2) by (simp add: v_def)
qed

lemma install_step:
  assumes "cache_ok d p s" "quiet (cview d s)" "in_use (cview d s) < NBUF" "a \<noteq> h"
    "if recovering then in_use (cview d s) + 1 < NBUF else 0 < cv_refs (cview d s) h"
    "cv_refs (cview d s) a = 0"
  shows "\<exists>t. bnd (bread d a) (\<lambda>x. bnd (bread d h) (\<lambda>y. bnd (copy_block y x) (\<lambda>_. bnd (bwrite y) (\<lambda>_.
      bnd (whenk (\<not> recovering) (bunpin y)) (\<lambda>_. bnd (brelse x) (\<lambda>_. brelse y)))))) s = Ok () t
    \<and> cache_ok d p t \<and> blk_frame s t
    \<and> cview d t = (stored h (disk s a) (cview d s))
        \<lparr>cv_refs := (cv_refs (cview d s))(h := cv_refs (cview d s) h - (if recovering then 0 else 1))\<rparr>"
proof -
  define v where "v = cview d s"
  obtain x t1 y t2 where 2: "bread d a s = Ok x t1" "bread d h t1 = Ok y t2" "cache_ok d p t2" "blk_frame s t2"
    "owns d a x p t2" "owns d h y p t2"
    "cview d t2 = v\<lparr>cv_refs := (cv_refs v)(a := cv_refs v a + 1, h := cv_refs v h + 1),
        cv_locked := (cv_locked v)(a := True, h := True)\<rparr>"
    using read_two [OF assms(1-4)] assms(5) unfolding v_def by (auto split: if_splits)
  obtain t3 where 3: "copy_block y x t2 = Ok () t3" "cache_ok d p t3" "blk_frame t2 t3" "owns d a x p t3" "owns d h y p t3"
    "cview d t3 = (cview d t2)\<lparr>cv_blk := (cv_blk (cview d t2))(h := cv_blk (cview d t2) a)\<rparr>"
    using copy_spec [OF 2(3,6,5)] 2(5,6) by blast
  obtain t4 where 4: "bwrite y t3 = Ok () t4" "cache_ok d p t4" "blk_frame t3 t4" "owns d a x p t4" "owns d h y p t4"
    "cview d t4 = (cview d t3)\<lparr>cv_disk := (cv_disk (cview d t3))(h := cv_blk (cview d t3) h),
        cv_writes := cv_writes (cview d t3) @ [(h, cv_blk (cview d t3) h)]\<rparr>"
    using bwrite_spec [OF 3(2,5)] 3(4,5) by blast
  note v4 = 4(6) [unfolded 3(6) 2(7)]
  obtain t5 where 5: "whenk (\<not> recovering) (bunpin y) t4 = Ok () t5" "cache_ok d p t5" "blk_frame t4 t5"
    "owns d a x p t5" "owns d h y p t5"
    "cview d t5 = (cview d t4)\<lparr>cv_refs := (cv_refs (cview d t4))(h := cv_refs (cview d t4) h - (if recovering then 0 else 1))\<rparr>"
  proof (cases recovering)
    case True
    then show ?thesis using that [of t4] 4(2,4,5) by simp
  next
    case False
    then have "1 < cv_refs (cview d t4) h" using assms(5) unfolding v4 by (simp add: v_def)
    from bunpin_spec [OF 4(2,5) this] show ?thesis using that False 4(4,5) by auto
  qed
  note v5 = 5(6) [unfolded v4]
  have "cv_blk v a = disk s a" using clean_block [OF assms(1,6)] by (simp add: v_def)
  then have ca: "cv_blk (cview d t5) a = cv_disk (cview d t5) a" "cv_blk (cview d t5) h = cv_disk (cview d t5) h"
    using assms(4) unfolding v5 by (simp_all add: v_def)
  then obtain t6 where 6: "bnd (brelse x) (\<lambda>_. brelse y) t5 = Ok () t6" "cache_ok d p t6" "blk_frame t5 t6"
    "cview d t6 = relsed h (relsed a (cview d t5))"
    using release_two [OF 5(2,4,5)] assms(4) by blast
  have "cview d t6 = (stored h (disk s a) v)\<lparr>cv_refs := (cv_refs v)(h := cv_refs v h - (if recovering then 0 else 1))\<rparr>"
    unfolding 6(4) v5 using assms(2,4) \<open>cv_blk v a = disk s a\<close>
    by (intro cview_eqI) (auto simp: relsed_def stored_def quiet_def v_def)
  moreover have "blk_frame s t6" using 2(4) 3(3) 4(3) 5(3) 6(3) by (blast intro: blk_frame_trans)
  ultimately show ?thesis using 2(1,2) 3(1) 4(1) 5(1) 6(1,2) by (simp add: v_def)
qed

section \<open>The loops\<close>

lemma blk_frame_log:
  "blk_frame s t \<Longrightarrow> log_dev t = log_dev s \<and> log_start t = log_start s \<and> log_size t = log_size s \<and>
    lh_n t = lh_n s \<and> lh_block t = lh_block s \<and> log_outstanding t = log_outstanding s \<and>
    log_committing t = log_committing s"
  by (auto simp: blk_frame_def)

definition stores :: "(uint32 \<times> uint8 list) list \<Rightarrow> cview \<Rightarrow> cview" where
  "stores ws v = fold (\<lambda>(n, x). stored n x) ws v"

lemma stores_simps [simp]:
  "stores [] v = v" "stores ((n, x) # ws) v = stores ws (stored n x v)"
  "stores (us @ ws) v = stores ws (stores us v)"
  by (simp_all add: stores_def)

lemma stored_fields [simp]:
  "cv_blk (stored n x v) = (cv_blk v)(n := x)" "cv_disk (stored n x v) = (cv_disk v)(n := x)"
  "cv_refs (stored n x v) = cv_refs v" "cv_locked (stored n x v) = cv_locked v"
  "cv_writes (stored n x v) = cv_writes v @ [(n, x)]"
  by (simp_all add: stored_def)

lemma stores_fields [simp]:
  "cv_blk (stores ws v) = apply_writes ws (cv_blk v)" "cv_disk (stores ws v) = apply_writes ws (cv_disk v)"
  "cv_refs (stores ws v) = cv_refs v" "cv_locked (stores ws v) = cv_locked v"
  "cv_writes (stores ws v) = cv_writes v @ ws"
  by (induction ws arbitrary: v) auto

lemma stored_refs: "stored n x (v\<lparr>cv_refs := r\<rparr>) = (stored n x v)\<lparr>cv_refs := r\<rparr>"
  by (intro cview_eqI) simp_all

lemma stores_refs: "stores ws (v\<lparr>cv_refs := r\<rparr>) = (stores ws v)\<lparr>cv_refs := r\<rparr>"
  by (intro cview_eqI) simp_all

lemma view_preds [simp]:
  "quiet (stored n x v) = quiet v" "in_use (stored n x v) = in_use v"
  "quiet (stores ws v) = quiet v" "in_use (stores ws v) = in_use v"
  by (simp_all add: quiet_def in_use_def)

lemma bnd_gets: "bnd (gets f) g s = g (f s) s"
  by simp

lemma write_log_loop_Suc:
  assumes "log_dev s = d" "log_start s = st" "lh_block s = bl" "tail < length bl"
  shows "write_log_loop (Suc k) tail s = bnd (bnd (bread d (log_slot st tail)) (\<lambda>x. bnd (bread d (bl ! tail)) (\<lambda>y.
      bnd (copy_block x y) (\<lambda>_. bnd (bwrite x) (\<lambda>_. bnd (brelse y) (\<lambda>_. brelse x))))))
      (\<lambda>_. write_log_loop k (Suc tail)) s"
  using assms by (simp add: bnd_gets bnd_assoc log_slot_def del: bnd_app)

lemma write_log_loop_spec:
  assumes "cache_ok d p s" "log_dev s = d" "log_start s = st" "lh_block s = bl" "quiet (cview d s)"
    "in_use (cview d s) < NBUF" "tail + k \<le> length bl"
    "\<And>i. tail \<le> i \<Longrightarrow> i < tail + k \<Longrightarrow> 0 < cv_refs (cview d s) (bl ! i)"
    "\<And>i j. i < tail + k \<Longrightarrow> j < tail + k \<Longrightarrow> log_slot st i \<noteq> bl ! j"
  shows "\<exists>t. write_log_loop k tail s = Ok () t \<and> cache_ok d p t \<and> blk_frame s t
    \<and> cview d t = stores (map (\<lambda>i. (log_slot st i, cv_blk (cview d s) (bl ! i))) [tail..<tail + k]) (cview d s)"
  using assms
proof (induction k arbitrary: tail s)
  case 0
  then show ?case by simp
next
  case (Suc k)
  let ?a = "log_slot st tail" and ?h = "bl ! tail" and ?x = "cv_blk (cview d s) (bl ! tail)"
  have ah: "?a \<noteq> ?h" and rh: "0 < cv_refs (cview d s) ?h" using Suc.prems(8,9) by simp_all
  from log_step [OF Suc.prems(1,5,6) ah rh] obtain t where
    t: "bnd (bread d ?a) (\<lambda>x. bnd (bread d ?h) (\<lambda>y. bnd (copy_block x y) (\<lambda>_. bnd (bwrite x) (\<lambda>_.
      bnd (brelse y) (\<lambda>_. brelse x))))) s = Ok () t" "cache_ok d p t" "blk_frame s t"
      "cview d t = stored ?a ?x (cview d s)"
    by blast
  note f = blk_frame_log [OF t(3)]
  have "\<exists>u. write_log_loop k (Suc tail) t = Ok () u \<and> cache_ok d p u \<and> blk_frame t u
    \<and> cview d u = stores (map (\<lambda>i. (log_slot st i, cv_blk (cview d t) (bl ! i))) [Suc tail..<Suc tail + k]) (cview d t)"
    by (rule Suc.IH) (use t(2) f Suc.prems in \<open>simp_all add: t(4)\<close>)
  then obtain u where u: "write_log_loop k (Suc tail) t = Ok () u" "cache_ok d p u" "blk_frame t u"
    "cview d u = stores (map (\<lambda>i. (log_slot st i, cv_blk (cview d t) (bl ! i))) [Suc tail..<Suc tail + k]) (cview d t)"
    by blast
  have "cv_blk (cview d t) (bl ! i) = cv_blk (cview d s) (bl ! i)" if "i < tail + Suc k" for i
    using Suc.prems(9) [of tail i] that by (auto simp: t(4))
  then have m: "map (\<lambda>i. (log_slot st i, cv_blk (cview d t) (bl ! i))) [Suc tail..<Suc tail + k] =
      map (\<lambda>i. (log_slot st i, cv_blk (cview d s) (bl ! i))) [Suc tail..<Suc tail + k]" by auto
  have c: "[tail..<tail + Suc k] = tail # [Suc tail..<Suc tail + k]" by (simp add: upt_conv_Cons)
  have "cview d u = stores (map (\<lambda>i. (log_slot st i, cv_blk (cview d s) (bl ! i))) [tail..<tail + Suc k]) (cview d s)"
    unfolding u(4) m c by (simp only: t(4) list.map stores_simps)
  moreover have "write_log_loop (Suc k) tail s = Ok () u"
    using write_log_loop_Suc [OF Suc.prems(2-4)] Suc.prems(7) t(1) u(1) by simp
  moreover have "blk_frame s u" using t(3) u(3) by (rule blk_frame_trans)
  ultimately show ?case using u(2) by blast
qed

definition unpin :: "bool \<Rightarrow> uint32 list \<Rightarrow> (uint32 \<Rightarrow> nat) \<Rightarrow> uint32 \<Rightarrow> nat" where
  \<comment> \<open>the references left after \<^verbatim>\<open>install_trans\<close>\<close>
  "unpin recovering hs r = (\<lambda>n. if \<not> recovering \<and> n \<in> set hs then r n - 1 else r n)"

lemma install_trans_loop_Suc:
  assumes "log_dev s = d" "log_start s = st" "lh_block s = bl" "tail < length bl"
  shows "install_trans_loop recovering (Suc k) tail s =
    bnd (bnd (bread d (log_slot st tail)) (\<lambda>x. bnd (bread d (bl ! tail)) (\<lambda>y. bnd (copy_block y x) (\<lambda>_. bnd (bwrite y) (\<lambda>_.
      bnd (whenk (\<not> recovering) (bunpin y)) (\<lambda>_. bnd (brelse x) (\<lambda>_. brelse y)))))))
      (\<lambda>_. install_trans_loop recovering k (Suc tail)) s"
  using assms by (simp add: bnd_gets bnd_assoc log_slot_def del: bnd_app)

lemma quiet_le: "quiet v \<Longrightarrow> (\<And>n. r n \<le> cv_refs v n) \<Longrightarrow> quiet (v\<lparr>cv_refs := r\<rparr>)"
  by (auto simp: quiet_def) (meson add_mono_thms_linordered_semiring(3) Suc_le_mono order_le_less_trans)

lemma in_use_le: "(\<And>n. r n \<le> cv_refs v n) \<Longrightarrow> in_use (v\<lparr>cv_refs := r\<rparr>) \<le> in_use v"
  unfolding in_use_def by (intro card_mono) (auto intro: less_le_trans)

lemma install_trans_loop_spec:
  assumes "cache_ok d p s" "log_dev s = d" "log_start s = st" "lh_block s = bl" "quiet (cview d s)"
    "in_use (cview d s) < NBUF" "tail + k \<le> length bl"
    "if recovering then in_use (cview d s) + 1 < NBUF
     else \<forall>i. tail \<le> i \<and> i < tail + k \<longrightarrow> 0 < cv_refs (cview d s) (bl ! i)"
    "\<And>i j. i < tail + k \<Longrightarrow> j < tail + k \<Longrightarrow> log_slot st i \<noteq> bl ! j"
    "\<And>i. i < tail + k \<Longrightarrow> cv_refs (cview d s) (log_slot st i) = 0" "distinct (take (tail + k) bl)"
  shows "\<exists>t. install_trans_loop recovering k tail s = Ok () t \<and> cache_ok d p t \<and> blk_frame s t
    \<and> cview d t = (stores (map (\<lambda>i. (bl ! i, disk s (log_slot st i))) [tail..<tail + k]) (cview d s))
        \<lparr>cv_refs := unpin recovering (map ((!) bl) [tail..<tail + k]) (cv_refs (cview d s))\<rparr>"
  using assms
proof (induction k arbitrary: tail s)
  case 0
  then show ?case by (simp add: unpin_def)
next
  case (Suc k)
  let ?a = "log_slot st tail" and ?h = "bl ! tail"
  let ?r = "(cv_refs (cview d s))(?h := cv_refs (cview d s) ?h - (if recovering then 0 else 1))"
  have ah: "?a \<noteq> ?h" using Suc.prems(9) by simp
  have pre: "if recovering then in_use (cview d s) + 1 < NBUF else 0 < cv_refs (cview d s) ?h" "cv_refs (cview d s) ?a = 0"
    using Suc.prems(8,10) by auto
  obtain t where t: "bnd (bread d ?a) (\<lambda>x. bnd (bread d ?h) (\<lambda>y. bnd (copy_block y x) (\<lambda>_. bnd (bwrite y) (\<lambda>_.
      bnd (whenk (\<not> recovering) (bunpin y)) (\<lambda>_. bnd (brelse x) (\<lambda>_. brelse y)))))) s = Ok () t"
      "cache_ok d p t" "blk_frame s t" "cview d t = (stored ?h (disk s ?a) (cview d s))\<lparr>cv_refs := ?r\<rparr>"
    using install_step [OF Suc.prems(1,5,6) ah pre] by blast
  note f = blk_frame_log [OF t(3)]
  have le: "?r n \<le> cv_refs (stored ?h (disk s ?a) (cview d s)) n" for n by simp
  have ne: "bl ! i \<noteq> ?h" if "tail < i" "i < tail + Suc k" for i
    using Suc.prems(7,11) that by (auto simp: distinct_conv_nth)
  have "\<exists>u. install_trans_loop recovering k (Suc tail) t = Ok () u \<and> cache_ok d p u \<and> blk_frame t u
    \<and> cview d u = (stores (map (\<lambda>i. (bl ! i, disk t (log_slot st i))) [Suc tail..<Suc tail + k]) (cview d t))
        \<lparr>cv_refs := unpin recovering (map ((!) bl) [Suc tail..<Suc tail + k]) (cv_refs (cview d t))\<rparr>"
  proof (rule Suc.IH)
    show "quiet (cview d t)" unfolding t(4) by (rule quiet_le) (use Suc.prems(5) in simp_all)
    have "in_use (cview d t) \<le> in_use (stored ?h (disk s ?a) (cview d s))" unfolding t(4) by (rule in_use_le) (rule le)
    then have "in_use (cview d t) \<le> in_use (cview d s)" by simp
    then show "in_use (cview d t) < NBUF" "if recovering then in_use (cview d t) + 1 < NBUF
      else \<forall>i. Suc tail \<le> i \<and> i < Suc tail + k \<longrightarrow> 0 < cv_refs (cview d t) (bl ! i)"
      using Suc.prems(6,8) ne by (auto simp: t(4))
  qed (use t(2) f Suc.prems(2-4,7,9-11) in \<open>auto simp: t(4)\<close>)
  then obtain u where u: "install_trans_loop recovering k (Suc tail) t = Ok () u" "cache_ok d p u" "blk_frame t u"
    "cview d u = (stores (map (\<lambda>i. (bl ! i, disk t (log_slot st i))) [Suc tail..<Suc tail + k]) (cview d t))
        \<lparr>cv_refs := unpin recovering (map ((!) bl) [Suc tail..<Suc tail + k]) (cv_refs (cview d t))\<rparr>"
    by blast
  have "disk t (log_slot st i) = disk s (log_slot st i)" if "i < tail + Suc k" for i
  proof -
    have "cv_disk (cview d t) (log_slot st i) = cv_disk (cview d s) (log_slot st i)"
      using Suc.prems(9) [of i tail] that by (simp only: t(4)) simp
    then show ?thesis by simp
  qed
  then have m: "map (\<lambda>i. (bl ! i, disk t (log_slot st i))) [Suc tail..<Suc tail + k] =
      map (\<lambda>i. (bl ! i, disk s (log_slot st i))) [Suc tail..<Suc tail + k]" by auto
  have c: "[tail..<tail + Suc k] = tail # [Suc tail..<Suc tail + k]" by (simp add: upt_conv_Cons)
  define S where "S = map ((!) bl) [Suc tail..<Suc tail + k]"
  have "?h \<notin> set S"
  proof
    assume "?h \<in> set S"
    then obtain i where "?h = bl ! i" "i \<in> set [Suc tail..<Suc tail + k]" unfolding S_def set_map by blast
    then show False using ne [of i] by auto
  qed
  then have "unpin recovering S ?r = unpin recovering (?h # S) (cv_refs (cview d s))"
    by (auto simp: unpin_def)
  then have r: "unpin recovering (map ((!) bl) [Suc tail..<Suc tail + k]) ?r =
      unpin recovering (map ((!) bl) [tail..<tail + Suc k]) (cv_refs (cview d s))"
    unfolding c list.map S_def .
  have rt: "cv_refs (cview d t) = ?r" by (simp only: t(4)) simp
  have "cview d u = (stores (map (\<lambda>i. (bl ! i, disk s (log_slot st i))) [tail..<tail + Suc k]) (cview d s))
      \<lparr>cv_refs := unpin recovering (map ((!) bl) [tail..<tail + Suc k]) (cv_refs (cview d s))\<rparr>"
    unfolding u(4) m rt r unfolding c by (simp only: t(4) list.map stores_simps stores_refs) simp
  moreover have "install_trans_loop recovering (Suc k) tail s = Ok () u"
    using install_trans_loop_Suc [OF Suc.prems(2-4)] Suc.prems(7) t(1) u(1) by simp
  moreover have "blk_frame s u" using t(3) u(3) by (rule blk_frame_trans)
  ultimately show ?case using u(2) by blast
qed

end
