(* ===== verification/Crash.thy ===== *)
theory Crash
  imports Log_Commit Sample_Disk
begin

text \<open>
  Transactions of \<^verbatim>\<open>kernel/log.c\<close> are atomic.  The writes of a commit are the ones the redo log
  prescribes, recovery replays them, and so a crash between any two block writes loses the
  whole transaction or nothing of it.
\<close>

section \<open>Locks and the log fields are independent\<close>

lemma acq_klog [simp]:
  "log_start (acq l s) = log_start s" "log_size (acq l s) = log_size s" 
  "log_outstanding (acq l s) = log_outstanding s" "log_committing (acq l s) = log_committing s" 
  "log_dev (acq l s) = log_dev s" "lh_n (acq l s) = lh_n s" "lh_block (acq l s) = lh_block s"
  by (simp_all add: acq_def mach_defs)

lemma acq_klog_upd [simp]:
  "log_start_update f0 (acq l s) = acq l (log_start_update f0 s)" 
  "log_size_update f1 (acq l s) = acq l (log_size_update f1 s)" 
  "log_outstanding_update f2 (acq l s) = acq l (log_outstanding_update f2 s)" 
  "log_committing_update f3 (acq l s) = acq l (log_committing_update f3 s)" 
  "log_dev_update f4 (acq l s) = acq l (log_dev_update f4 s)" 
  "lh_n_update f5 (acq l s) = acq l (lh_n_update f5 s)" 
  "lh_block_update f6 (acq l s) = acq l (lh_block_update f6 s)"
  by (simp_all add: acq_def mach_defs)

lemma cpu_ok_klog [simp]:
  "cpu_ok (log_start_update f0 s) = cpu_ok s" "cpu_ok (log_size_update f1 s) = cpu_ok s" 
  "cpu_ok (log_outstanding_update f2 s) = cpu_ok s" 
  "cpu_ok (log_committing_update f3 s) = cpu_ok s" "cpu_ok (log_dev_update f4 s) = cpu_ok s" 
  "cpu_ok (lh_n_update f5 s) = cpu_ok s" "cpu_ok (lh_block_update f6 s) = cpu_ok s"
  by (simp_all add: cpu_ok_def intr_get_def mach_defs)

lemma lock_free_klog [simp]:
  "lock_free l (log_start_update f0 s) = lock_free l s" 
  "lock_free l (log_size_update f1 s) = lock_free l s" 
  "lock_free l (log_outstanding_update f2 s) = lock_free l s" 
  "lock_free l (log_committing_update f3 s) = lock_free l s" 
  "lock_free l (log_dev_update f4 s) = lock_free l s" 
  "lock_free l (lh_n_update f5 s) = lock_free l s" 
  "lock_free l (lh_block_update f6 s) = lock_free l s"
  by (simp_all add: lock_free_def)

lemma mycpu_klog [simp]:
  "mycpu (log_start_update f0 s) = mycpu s" "mycpu (log_size_update f1 s) = mycpu s" 
  "mycpu (log_outstanding_update f2 s) = mycpu s" "mycpu (log_committing_update f3 s) = mycpu s" 
  "mycpu (log_dev_update f4 s) = mycpu s" "mycpu (lh_n_update f5 s) = mycpu s" 
  "mycpu (lh_block_update f6 s) = mycpu s"
  by (simp_all add: mach_defs)

lemma running_klog [simp]:
  "running p (log_start_update f0 s) = running p s" 
  "running p (log_size_update f1 s) = running p s" 
  "running p (log_outstanding_update f2 s) = running p s" 
  "running p (log_committing_update f3 s) = running p s" 
  "running p (log_dev_update f4 s) = running p s" "running p (lh_n_update f5 s) = running p s" 
  "running p (lh_block_update f6 s) = running p s"
  by (simp_all add: running_def)

lemma procs_free_klog [simp]:
  "procs_free (log_start_update f0 s) = procs_free s" 
  "procs_free (log_size_update f1 s) = procs_free s" 
  "procs_free (log_outstanding_update f2 s) = procs_free s" 
  "procs_free (log_committing_update f3 s) = procs_free s" 
  "procs_free (log_dev_update f4 s) = procs_free s" "procs_free (lh_n_update f5 s) = procs_free s" 
  "procs_free (lh_block_update f6 s) = procs_free s"
  by (simp_all add: procs_free_def)

lemma hasblk_klog [simp]:
  "hasblk d n b (lh_n_update f s) = hasblk d n b s" "hasblk d n b (lh_block_update g s) = hasblk d n b s"
  "hasblk d n b (log_outstanding_update h s) = hasblk d n b s"
  "hasblk d n b (log_committing_update k s) = hasblk d n b s"
  by (simp_all add: hasblk_def)

lemma cview_klog [simp]:
  "cview d (lh_n_update f s) = cview d s" "cview d (lh_block_update g s) = cview d s"
  "cview d (log_outstanding_update h s) = cview d s" "cview d (log_committing_update k s) = cview d s"
  by (simp_all add: cview_def holder_def cong: option.case_cong if_cong)

lemma cache_ok_klog [simp]:
  "cache_ok d p (lh_n_update f s) = cache_ok d p s" "cache_ok d p (lh_block_update g s) = cache_ok d p s"
  "cache_ok d p (log_outstanding_update h s) = cache_ok d p s"
  "cache_ok d p (log_committing_update k s) = cache_ok d p s"
  by (simp_all add: cache_ok_def bcache_free_def cached_once_def)

lemma owns_klog [simp]:
  "owns d n b p (lh_n_update f s) = owns d n b p s" "owns d n b p (lh_block_update g s) = owns d n b p s"
  by (simp_all add: owns_def)

section \<open>The header\<close>

definition hdr_of :: "uint32 list \<Rightarrow> uint8 list \<Rightarrow> uint8 list" where
  \<comment> \<open>the header block that names \<open>hs\<close>, made from an old header block\<close>
  "hdr_of hs x = put_blocks (put32 x 0 (of_int (int (length hs)))) 0 hs"

lemma log_hdr_of: "length x = BSIZE \<Longrightarrow> length hs \<le> LOGSIZE \<Longrightarrow> log_hdr (hdr_of hs x) = hs"
  by (simp only: hdr_of_def log_hdr_put)

lemma length_hdr_of: "length x = BSIZE \<Longrightarrow> length hs \<le> LOGSIZE \<Longrightarrow> length (hdr_of hs x) = BSIZE"
  using put_blocks_spec(1) [of 0 hs "put32 x 0 (of_int (int (length hs)))"]
  by (simp add: hdr_of_def LOGSIZE_eq BSIZE_def)

lemma write_head_eq:
  assumes "log_dev s = d" "log_start s = st" "lh_n s = int (length hs)" "take (length hs) (lh_block s) = hs"
  shows "write_head s = bnd (bread d (of_int st)) (\<lambda>b.
    bnd (upd_buf b (\<lambda>x. x\<lparr>b_data := hdr_of hs (b_data x)\<rparr>)) (\<lambda>_. bnd (bwrite b) (\<lambda>_. brelse b))) s"
proof -
  have "length hs \<le> length (lh_block s)" by (metis assms(4) length_take min.bounded_iff order_refl)
  then show ?thesis using assms
    by (simp add: write_head_def bnd_gets hdr_of_def del: bnd_app)
qed

lemma write_head_spec:
  assumes "cache_ok d p s" "log_dev s = d" "log_start s = st" "lh_n s = int (length hs)"
    "take (length hs) (lh_block s) = hs" "quiet (cview d s)" "in_use (cview d s) < NBUF"
    "cv_refs (cview d s) (of_int st) = 0"
  shows "\<exists>t. write_head s = Ok () t \<and> cache_ok d p t \<and> blk_frame s t
    \<and> cview d t = stored (of_int st) (hdr_of hs (disk s (of_int st))) (cview d s)"
  unfolding write_head_eq [OF assms(2-5)] using store_step [OF assms(1,6-8), of "hdr_of hs"] .

section \<open>Commit\<close>

definition log_wf :: "uint32 \<Rightarrow> nat \<Rightarrow> int \<Rightarrow> 'a klog_scheme \<Rightarrow> bool" where
  \<comment> \<open>the log lies at \<open>st\<close>, nobody uses its blocks or has a buffer locked\<close>
  "log_wf d p st s \<longleftrightarrow> cache_ok d p s \<and> log_dev s = d \<and> log_start s = st \<and> length (lh_block s) = LOGSIZE
     \<and> quiet (cview d s) \<and> cv_refs (cview d s) (of_int st) = 0
     \<and> (\<forall>i < LOGSIZE. cv_refs (cview d s) (log_slot st i) = 0) \<and> length (disk s (of_int st)) = BSIZE"

definition trans_wf :: "uint32 \<Rightarrow> int \<Rightarrow> uint32 list \<Rightarrow> 'a klog_scheme \<Rightarrow> bool" where
  \<comment> \<open>the transaction consists of the blocks \<open>hs\<close>, all of them pinned and none in the log\<close>
  "trans_wf d st hs s \<longleftrightarrow> lh_n s = int (length hs) \<and> take (length hs) (lh_block s) = hs \<and> distinct hs
     \<and> length hs \<le> LOGSIZE \<and> (\<forall>h \<in> set hs. 0 < cv_refs (cview d s) h)"

lemma log_slot_free:
  assumes "log_wf d p st s" "trans_wf d st hs s"
  shows "of_int st \<notin> set hs" "i < LOGSIZE \<Longrightarrow> log_slot st i \<notin> set hs"
  using assms by (auto simp: log_wf_def trans_wf_def)

lemma write_log_spec:
  assumes "log_wf d p st s" "trans_wf d st hs s" "in_use (cview d s) < NBUF"
  shows "\<exists>t. write_log s = Ok () t \<and> cache_ok d p t \<and> blk_frame s t \<and> cview d t =
    stores (map (\<lambda>i. (log_slot st i, cv_blk (cview d s) (hs ! i))) [0..<length hs]) (cview d s)"
proof -
  have w: "cache_ok d p s" "log_dev s = d" "log_start s = st" "quiet (cview d s)" "length (lh_block s) = LOGSIZE"
    "nat (lh_n s) = length hs" "length hs \<le> LOGSIZE" and tk: "take (length hs) (lh_block s) = hs"
    using assms by (auto simp: log_wf_def trans_wf_def)
  have nth: "lh_block s ! i = hs ! i" if "i < length hs" for i by (metis nth_take tk that)
  have m: "map (\<lambda>i. (log_slot st i, cv_blk (cview d s) (lh_block s ! i))) [0..<length hs] =
      map (\<lambda>i. (log_slot st i, cv_blk (cview d s) (hs ! i))) [0..<length hs]" using nth by simp
  have "\<exists>t. write_log_loop (length hs) 0 s = Ok () t \<and> cache_ok d p t \<and> blk_frame s t \<and> cview d t =
      stores (map (\<lambda>i. (log_slot st i, cv_blk (cview d s) (lh_block s ! i))) [0..<0 + length hs]) (cview d s)"
  proof (rule write_log_loop_spec [OF w(1-3) refl w(4) assms(3)])
    show "0 < cv_refs (cview d s) (lh_block s ! i)" if "i < 0 + length hs" for i
      using assms(2) nth that by (simp add: trans_wf_def)
    show "log_slot st i \<noteq> lh_block s ! j" if "i < 0 + length hs" "j < 0 + length hs" for i j
      using log_slot_free(2) [OF assms(1,2), of i] nth [of j] nth_mem [of j hs] that w(7) by auto
  qed (use w(5,7) in simp)
  then show ?thesis by (simp add: write_log_def w(6) m)
qed

lemma install_trans_spec:
  assumes "log_wf d p st s" "trans_wf d st hs s \<or> recovering \<and> lh_n s = int (length hs) \<and>
      take (length hs) (lh_block s) = hs \<and> distinct hs \<and> length hs \<le> LOGSIZE \<and>
      (\<forall>i < LOGSIZE. log_slot st i \<notin> set hs)"
    "in_use (cview d s) + (if recovering then 1 else 0) < NBUF"
  shows "\<exists>t. install_trans recovering s = Ok () t \<and> cache_ok d p t \<and> blk_frame s t \<and> cview d t =
    (stores (map (\<lambda>i. (hs ! i, disk s (log_slot st i))) [0..<length hs]) (cview d s))
      \<lparr>cv_refs := unpin recovering hs (cv_refs (cview d s))\<rparr>"
proof -
  have w: "cache_ok d p s" "log_dev s = d" "log_start s = st" "quiet (cview d s)" "length (lh_block s) = LOGSIZE"
    "nat (lh_n s) = length hs" "length hs \<le> LOGSIZE" "distinct hs"
    "\<And>i. i < LOGSIZE \<Longrightarrow> cv_refs (cview d s) (log_slot st i) = 0" and tk: "take (length hs) (lh_block s) = hs"
    using assms by (auto simp: log_wf_def trans_wf_def)
  have sl: "i < LOGSIZE \<Longrightarrow> log_slot st i \<notin> set hs" for i using assms(2) log_slot_free(2) [OF assms(1)] by blast
  have nth: "lh_block s ! i = hs ! i" if "i < length hs" for i by (metis nth_take tk that)
  have m: "map (\<lambda>i. (lh_block s ! i, disk s (log_slot st i))) [0..<length hs] =
      map (\<lambda>i. (hs ! i, disk s (log_slot st i))) [0..<length hs]"
    "map ((!) (lh_block s)) [0..<length hs] = hs" using nth by (auto intro: nth_equalityI)
  have "\<exists>t. install_trans_loop recovering (length hs) 0 s = Ok () t \<and> cache_ok d p t \<and> blk_frame s t \<and> cview d t =
    (stores (map (\<lambda>i. (lh_block s ! i, disk s (log_slot st i))) [0..<0 + length hs]) (cview d s))
      \<lparr>cv_refs := unpin recovering (map ((!) (lh_block s)) [0..<0 + length hs]) (cv_refs (cview d s))\<rparr>"
  proof (rule install_trans_loop_spec [OF w(1-3) refl w(4)])
    show "if recovering then in_use (cview d s) + 1 < NBUF
        else \<forall>i. 0 \<le> i \<and> i < 0 + length hs \<longrightarrow> 0 < cv_refs (cview d s) (lh_block s ! i)"
      using assms(2,3) nth by (auto simp: trans_wf_def)
    show "log_slot st i \<noteq> lh_block s ! j" if "i < 0 + length hs" "j < 0 + length hs" for i j
      using sl [of i] nth [of j] nth_mem [of j hs] that w(7) by auto
    show "cv_refs (cview d s) (log_slot st i) = 0" if "i < 0 + length hs" for i using that w(7,9) by simp
    show "distinct (take (0 + length hs) (lh_block s))" using w(8) tk by simp
  qed (use w(5,7) assms(3) in \<open>auto split: if_splits\<close>)
  then show ?thesis by (simp add: install_trans_def w(6) m)
qed

lemma blk_frame_locks: "blk_frame s t \<Longrightarrow> lock_free l t = lock_free l s"
  by (auto simp: blk_frame_def)

lemma log_wf_frame:
  assumes "log_wf d p st s" "cache_ok d p t" "blk_frame s t" "quiet (cview d t)"
    "\<And>n. cv_refs (cview d t) n \<le> cv_refs (cview d s) n" "length (disk t (of_int st)) = BSIZE"
  shows "log_wf d p st t"
  using assms blk_frame_log [OF assms(3)] unfolding log_wf_def by (metis le_zero_eq)

text \<open>Clearing the log, the last step of a commit and of recovery.\<close>

lemma clear_log_spec:
  assumes "log_wf d p st s" "in_use (cview d s) < NBUF"
  shows "\<exists>t. bnd (modify (\<lambda>s. s\<lparr>lh_n := 0\<rparr>)) (\<lambda>_. write_head) s = Ok () t \<and> log_wf d p st t \<and> lh_n t = 0
    \<and> log_outstanding t = log_outstanding s \<and> (\<forall>l. lock_free l t = lock_free l s)
    \<and> cview d t = stored (of_int st) (hdr_of [] (disk s (of_int st))) (cview d s)"
proof -
  let ?s = "s\<lparr>lh_n := 0\<rparr>"
  have l: "log_wf d p st ?s" using assms(1) by (simp add: log_wf_def)
  then obtain t where t: "write_head ?s = Ok () t" "cache_ok d p t" "blk_frame ?s t"
    "cview d t = stored (of_int st) (hdr_of [] (disk s (of_int st))) (cview d s)"
    using write_head_spec [of d p ?s st "[]"] assms(2) by (auto simp: log_wf_def)
  have "disk t (of_int st) = hdr_of [] (disk s (of_int st))" using arg_cong [OF t(4), of "\<lambda>v. cv_disk v (of_int st)"] by simp
  then have "log_wf d p st t"
    using log_wf_frame [OF l t(2,3)] assms(1) length_hdr_of [of _ "[]"] by (simp add: t(4) log_wf_def)
  then show ?thesis using t(1,4) blk_frame_log [OF t(3)] blk_frame_locks [OF t(3)] by simp
qed

lemma unpin_le: "unpin r hs f n \<le> f n" by (simp add: unpin_def)

lemma commit_spec:
  assumes "log_wf d p st s" "trans_wf d st hs s" "in_use (cview d s) < NBUF" "hs \<noteq> []"
    "h1 = hdr_of hs (disk s (of_int st))" "h0 = hdr_of [] h1"
  shows "\<exists>t. commit s = Ok () t \<and> log_wf d p st t \<and> lh_n t = 0 \<and> log_outstanding t = log_outstanding s
    \<and> (\<forall>l. lock_free l t = lock_free l s)
    \<and> cview d t = (stores (commit_writes (of_int st) (log_slot st) hs (cv_blk (cview d s)) h1 h0) (cview d s))
        \<lparr>cv_refs := unpin False hs (cv_refs (cview d s))\<rparr>"
proof -
  define v lw where "v = cview d s" and "lw = map (\<lambda>i. (log_slot st i, cv_blk v (hs ! i))) [0..<length hs]"
  have w: "cache_ok d p s" "log_dev s = d" "log_start s = st" "quiet v" "length (lh_block s) = LOGSIZE"
    "length (disk s (of_int st)) = BSIZE" "length hs \<le> LOGSIZE" "lh_n s = int (length hs)"
    "take (length hs) (lh_block s) = hs" "distinct hs" "\<And>h. h \<in> set hs \<Longrightarrow> 0 < cv_refs v h"
    "cv_refs v (of_int st) = 0"
    using assms(1,2) by (auto simp: log_wf_def trans_wf_def v_def)
  note sl = log_slot_free [OF assms(1,2)]
  obtain t1 where 1: "write_log s = Ok () t1" "cache_ok d p t1" "blk_frame s t1" "cview d t1 = stores lw v"
    using write_log_spec [OF assms(1-3)] unfolding lw_def v_def by blast
  note f1 = blk_frame_log [OF 1(3)]
  have d1: "disk t1 = apply_writes lw (disk s)" using arg_cong [OF 1(4), of cv_disk] by (simp add: v_def)
  have st: "disk t1 (of_int st) = disk s (of_int st)"
    unfolding d1
  proof (rule apply_writes_other)
    have "(of_int st :: uint32) \<noteq> log_slot st i" if "i < length hs" for i
      using redo.slot_start [of i st] that w(7) by simp
    then show "of_int st \<notin> fst ` set lw" unfolding lw_def set_map image_image by force
  qed
  obtain t2 where 2: "write_head t1 = Ok () t2" "cache_ok d p t2" "blk_frame t1 t2"
    "cview d t2 = stored (of_int st) h1 (stores lw v)"
    using write_head_spec [OF 1(2), of st hs] f1 w assms(3) unfolding assms(5) st [symmetric]
    by (auto simp: 1(4) v_def)
  note f2 = blk_frame_log [OF 2(3)]
  have d2: "disk t2 = (disk t1)(of_int st := h1)" using arg_cong [OF 2(4), of cv_disk] by (simp add: v_def d1)
  have "disk t2 (log_slot st i) = cv_blk v (hs ! i)" if "i < length hs" for i
    using redo.slot_start [of i st] redo.logged_slots [OF w(7) that, of st "cv_blk v" "disk s"] that w(7)
    by (simp add: d2 d1 lw_def)
  then have hw: "map (\<lambda>i. (hs ! i, disk t2 (log_slot st i))) [0..<length hs] = map (\<lambda>h. (h, cv_blk v h)) hs"
    by (auto intro: nth_equalityI)
  have len: "length h1 = BSIZE" using length_hdr_of w(6,7) by (simp add: assms(5))
  have "log_wf d p st t1" by (rule log_wf_frame [OF assms(1) 1(2,3)]) (simp_all add: 1(4) w(4,6) st v_def [symmetric])
  then have l2: "log_wf d p st t2"
    by (rule log_wf_frame [OF _ 2(2,3)]) (simp_all add: 1(4) 2(4) w(4) d2 len)
  moreover have "trans_wf d st hs t2" using assms(2) f1 f2 by (simp add: trans_wf_def 2(4) v_def)
  ultimately obtain t3 where 3: "install_trans False t2 = Ok () t3" "cache_ok d p t3" "blk_frame t2 t3"
    "cview d t3 = (stores (map (\<lambda>h. (h, cv_blk v h)) hs) (stored (of_int st) h1 (stores lw v)))
      \<lparr>cv_refs := unpin False hs (cv_refs v)\<rparr>"
    using install_trans_spec [of d p st t2 hs False] assms(3) by (auto simp: 2(4) hw v_def)
  note f3 = blk_frame_log [OF 3(3)]
  have d3: "disk t3 (of_int st) = h1"
  proof -
    have "disk t3 (of_int st) = cv_disk (cview d t3) (of_int st)" by simp
    also have "\<dots> = h1" unfolding 3(4) by (simp add: apply_writes_list [OF w(10)] sl(1))
    finally show ?thesis .
  qed
  define v3 where "v3 = stores (map (\<lambda>h. (h, cv_blk v h)) hs) (stored (of_int st) h1 (stores lw v))"
  have le: "unpin False hs (cv_refs v) n \<le> cv_refs v3 n" for n by (simp add: v3_def unpin_le)
  have q: "quiet (cview d t3)" unfolding 3(4) v3_def [symmetric] by (rule quiet_le) (simp_all add: unpin_le w(4) v3_def)
  have "in_use (cview d t3) \<le> in_use v3" unfolding 3(4) v3_def [symmetric] by (rule in_use_le) (rule le)
  then have u: "in_use (cview d t3) < NBUF" using assms(3) by (simp add: v3_def v_def)
  have "log_wf d p st t3" by (rule log_wf_frame [OF l2 3(2,3) q]) (simp_all add: 2(4) 3(4) unpin_le d3 len)
  from clear_log_spec [OF this u] obtain t4 where 4: "bnd (modify (\<lambda>s. s\<lparr>lh_n := 0\<rparr>)) (\<lambda>_. write_head) t3 = Ok () t4"
    "log_wf d p st t4" "lh_n t4 = 0" "log_outstanding t4 = log_outstanding t3 \<and> (\<forall>l. lock_free l t4 = lock_free l t3)"
    "cview d t4 = stored (of_int st) h0 (cview d t3)" unfolding d3 assms(6) [symmetric] by blast
  have "commit s = Ok () t4" using 1(1) 2(1) 3(1) 4(1) w(8) assms(4) by (simp add: commit_def)
  moreover have "cview d t4 = (stores (commit_writes (of_int st) (log_slot st) hs (cv_blk v) h1 h0) v)
        \<lparr>cv_refs := unpin False hs (cv_refs v)\<rparr>"
    unfolding 4(5) 3(4) by (simp add: commit_writes_def lw_def stored_refs)
  ultimately show ?thesis using 4(2-4) f1 f2 f3 blk_frame_locks [OF 1(3)] blk_frame_locks [OF 2(3)]
      blk_frame_locks [OF 3(3)] unfolding v_def by (intro exI [of _ t4]) simp
qed

section \<open>Recovery\<close>

lemma read_blocks_spec:
  assumes "i + k \<le> length (lh_block s)"
  shows "read_blocks k i d s = Ok () (s\<lparr>lh_block := take i (lh_block s) @
    map (\<lambda>j. get32 d (4 + 4 * j)) [i..<i + k] @ drop (i + k) (lh_block s)\<rparr>)"
  using assms
proof (induction k arbitrary: i s)
  case 0
  then show ?case by simp
next
  case (Suc k)
  let ?s = "s\<lparr>lh_block := (lh_block s)[i := get32 d (4 + 4 * i)]\<rparr>"
  have "read_blocks (Suc k) i d s = read_blocks k (Suc i) d ?s" using Suc.prems by simp
  also have "\<dots> = Ok () (?s\<lparr>lh_block := take (Suc i) (lh_block ?s) @
      map (\<lambda>j. get32 d (4 + 4 * j)) [Suc i..<Suc i + k] @ drop (Suc i + k) (lh_block ?s)\<rparr>)"
    by (rule Suc.IH) (use Suc.prems in simp)
  also have "take (Suc i) (lh_block ?s) = take i (lh_block s) @ [get32 d (4 + 4 * i)]"
    using Suc.prems by (simp add: take_Suc_conv_app_nth)
  also have "drop (Suc i + k) (lh_block ?s) = drop (i + Suc k) (lh_block s)" by simp
  finally have "read_blocks (Suc k) i d s = Ok () (s\<lparr>lh_block := (take i (lh_block s) @ [get32 d (4 + 4 * i)]) @
      map (\<lambda>j. get32 d (4 + 4 * j)) [Suc i..<Suc i + k] @ drop (i + Suc k) (lh_block s)\<rparr>)"
    by (simp del: read_blocks.simps upt_Suc)
  moreover have "[i..<i + Suc k] = i # [Suc i..<Suc i + k]" by (simp add: upt_conv_Cons)
  ultimately show ?case by (simp only: list.map append_Cons append_Nil append_assoc)
qed

definition booted :: "uint32 \<Rightarrow> nat \<Rightarrow> int \<Rightarrow> 'a klog_scheme \<Rightarrow> bool" where
  \<comment> \<open>the state in which \<^verbatim>\<open>initlog\<close> calls \<^verbatim>\<open>recover_from_log\<close>: no block is in use\<close>
  "booted d p st s \<longleftrightarrow> log_wf d p st s \<and> (\<forall>n. cv_refs (cview d s) n = 0)"

lemma booted_clean: "booted d p st s \<Longrightarrow> cv_blk (cview d s) = disk s" "booted d p st s \<Longrightarrow> in_use (cview d s) = 0"
  using clean_block [of d p s] by (auto simp: booted_def log_wf_def in_use_def)

lemma read_head_spec:
  assumes "booted d p st s" "hs = log_hdr (disk s (of_int st))" "length hs \<le> LOGSIZE"
    "0 \<le> sint (get32 (disk s (of_int st)) 0)"
  shows "\<exists>t. read_head s = Ok () t \<and> booted d p st t \<and> cview d t = cview d s
    \<and> lh_n t = int (length hs) \<and> take (length hs) (lh_block t) = hs"
proof -
  define v x where "v = cview d s" and "x = disk s (of_int st)"
  let ?b = "of_int st :: uint32"
  have w: "cache_ok d p s" "log_dev s = d" "log_start s = st" "quiet v" "length (lh_block s) = LOGSIZE"
    "cv_refs v n = 0" for n using assms(1) by (auto simp: booted_def log_wf_def v_def)
  have q: "\<not> cv_locked v ?b" "cv_refs v ?b + 1 < 2 ^ 32" using w(4) by (auto simp: quiet_def)
  have "in_use v < NBUF" using booted_clean(2) [OF assms(1)] by (simp add: v_def NBUF_def MAXOPBLOCKS_def)
  then obtain b t where t: "bread d ?b s = Ok b t" "cache_ok d p t" "owns d ?b b p t" "blk_frame s t"
    "cview d t = v\<lparr>cv_refs := (cv_refs v)(?b := cv_refs v ?b + 1), cv_locked := (cv_locked v)(?b := True)\<rparr>"
    using bread_spec [OF w(1)] q unfolding v_def by blast
  note f = blk_frame_log [OF t(4)]
  have bl: "cv_blk v = disk s" using booted_clean(1) [OF assms(1)] by (simp add: v_def)
  have x: "b_data (bufs t b) = x" using owns_refs(3) [OF t(2,3)] by (simp add: t(5) bl x_def)
  have n: "nat (sint (get32 x 0)) = length hs" "int (length hs) = sint (get32 x 0)"
    using assms(2,4) by (simp_all add: log_hdr_def x_def)
  let ?t = "t\<lparr>lh_n := int (length hs), lh_block := hs @ drop (length hs) (lh_block s)\<rparr>"
  have "map (\<lambda>j. get32 x (4 + 4 * j)) [0..<length hs] = hs" using assms(2) n by (simp add: log_hdr_def x_def)
  then have rb: "read_blocks (length hs) 0 x (t\<lparr>lh_n := int (length hs)\<rparr>) = Ok () ?t"
    using read_blocks_spec [of 0 "length hs" "t\<lparr>lh_n := int (length hs)\<rparr>" x] w(5) f assms(3) by simp
  have "cache_ok d p ?t" "owns d ?b b p ?t" using t(2,3) by simp_all
  moreover have "cv_blk (cview d ?t) ?b = cv_disk (cview d ?t) ?b" using bl by (simp add: t(5) v_def)
  ultimately obtain u where u: "brelse b ?t = Ok () u" "cache_ok d p u" "blk_frame ?t u"
    "cview d u = (cview d ?t)\<lparr>cv_refs := (cv_refs (cview d ?t))(?b := cv_refs (cview d ?t) ?b - 1),
      cv_locked := (cv_locked (cview d ?t))(?b := False)\<rparr>"
    using brelse_spec [of d p ?t ?b b] by blast
  note g = blk_frame_log [OF u(3)]
  have vu: "cview d u = v" unfolding u(4) using q(1) by (intro cview_eqI) (auto simp: t(5))
  have "read_head s = Ok () u" using t(1) u(1) rb w(2,3) n by (simp add: read_head_def getb_def x)
  moreover have "booted d p st u"
  proof -
    have "disk u = disk s" using arg_cong [OF vu, of cv_disk] by (simp add: v_def)
    then show ?thesis using assms(1) f g u(2) vu w(5) assms(3) by (simp add: booted_def log_wf_def v_def)
  qed
  ultimately show ?thesis using vu g unfolding v_def by (intro exI [of _ u]) simp
qed

lemma recover_spec:
  assumes "booted d p st s" "hs = log_hdr (disk s (of_int st))" "length hs \<le> LOGSIZE"
    "0 \<le> sint (get32 (disk s (of_int st)) 0)" "distinct hs" "of_int st \<notin> set hs"
    "\<forall>i < LOGSIZE. log_slot st i \<notin> set hs"
  shows "\<exists>t. recover_from_log s = Ok () t \<and> booted d p st t \<and> lh_n t = 0
    \<and> disk t = (replay log_hdr (of_int st) (log_slot st) (disk s))(of_int st := hdr_of [] (disk s (of_int st)))
    \<and> dwrites t = dwrites s @ replay_writes log_hdr (of_int st) (log_slot st) (disk s) @
        [(of_int st, hdr_of [] (disk s (of_int st)))]"
proof -
  let ?ws = "map (\<lambda>i. (hs ! i, disk s (log_slot st i))) [0..<length hs]"
  have ws: "replay_writes log_hdr (of_int st) (log_slot st) (disk s) = ?ws"
    by (simp add: replay_writes_def Let_def assms(2))
  obtain t1 where 1: "read_head s = Ok () t1" "booted d p st t1" "cview d t1 = cview d s"
    "lh_n t1 = int (length hs)" "take (length hs) (lh_block t1) = hs"
    using read_head_spec [OF assms(1-4)] by blast
  have d1: "disk t1 = disk s" using arg_cong [OF 1(3), of cv_disk] by simp
  have "log_wf d p st t1" "in_use (cview d t1) + (if True then 1 else 0) < NBUF"
    using 1(2) booted_clean(2) [OF 1(2)] by (simp_all add: booted_def NBUF_def MAXOPBLOCKS_def)
  moreover have "unpin True hs (cv_refs (cview d t1)) = cv_refs (cview d s)" by (simp add: unpin_def 1(3))
  ultimately obtain t2 where 2: "install_trans True t1 = Ok () t2" "cache_ok d p t2" "blk_frame t1 t2"
    "cview d t2 = (stores ?ws (cview d s))\<lparr>cv_refs := cv_refs (cview d s)\<rparr>"
    using install_trans_spec [of d p st t1 hs True] 1(3-5) d1 assms(3,5,7) by auto
  then have v2: "cview d t2 = stores ?ws (cview d s)" by simp
  have d2: "disk t2 (of_int st) = disk s (of_int st)"
  proof -
    have "cv_disk (cview d t2) (of_int st) = disk s (of_int st)"
      unfolding v2 stores_fields cview_disk by (rule apply_writes_other) (use assms(6) in auto)
    then show ?thesis by simp
  qed
  have z: "cv_refs (cview d t2) n = 0" for n using assms(1) by (simp add: v2 booted_def)
  have "log_wf d p st t2" using 1(2) assms(1) by (intro log_wf_frame [OF _ 2(2,3)]) (simp_all add: booted_def v2 z d2 log_wf_def)
  moreover have "in_use (cview d t2) < NBUF" by (simp add: in_use_def z NBUF_def MAXOPBLOCKS_def)
  ultimately obtain t3 where 3: "bnd (modify (\<lambda>s. s\<lparr>lh_n := 0\<rparr>)) (\<lambda>_. write_head) t2 = Ok () t3" "log_wf d p st t3"
    "lh_n t3 = 0" "cview d t3 = stored (of_int st) (hdr_of [] (disk s (of_int st))) (cview d t2)"
    using clear_log_spec [of d p st t2] unfolding d2 by blast
  have "recover_from_log s = Ok () t3" using 1(1) 2(1) 3(1) by (simp add: recover_from_log_def)
  moreover have "booted d p st t3" using 3(2) z by (simp add: booted_def 3(4))
  moreover have "disk t3 = cv_disk (cview d t3)" "dwrites t3 = cv_writes (cview d t3)" by simp_all
  ultimately show ?thesis using 3(3) unfolding 3(4) v2 replay_def ws
    by (intro exI [of _ t3]) simp
qed

section \<open>Crashes\<close>

lemma get32_hdr_of: "length x = BSIZE \<Longrightarrow> length hs \<le> LOGSIZE \<Longrightarrow> get32 (hdr_of hs x) 0 = of_int (int (length hs))"
  using put_blocks_spec(2) [of 0 hs "put32 x 0 (of_int (int (length hs)))" 0]
  by (simp add: hdr_of_def LOGSIZE_eq BSIZE_def)

lemma log_hdr_clear: "get32 x 0 = 0 \<Longrightarrow> log_hdr x = []" by (simp add: log_hdr_def)

lemma hdr_of_Nil: "length x = BSIZE \<Longrightarrow> hdr_of [] (hdr_of [] x) = hdr_of [] x"
  by (simp add: hdr_of_def put32_def put_bytes_def BSIZE_def)

text \<open>The header on a disk on which a commit was cut off.\<close>

lemma cut_header:
  assumes "length hs \<le> LOGSIZE" "of_int st \<notin> set hs" "length (D (of_int st)) = BSIZE" "get32 (D (of_int st)) 0 = 0"
    "h1 = hdr_of hs (D (of_int st))" "h0 = hdr_of [] h1"
    "E = apply_writes (take k (commit_writes (of_int st) (log_slot st) hs new h1 h0)) D"
  shows "log_hdr (E (of_int st)) \<in> {[], hs} \<and> 0 \<le> sint (get32 (E (of_int st)) 0)"
proof -
  have len: "length h1 = BSIZE" using length_hdr_of assms(1,3) by (simp add: assms(5))
  have "E (of_int st) = D (of_int st) \<or>
      (of_int st, E (of_int st)) \<in> set (commit_writes (of_int st) (log_slot st) hs new h1 h0)"
    using apply_writes_cases in_set_takeD unfolding assms(7) by fast
  moreover have "x = h1 \<or> x = h0"
    if x: "(of_int st, x) \<in> set (commit_writes (of_int st) (log_slot st) hs new h1 h0)" for x
  proof -
    have ns: "(of_int st :: uint32) \<noteq> log_slot st i" if "i < length hs" for i
      using redo.slot_start [of i st] that assms(1) by simp
    from x consider i where "i < length hs" "of_int st = log_slot st i" | "x = h1 \<or> x = h0" | "of_int st \<in> set hs"
      unfolding commit_writes_def by auto
    then show ?thesis using ns assms(2) by cases blast+
  qed
  ultimately have "E (of_int st) = D (of_int st) \<or> E (of_int st) = h1 \<or> E (of_int st) = h0" by blast
  moreover have "get32 h1 0 = of_int (int (length hs))" "log_hdr h1 = hs"
    using get32_hdr_of log_hdr_of assms(1,3) by (simp_all add: assms(5))
  moreover have "get32 h0 0 = 0" "log_hdr h0 = []" using get32_hdr_of [of h1 "[]"] log_hdr_of [of h1 "[]"] len by (simp_all add: assms(6))
  ultimately show ?thesis
    using assms(1,4) log_hdr_clear sint_small [of "length hs"] by (auto simp: LOGSIZE_eq)
qed

text \<open>
  C1.  A transaction is atomic.  \<^verbatim>\<open>commit\<close> returns; and if the machine crashes after any number
  \<open>k\<close> of its block writes, then \<^verbatim>\<open>recover_from_log\<close>, run on a machine booted from the disk
  as the crash left it, returns with a disk that outside the log is the disk before the
  transaction when not even the header had been written, and otherwise the disk with every
  block of the transaction in its new contents.
\<close>

theorem commit_crash_atomic:
  assumes "log_wf d p st s" "trans_wf d st hs s" "in_use (cview d s) < NBUF" "get32 (disk s (of_int st)) 0 = 0"
  shows "\<exists>t. commit s = Ok () t \<and> (\<forall>k q u. booted d q st u \<and>
      disk u = apply_writes (take k (drop (length (dwrites s)) (dwrites t))) (disk s) \<longrightarrow>
      (\<exists>u'. recover_from_log u = Ok () u' \<and> booted d q st u' \<and>
        (\<forall>n. n \<noteq> of_int st \<and> (\<forall>i < LOGSIZE. n \<noteq> log_slot st i) \<longrightarrow>
          disk u' n = (if length hs < k \<and> n \<in> set hs then cv_blk (cview d s) n else disk s n))))"
proof -
  define D h1 h0 where "D = disk s" and "h1 = hdr_of hs (D (of_int st))" and "h0 = hdr_of [] h1"
  define W where "W = (if hs = [] then [] else commit_writes (of_int st) (log_slot st) hs (cv_blk (cview d s)) h1 h0)"
  have w: "length hs \<le> LOGSIZE" "distinct hs" "length (D (of_int st)) = BSIZE" "lh_n s = int (length hs)"
    using assms(1,2) by (auto simp: log_wf_def trans_wf_def D_def)
  note sl = log_slot_free [OF assms(1,2)]
  have len: "length h1 = BSIZE" using length_hdr_of w(1,3) by (simp add: h1_def)
  obtain t where t: "commit s = Ok () t" "dwrites t = dwrites s @ W"
  proof (cases "hs = []")
    case True
    then show ?thesis using that [of s] w(4) by (simp add: commit_def W_def)
  next
    case False
    from commit_spec [OF assms(1-3) False refl refl] obtain t where c: "commit s = Ok () t"
      "cview d t = (stores W (cview d s))\<lparr>cv_refs := unpin False hs (cv_refs (cview d s))\<rparr>"
      unfolding W_def h0_def h1_def D_def using False by auto
    have "dwrites t = cv_writes (cview d t)" by simp
    then show ?thesis using that c unfolding c(2) by simp
  qed
  show ?thesis
  proof (intro exI [of _ t] conjI allI impI t(1))
    fix k q u
    assume u: "booted d q st u \<and> disk u = apply_writes (take k (drop (length (dwrites s)) (dwrites t))) (disk s)"
    then have du: "disk u = apply_writes (take k W) D" by (simp add: t(2) D_def)
    have z: "get32 (D (of_int st)) 0 = 0" using assms(4) by (simp add: D_def)
    have "disk u = D \<or> disk u = apply_writes (take k (commit_writes (of_int st) (log_slot st) hs (cv_blk (cview d s)) h1 h0)) D"
      using du by (auto simp: W_def)
    then have "log_hdr (disk u (of_int st)) \<in> {[], hs} \<and> 0 \<le> sint (get32 (disk u (of_int st)) 0)"
    proof
      assume "disk u = D"
      then show ?thesis using z log_hdr_clear by simp
    qed (rule cut_header [where D = D and st = st, OF w(1) sl(1) w(3) z h1_def h0_def])
    then obtain u' where r: "recover_from_log u = Ok () u'" "booted d q st u'"
      "disk u' = (replay log_hdr (of_int st) (log_slot st) (disk u))(of_int st := hdr_of [] (disk u (of_int st)))"
      using recover_spec [of d q st u "log_hdr (disk u (of_int st))"] u w sl by auto
    have "replay log_hdr (of_int st) (log_slot st) (disk u) n =
        (if length hs < k \<and> n \<in> set hs then cv_blk (cview d s) n else D n)"
      if n: "n \<noteq> of_int st" "\<forall>i < LOGSIZE. n \<noteq> log_slot st i" for n
    proof (cases "hs = []")
      case True
      then show ?thesis using du z log_hdr_clear redo.replay_empty [of D st] by (simp add: W_def)
    next
      case False
      have hh: "log_hdr h1 = hs" "log_hdr h0 = []" using log_hdr_of w(1,3) len by (simp_all add: h1_def h0_def)
      have "replay log_hdr (of_int st) (log_slot st)
          (apply_writes (take k (commit_writes (of_int st) (log_slot st) hs (cv_blk (cview d s)) h1 h0)) D) n =
          (if k \<le> length hs then D n else if n \<in> set hs then cv_blk (cview d s) n else D n)"
        by (rule redo.crash_recovery) (use w(1,2) sl log_hdr_clear [OF z] hh n in simp_all)
      then show ?thesis using False by (simp add: du W_def)
    qed
    then show "\<exists>u'. recover_from_log u = Ok () u' \<and> booted d q st u' \<and>
        (\<forall>n. n \<noteq> of_int st \<and> (\<forall>i < LOGSIZE. n \<noteq> log_slot st i) \<longrightarrow>
          disk u' n = (if length hs < k \<and> n \<in> set hs then cv_blk (cview d s) n else disk s n))"
      using r by (auto simp: D_def)
  qed
qed

lemma one_log_wf: "log_wf 1 0 2 one_klog" "trans_wf 1 2 [100] one_klog" "in_use (cview 1 one_klog) < NBUF"
proof -
  have "log_slot 2 i \<noteq> 100" if "i < LOGSIZE" for i
  proof
    assume "log_slot 2 i = 100"
    then have "(of_nat (i + 3) :: uint32) = of_nat 100" by (simp add: log_slot_def algebra_simps)
    then have "unat (of_nat (i + 3) :: uint32) = unat (of_nat 100 :: uint32)" by (simp only:)
    then show False using unat_of_nat32 [of "i + 3"] unat_of_nat32 [of 100] that by (simp add: LOGSIZE_eq)
  qed
  then show "log_wf 1 0 2 one_klog"
    using one_klog_cache by (simp add: log_wf_def one_klog_view quiet_def LOGSIZE_eq)
  show "trans_wf 1 2 [100] one_klog" by (simp add: trans_wf_def one_klog_view LOGSIZE_eq)
  show "in_use (cview 1 one_klog) < NBUF" by (simp add: in_use_def one_klog_view NBUF_def MAXOPBLOCKS_def)
qed

lemma boot_booted:
  assumes "length (D 2) = BSIZE"
  shows "booted 1 0 2 (boot_klog\<lparr>disk := D\<rparr>)"
proof -
  let ?s = "boot_klog\<lparr>disk := D\<rparr>"
  have n: "\<not> hasblk 1 n b ?s" for n b by (simp add: hasblk_def zero_buf_def)
  have "cache_ok 1 0 ?s" using zero_buf_lru by (auto simp: cache_ok_def cached_once_def n zero_buf_def)
  then show ?thesis using assms cview_none [of 1 _ ?s] n
    by (simp add: booted_def log_wf_def quiet_def)
qed

theorem commit_crash_atomic_witness:
  "\<exists>t. commit one_klog = Ok () t \<and> (\<exists>u'. recover_from_log (boot_klog\<lparr>disk :=
      apply_writes (take 2 (dwrites t)) (\<lambda>_. replicate BSIZE 0)\<rparr>) = Ok () u' \<and> disk u' 100 = replicate BSIZE 7)"
proof -
  have z: "get32 (disk one_klog (of_int 2)) 0 = 0" by (simp add: get32_def BSIZE_def eval_nat_numeral)
  obtain t where t: "commit one_klog = Ok () t" "\<And>k q (u :: klog). booted 1 q 2 u \<Longrightarrow>
      disk u = apply_writes (take k (drop (length (dwrites one_klog)) (dwrites t))) (disk one_klog) \<Longrightarrow>
      (\<exists>u'. recover_from_log u = Ok () u' \<and> booted 1 q 2 u' \<and>
        (\<forall>n. n \<noteq> of_int 2 \<and> (\<forall>i < LOGSIZE. n \<noteq> log_slot 2 i) \<longrightarrow>
          disk u' n = (if length [100 :: uint32] < k \<and> n \<in> set [100] then cv_blk (cview 1 one_klog) n else disk one_klog n)))"
    using commit_crash_atomic [OF one_log_wf z] by blast
  obtain h1 h0 where "cview 1 t = (stores (commit_writes (of_int 2) (log_slot 2) [100] (cv_blk (cview 1 one_klog)) h1 h0)
      (cview 1 one_klog))\<lparr>cv_refs := unpin False [100] (cv_refs (cview 1 one_klog))\<rparr>" "length h1 = BSIZE"
    using commit_spec [OF one_log_wf _ refl refl] t(1) length_hdr_of by (auto simp: LOGSIZE_eq)
  then have "dwrites t = commit_writes (of_int 2) (log_slot 2) [100] (cv_blk (cview 1 one_klog)) h1 h0"
    using cview_disk(2) [of 1 t] by (simp add: one_klog_view)
  then have "booted 1 0 2 (boot_klog\<lparr>disk := apply_writes (take 2 (dwrites t)) (\<lambda>_. replicate BSIZE 0)\<rparr>)"
    using \<open>length h1 = BSIZE\<close> by (intro boot_booted) (simp add: commit_writes_def)
  moreover have "100 \<noteq> log_slot 2 i" if "i < LOGSIZE" for i using log_slot_free(2) [OF one_log_wf(1,2) that] by auto
  ultimately obtain u' where "recover_from_log (boot_klog\<lparr>disk :=
      apply_writes (take 2 (dwrites t)) (\<lambda>_. replicate BSIZE 0)\<rparr>) = Ok () u'" "disk u' 100 = replicate BSIZE 7"
    using t(2) [of 0 _ 2] by (force simp: one_klog_view)
  then show ?thesis using t(1) by blast
qed

definition log_valid :: "int \<Rightarrow> (uint32 \<Rightarrow> uint8 list) \<Rightarrow> bool" where
  \<comment> \<open>the header on the disk names distinct blocks outside the log\<close>
  "log_valid st D \<longleftrightarrow> 0 \<le> sint (get32 (D (of_int st)) 0) \<and> (let hs = log_hdr (D (of_int st)) in
     length hs \<le> LOGSIZE \<and> distinct hs \<and> of_int st \<notin> set hs \<and> (\<forall>i < LOGSIZE. log_slot st i \<notin> set hs))"

text \<open>
  C9.  Recovery can itself be interrupted.  If the machine crashes after any number of block
  writes of \<^verbatim>\<open>recover_from_log\<close>, recovery on the next boot leads to the same disk as the
  recovery that was cut off would have.
\<close>

theorem recovery_restartable:
  assumes "booted d p st s" "log_valid st (disk s)"
  shows "\<exists>t. recover_from_log s = Ok () t \<and> (\<forall>k q u. booted d q st u \<and>
      disk u = apply_writes (take k (drop (length (dwrites s)) (dwrites t))) (disk s) \<longrightarrow>
      (\<exists>u'. recover_from_log u = Ok () u' \<and> disk u' = disk t))"
proof -
  define D hs h0 where "D = disk s" and "hs = log_hdr (D (of_int st))" and "h0 = hdr_of [] (D (of_int st))"
  let ?rw = "replay_writes log_hdr (of_int st) (log_slot st) D" and ?R = "replay log_hdr (of_int st) (log_slot st)"
  have w: "length hs \<le> LOGSIZE" "0 \<le> sint (get32 (D (of_int st)) 0)" "distinct hs" "of_int st \<notin> set hs"
    "\<And>i. i < LOGSIZE \<Longrightarrow> log_slot st i \<notin> set hs" "length (D (of_int st)) = BSIZE"
    using assms by (auto simp: log_valid_def Let_def D_def hs_def booted_def log_wf_def)
  obtain t where t: "recover_from_log s = Ok () t" "disk t = (?R D)(of_int st := h0)"
    "dwrites t = dwrites s @ ?rw @ [(of_int st, h0)]"
    using recover_spec [OF assms(1) hs_def [unfolded D_def] w(1)] w(2-5) unfolding D_def h0_def by auto
  have h0: "get32 h0 0 = 0" "log_hdr h0 = []" "hdr_of [] h0 = h0"
    using get32_hdr_of [OF w(6), of "[]"] log_hdr_of [OF w(6), of "[]"] hdr_of_Nil [OF w(6)] by (simp_all add: h0_def)
  show ?thesis
  proof (intro exI [of _ t] conjI allI impI t(1))
    fix k q u
    assume u: "booted d q st u \<and> disk u = apply_writes (take k (drop (length (dwrites s)) (dwrites t))) (disk s)"
    then have du: "disk u = apply_writes (take k (?rw @ [(of_int st, h0)])) D" by (simp add: t(3) D_def)
    show "\<exists>u'. recover_from_log u = Ok () u' \<and> disk u' = disk t"
    proof (cases "k \<le> length ?rw")
      case True
      then have e: "disk u = apply_writes (take k ?rw) D" using du by simp
      have "fst ` set (take k ?rw) \<subseteq> set hs" by (auto simp: replay_writes_def Let_def hs_def dest!: in_set_takeD)
      then have "disk u (of_int st) = D (of_int st)" unfolding e using w(4) by (intro apply_writes_other) blast
      moreover have "?R (disk u) = ?R D" unfolding e by (rule redo.replay_idempotent) (use w in \<open>simp_all add: hs_def\<close>)
      ultimately show ?thesis using recover_spec [of d q st u hs] u w t(2) by (auto simp: hs_def h0_def)
    next
      case False
      then have e: "disk u = (?R D)(of_int st := h0)" using du by (simp add: replay_def)
      then have hu: "disk u (of_int st) = h0" by simp
      then have r: "?R (disk u) = disk u" using redo.replay_empty [of "disk u" st] h0(2) by simp
      obtain u' where u': "recover_from_log u = Ok () u'" "disk u' = (?R (disk u))(of_int st := hdr_of [] (disk u (of_int st)))"
        using recover_spec [OF conjunct1 [OF u], of "[]"] h0(1,2) hu by auto
      have "disk u' = disk t" unfolding u'(2) r hu h0(3) by (simp add: e t(2))
      then show ?thesis using u'(1) by blast
    qed
  qed
qed

definition cut_disk :: "uint32 \<Rightarrow> uint8 list" where
  \<comment> \<open>a committed transaction that has not been installed\<close>
  "cut_disk = (\<lambda>_. replicate BSIZE 0)(2 := hdr_of [100] (replicate BSIZE 0), 3 := replicate BSIZE 7)"

theorem recovery_restartable_witness:
  "\<exists>t u'. recover_from_log (boot_klog\<lparr>disk := cut_disk\<rparr>) = Ok () t \<and>
    recover_from_log (boot_klog\<lparr>disk := apply_writes (take 1 (dwrites t)) cut_disk\<rparr>) = Ok () u' \<and> disk u' = disk t"
proof -
  let ?s = "boot_klog\<lparr>disk := cut_disk\<rparr>"
  have c: "length (cut_disk 2) = BSIZE" "log_hdr (cut_disk 2) = [100]" "get32 (cut_disk 2) 0 = 1"
    using length_hdr_of [of "replicate BSIZE 0" "[100]"] log_hdr_of [of "replicate BSIZE 0" "[100]"]
      get32_hdr_of [of "replicate BSIZE 0" "[100]"] by (simp_all add: LOGSIZE_eq cut_disk_def)
  have b: "booted 1 0 2 ?s" using c(1) by (rule boot_booted)
  have v: "log_valid 2 (disk ?s)"
    using c log_slot_free(2) [OF one_log_wf(1,2)] by (simp add: log_valid_def LOGSIZE_eq)
  obtain t where t: "recover_from_log ?s = Ok () t" "\<And>k (u :: klog). booted 1 0 2 u \<Longrightarrow>
      disk u = apply_writes (take k (drop (length (dwrites ?s)) (dwrites t))) (disk ?s) \<Longrightarrow>
      (\<exists>u'. recover_from_log u = Ok () u' \<and> disk u' = disk t)"
    using recovery_restartable [OF b v] by blast
  have "dwrites t = replay_writes log_hdr (of_int 2) (log_slot 2) cut_disk @ [(of_int 2, hdr_of [] (cut_disk (of_int 2)))]"
    using recover_spec [OF b refl] v t(1) by (auto simp: log_valid_def Let_def)
  then have "take 1 (dwrites t) = [(100, cut_disk (log_slot 2 0))]" using c(2) by (simp add: replay_writes_def)
  then have "booted 1 0 2 (boot_klog\<lparr>disk := apply_writes (take 1 (dwrites t)) cut_disk\<rparr>)"
    using c(1) by (intro boot_booted) simp
  from t(2) [OF this, of 1] show ?thesis using t(1) by auto
qed

end
