(* ===== verification/Cache_Refine.thy ===== *)
theory Cache_Refine
  imports Sample_Disk
begin

text \<open>
  The buffer cache refines a specification without buffers: blocks with newest contents,
  contents on the disk, reference counts and locks.
\<close>

section \<open>Specification\<close>

text \<open>The operations on blocks, and what each of them does to the view.\<close>

datatype cop = Bread uint32 | Modify uint32 "uint8 list \<Rightarrow> uint8 list" | Bwrite uint32 | Brelse uint32 | Bpin uint32 | Bunpin uint32

primrec view_op :: "cop \<Rightarrow> cview \<Rightarrow> cview" where
  "view_op (Bread n) v = v\<lparr>cv_refs := (cv_refs v)(n := cv_refs v n + 1), cv_locked := (cv_locked v)(n := True)\<rparr>"
| "view_op (Modify n g) v = v\<lparr>cv_blk := (cv_blk v)(n := g (cv_blk v n))\<rparr>"
| "view_op (Bwrite n) v = v\<lparr>cv_disk := (cv_disk v)(n := cv_blk v n), cv_writes := cv_writes v @ [(n, cv_blk v n)]\<rparr>"
| "view_op (Brelse n) v = v\<lparr>cv_refs := (cv_refs v)(n := cv_refs v n - 1), cv_locked := (cv_locked v)(n := False)\<rparr>"
| "view_op (Bpin n) v = v\<lparr>cv_refs := (cv_refs v)(n := cv_refs v n + 1)\<rparr>"
| "view_op (Bunpin n) v = v\<lparr>cv_refs := (cv_refs v)(n := cv_refs v n - 1)\<rparr>"

section \<open>Implementation\<close>

text \<open>
  \<open>run_op d op b\<close> is the routine of \<^verbatim>\<open>kernel/bio.c\<close> for an operation, on buffer \<open>b\<close>; it returns the
  buffer.  Process \<open>p\<close> calls it as the file system does (\<open>allowed\<close>): a buffer is used between
  \<^verbatim>\<open>bread\<close> and \<^verbatim>\<open>brelse\<close>, and it is not given back with the last reference while its contents are
  still to be written.
\<close>

primrec run_op :: "uint32 \<Rightarrow> cop \<Rightarrow> nat \<Rightarrow> ('a kblk_scheme, nat) kmon" where
  "run_op d (Bread n) b = bread d n"
| "run_op d (Modify n g) b = bnd (upd_buf b (\<lambda>x. x\<lparr>b_data := g (b_data x)\<rparr>)) (\<lambda>_. ret b)"
| "run_op d (Bwrite n) b = bnd (bwrite b) (\<lambda>_. ret b)"
| "run_op d (Brelse n) b = bnd (brelse b) (\<lambda>_. ret b)"
| "run_op d (Bpin n) b = bnd (bpin b) (\<lambda>_. ret b)"
| "run_op d (Bunpin n) b = bnd (bunpin b) (\<lambda>_. ret b)"

primrec allowed :: "uint32 \<Rightarrow> nat \<Rightarrow> 'a kblk_scheme \<Rightarrow> nat \<Rightarrow> cop \<Rightarrow> bool" where
  "allowed d p s b (Bread n) \<longleftrightarrow> \<not> cv_locked (cview d s) n \<and> cv_refs (cview d s) n + 1 < 2 ^ 32 \<and>
     (0 < cv_refs (cview d s) n \<or> in_use (cview d s) < NBUF)"
| "allowed d p s b (Modify n g) \<longleftrightarrow> owns d n b p s"
| "allowed d p s b (Bwrite n) \<longleftrightarrow> owns d n b p s"
| "allowed d p s b (Brelse n) \<longleftrightarrow> owns d n b p s \<and> (1 < cv_refs (cview d s) n \<or> cv_blk (cview d s) n = cv_disk (cview d s) n)"
| "allowed d p s b (Bpin n) \<longleftrightarrow> owns d n b p s \<and> cv_refs (cview d s) n + 1 < 2 ^ 32"
| "allowed d p s b (Bunpin n) \<longleftrightarrow> owns d n b p s \<and> 1 < cv_refs (cview d s) n"

inductive cache_step :: "uint32 \<Rightarrow> nat \<Rightarrow> 'a kblk_scheme \<Rightarrow> cop \<Rightarrow> 'a kblk_scheme \<Rightarrow> bool" for d p where
  step: "allowed d p s b op \<Longrightarrow> run_op d op b s = Ok r t \<Longrightarrow> cache_step d p s op t"

inductive cache_steps :: "uint32 \<Rightarrow> nat \<Rightarrow> 'a kblk_scheme \<Rightarrow> cop list \<Rightarrow> 'a kblk_scheme \<Rightarrow> bool" for d p where
  none: "cache_steps d p s [] s"
| more: "cache_steps d p s ops t \<Longrightarrow> cache_step d p t op u \<Longrightarrow> cache_steps d p s (ops @ [op]) u"

lemma run_op_spec:
  assumes "cache_ok d p s" "allowed d p s b op"
  shows "\<exists>r t. run_op d op b s = Ok r t \<and> cache_ok d p t \<and> blk_frame s t \<and> cview d t = view_op op (cview d s)
    \<and> (\<forall>n. op = Bread n \<longrightarrow> owns d n r p t \<and> b_data (bufs t r) = cv_blk (cview d s) n)"
proof (cases op)
  case (Bread n)
  then have g: "\<not> cv_locked (cview d s) n" "cv_refs (cview d s) n + 1 < 2 ^ 32" "0 < cv_refs (cview d s) n \<or> in_use (cview d s) < NBUF"
    using assms(2) by simp_all
  from bread_spec [OF assms(1) g] obtain r t where t: "bread d n s = Ok r t" "cache_ok d p t" "owns d n r p t" "blk_frame s t"
    "cview d t = view_op op (cview d s)" unfolding Bread view_op.simps by blast
  moreover have "b_data (bufs t r) = cv_blk (cview d s) n" using owns_refs(3) [OF t(2,3)] t(5) by (simp add: Bread)
  ultimately show ?thesis by (simp add: Bread)
next
  case (Modify n g)
  then show ?thesis using set_data_spec [OF assms(1), of n b g] assms(2) by auto
next
  case (Bwrite n)
  then show ?thesis using bwrite_spec [OF assms(1), of n b] assms(2) by auto
next
  case (Brelse n)
  then show ?thesis using brelse_spec [OF assms(1), of n b] assms(2) by auto
next
  case (Bpin n)
  then show ?thesis using bpin_spec [OF assms(1), of n b] assms(2) by auto
next
  case (Bunpin n)
  then show ?thesis using bunpin_spec [OF assms(1), of n b] assms(2) by auto
qed

lemma cache_step_sim:
  assumes "cache_step d p s op t" "cache_ok d p s"
  shows "cache_ok d p t \<and> blk_frame s t \<and> cview d t = view_op op (cview d s)"
  using assms(1)
proof cases
  case (step b r)
  then show ?thesis using run_op_spec [OF assms(2) step(1)] by auto
qed

lemma cache_steps_sim:
  "cache_steps d p s ops t \<Longrightarrow> cache_ok d p s \<Longrightarrow> cache_ok d p t \<and> cview d t = fold view_op ops (cview d s)"
proof (induction rule: cache_steps.induct)
  case (more s ops t op u)
  then show ?case using cache_step_sim [of d p t op u] by auto
qed simp

lemma boot_view: "cview 1 boot_klog = \<lparr>cv_blk = \<lambda>_. replicate BSIZE 0, cv_disk = \<lambda>_. replicate BSIZE 0, cv_refs = \<lambda>_. 0,
    cv_locked = \<lambda>_. False, cv_writes = []\<rparr>"
  using cview_none [of 1 _ boot_klog] by (intro cview_eqI) (simp_all add: hasblk_def zero_buf_def)

lemma boot_read:
  assumes "cache_ok 1 0 (s :: klog)" "cview 1 s = cview 1 boot_klog"
  shows "allowed 1 0 s b (Bread n)"
  using assms by (simp add: boot_view in_use_def NBUF_def MAXOPBLOCKS_def)

section \<open>Properties\<close>

text \<open>
  C6.  The buffer cache refines its specification.  After any sequence of calls of the routines of
  \<^verbatim>\<open>kernel/bio.c\<close>, the view (newest contents, disk, references, locks, writes in order) is what the
  specifications of exactly these calls make of it, one after the other; in particular recycling
  a buffer is invisible.  Moreover every allowed call returns and has the effect that is specified
  for this very routine, and the buffer that \<^verbatim>\<open>bread\<close> returns holds the newest contents of the block.
\<close>

theorem cache_refines:
  assumes "cache_ok d p s" "cache_steps d p s ops t"
  shows "cview d t = fold view_op ops (cview d s) \<and>
    (\<forall>op b. allowed d p t b op \<longrightarrow> wp (run_op d op b) (\<lambda>r u. cview d u = view_op op (cview d t) \<and>
      (\<forall>n. op = Bread n \<longrightarrow> owns d n r p u \<and> b_data (bufs u r) = cv_blk (cview d t) n)) t)"
proof -
  note sim = cache_steps_sim [OF assms(2,1)]
  then have ok: "cache_ok d p t" by blast
  have "wp (run_op d op b) (\<lambda>r u. cview d u = view_op op (cview d t) \<and>
      (\<forall>n. op = Bread n \<longrightarrow> owns d n r p u \<and> b_data (bufs u r) = cv_blk (cview d t) n)) t" if "allowed d p t b op" for op b
    using run_op_spec [OF ok that] unfolding wp_iff by blast
  then show ?thesis using sim by blast
qed

theorem cache_refines_witness:
  "\<exists>b t u. bread 1 5 boot_klog = Ok b (t :: klog) \<and> bwrite b t = Ok () u \<and>
    cv_writes (cview 1 u) = [(5, replicate BSIZE 0)] \<and> b_data (bufs t b) = replicate BSIZE 0"
proof -
  have a: "allowed 1 0 boot_klog 0 (Bread 5)" using boot_read [OF boot_cache_ok refl] .
  from conjunct2 [OF cache_refines [OF boot_cache_ok cache_steps.none], rule_format, OF a] obtain b t where
    t: "bread 1 5 boot_klog = Ok b t" "owns 1 5 b 0 t" "b_data (bufs t b) = cv_blk (cview 1 boot_klog) 5"
      "cview 1 t = view_op (Bread 5) (cview 1 boot_klog)"
    unfolding wp_iff run_op.simps by blast
  have st: "cache_steps 1 0 boot_klog [Bread 5] t"
    using cache_steps.more [OF cache_steps.none cache_step.step [OF a, of b t]] t(1) by simp
  have "allowed 1 0 t b (Bwrite 5)" using t(2) by simp
  from conjunct2 [OF cache_refines [OF boot_cache_ok st], rule_format, OF this] obtain r u where
    "run_op 1 (Bwrite 5) b t = Ok r u" "cview 1 u = view_op (Bwrite 5) (cview 1 t)" unfolding wp_iff by blast
  then have u: "bwrite b t = Ok () u" "cview 1 u = view_op (Bwrite 5) (cview 1 t)"
    by (auto simp: bnd_def ret_def split: outcome.splits)
  have "cv_writes (cview 1 u) = [(5, replicate BSIZE 0)]" unfolding u(2) t(4) boot_view by simp
  moreover have "b_data (bufs t b) = replicate BSIZE 0" unfolding t(3) boot_view by simp
  ultimately show ?thesis using t(1) u(1) by blast
qed

text \<open>
  C17.  Invariant of the buffer cache: after any sequence of its routines no block of the device
  is in two buffers, and following \<^verbatim>\<open>next\<close> from the list head visits every buffer once, with
  the \<^verbatim>\<open>prev\<close> pointers leading back.
\<close>

theorem cache_invariant:
  assumes "cache_ok d p s" "cache_steps d p s ops t"
  shows "(\<forall>i j. i < NBUF \<and> j < NBUF \<and> b_dev (bufs t i) = d \<and> b_dev (bufs t j) = d \<and>
      b_blockno (bufs t i) = b_blockno (bufs t j) \<longrightarrow> i = j) \<and>
    (\<exists>xs. distinct xs \<and> set xs = {..<NBUF} \<and> chain (bufs t) NBUF xs NBUF)"
  using cache_okD(2,3) [OF conjunct1 [OF cache_steps_sim [OF assms(2,1)]]]
  unfolding lru_def cached_once_def hasblk_def by blast

theorem cache_invariant_witness:
  "\<exists>b t. bread 1 5 boot_klog = Ok b (t :: klog) \<and> (\<exists>xs. distinct xs \<and> set xs = {..<NBUF} \<and> chain (bufs t) NBUF xs NBUF)"
proof -
  have a: "allowed 1 0 boot_klog 0 (Bread 5)" using boot_read [OF boot_cache_ok refl] .
  from run_op_spec [OF boot_cache_ok a] obtain b t where t: "run_op 1 (Bread 5) 0 boot_klog = Ok b t" by blast
  have "cache_steps 1 0 boot_klog [Bread 5] t" using cache_steps.more [OF cache_steps.none cache_step.step [OF a t]] by simp
  from cache_invariant [OF boot_cache_ok this] show ?thesis using t by simp
qed

text \<open>
  C27.  Replacement is least recently used.  A block that is not cached gets the last unused
  buffer of the list, its contents come from the disk, and a buffer whose last reference is
  given back becomes the first of the list while the others keep their order.
\<close>

theorem cache_is_lru:
  assumes "cache_ok d p s" "lru (bufs s) xs"
  shows "(\<forall>n b. (\<forall>c. \<not> hasblk d n c s) \<and> List.find (\<lambda>b. b_refcnt (bufs s b) = 0) (rev xs) = Some b \<longrightarrow>
      wp (bread d n) (\<lambda>r t. r = b \<and> b_data (bufs t b) = disk s n) s) \<and>
    (\<forall>n b. owns d n b p s \<longrightarrow> wp (brelse b) (\<lambda>_ t. lru (bufs t)
      (if b_refcnt (bufs s b) = 1 then b # remove1 b xs else xs)) s)"
proof (intro conjI allI impI)
  fix n b
  assume a: "(\<forall>c. \<not> hasblk d n c s) \<and> List.find (\<lambda>b. b_refcnt (bufs s b) = 0) (rev xs) = Some b"
  from bget_recycles [OF assms(1) _ assms(2), of n b] a
  show "wp (bread d n) (\<lambda>r t. r = b \<and> b_data (bufs t b) = disk s n) s"
    by (simp add: wp_def bread_def taken_def getb_def disk_rw_def upd_buf_def)
next
  fix n b
  assume o: "owns d n b p s"
  then have "b < NBUF" by (simp add: owns_def hasblk_def)
  then show "wp (brelse b) (\<lambda>_ t. lru (bufs t) (if b_refcnt (bufs s b) = 1 then b # remove1 b xs else xs)) s"
    using put_back_lru [OF assms(2)] by (simp add: wp_def brelse_eq [OF cache_okD(1) [OF assms(1)] o])
qed

theorem cache_is_lru_witness: "wp (bread 1 5) (\<lambda>r t. r = NBUF - 1 \<and> b_data (bufs t r) = disk boot_klog 5) boot_klog"
proof -
  have "[0..<NBUF] = [0..<NBUF - 1] @ [NBUF - 1]" by (simp add: NBUF_def MAXOPBLOCKS_def upt_Suc_append [symmetric])
  then have "List.find (\<lambda>b. b_refcnt (bufs boot_klog b) = 0) (rev [0..<NBUF]) = Some (NBUF - 1)"
    by (simp add: zero_buf_def)
  moreover have "\<forall>c. \<not> hasblk 1 5 c boot_klog" by (simp add: hasblk_def zero_buf_def)
  ultimately have "wp (bread 1 5) (\<lambda>r t. r = NBUF - 1 \<and> b_data (bufs t (NBUF - 1)) = disk boot_klog 5) boot_klog"
    using cache_is_lru [of 1 0 boot_klog "[0..<NBUF]"] boot_cache_ok zero_buf_lru by simp
  then show ?thesis by (rule wp_mono) simp
qed

end
