(* ===== verification/Log_Ops.thy ===== *)
theory Log_Ops
  imports Crash Cache_Refine
begin

text \<open>
  \<^verbatim>\<open>begin_op\<close>, \<^verbatim>\<open>log_write\<close> and \<^verbatim>\<open>end_op\<close> of \<^verbatim>\<open>kernel/log.c\<close>: the transactions that
  file-system calls form, and the reservation of space in the log.
\<close>

section \<open>The process table and the cache are independent\<close>

lemma cview_procs [simp]: "cview d (procs_update f s) = cview d s"
  by (simp add: cview_def holder_def hasblk_def cong: option.case_cong if_cong)

lemma cache_ok_procs [simp]: "cache_ok d p (procs_update f s) = cache_ok d p s"
  by (simp add: cache_ok_def cached_once_def hasblk_def)

lemma log_wf_upd [simp]:
  "log_wf d p st (procs_update f s) = log_wf d p st s" "log_wf d p st (log_outstanding_update g s) = log_wf d p st s"
  "log_wf d p st (log_committing_update h s) = log_wf d p st s" "log_wf d p st (lh_n_update k s) = log_wf d p st s"
  by (simp_all add: log_wf_def)

lemma trans_wf_upd [simp]:
  "trans_wf d st hs (procs_update f s) = trans_wf d st hs s"
  "trans_wf d st hs (log_outstanding_update g s) = trans_wf d st hs s"
  "trans_wf d st hs (log_committing_update h s) = trans_wf d st hs s"
  by (simp_all add: trans_wf_def)

section \<open>begin_op\<close>

lemma begin_op_eq:
  assumes "cpu_ok s" "lock_free LkLog s" "\<not> log_committing s"
    "lh_n s + (log_outstanding s + 1) * int MAXOPBLOCKS \<le> int LOGSIZE"
  shows "begin_op s = Ok () (s\<lparr>log_outstanding := log_outstanding s + 1\<rparr>)"
  using assms by (simp add: begin_op_def begin_op_pass_def)

lemma begin_op_waits:
  assumes "cpu_ok s" "lock_free LkLog s" "running p s" "noff (mycpu s) = 0" "lock_free (LkProc p) s"
    "log_committing s \<or> int LOGSIZE < lh_n s + (log_outstanding s + 1) * int MAXOPBLOCKS"
  shows "begin_op s = Sched (acq (LkProc p) (to_scheduler p
     (s\<lparr>procs := (procs s)(p := (procs s p)\<lparr>pchan := Some ChLog, pstate := SLEEPING\<rparr>)\<rparr>)))"
  using assms by (auto simp: begin_op_def begin_op_pass_def sleep_eq)

section \<open>log_write\<close>

lemma log_index_in:
  assumes "take (length hs) bl = hs" "n \<in> set hs"
  shows "log_index (int (length hs)) bl n < length hs" "bl[log_index (int (length hs)) bl n := n] = bl"
proof -
  let ?i = "log_index (int (length hs)) bl n"
  have i: "?i = length (takeWhile (\<lambda>v. v \<noteq> n) hs)" using assms(1) by (simp add: log_index_def)
  moreover have "length (takeWhile (\<lambda>v. v \<noteq> n) hs) < length hs" using assms(2) by (induction hs) auto
  ultimately show l: "?i < length hs" by simp
  have "hs ! ?i = n" using nth_length_takeWhile [of "\<lambda>v. v \<noteq> n" hs] l i by simp
  moreover have "bl ! ?i = hs ! ?i" using l assms(1) by (metis nth_take)
  ultimately show "bl[?i := n] = bl" using list_update_id [of bl ?i] by simp
qed

lemma log_index_notin:
  "take (length hs) bl = hs \<Longrightarrow> n \<notin> set hs \<Longrightarrow> log_index (int (length hs)) bl n = length hs"
  by (simp add: log_index_def) (metis (mono_tags, lifting) takeWhile_eq_all_conv)

definition room :: "uint32 list \<Rightarrow> 'a klog_scheme \<Rightarrow> bool" where
  \<comment> \<open>a transaction is open and \<^verbatim>\<open>log_write\<close> may add a block to it\<close>
  "room hs s \<longleftrightarrow> length hs < LOGSIZE \<and> int (length hs) < log_size s - 1 \<and> 1 \<le> log_outstanding s"

definition log_frame :: "'a klog_scheme \<Rightarrow> 'a klog_scheme \<Rightarrow> bool" where
  \<comment> \<open>nothing but the cache and the list of blocks of the transaction has changed\<close>
  "log_frame s t \<longleftrightarrow> (\<exists>B L P D W n l. t = s\<lparr>bufs := B, slocks := L, procs := P, disk := D, dwrites := W, lh_n := n, lh_block := l\<rparr>)"

lemma log_frame_blk: "blk_frame s t \<Longrightarrow> log_frame s t"
proof -
  assume "blk_frame s t"
  then obtain B L P D W where t: "t = s\<lparr>bufs := B, slocks := L, procs := P, disk := D, dwrites := W\<rparr>"
    by (auto simp: blk_frame_def)
  have "t = s\<lparr>bufs := B, slocks := L, procs := P, disk := D, dwrites := W, lh_n := lh_n s, lh_block := lh_block s\<rparr>"
    unfolding t by simp
  then show ?thesis unfolding log_frame_def by blast
qed

lemma log_frame_trans: "log_frame s t \<Longrightarrow> log_frame t u \<Longrightarrow> log_frame s u"
proof -
  assume "log_frame s t" "log_frame t u"
  then obtain B L P D W n l B' L' P' D' W' n' l' where
    t: "t = s\<lparr>bufs := B, slocks := L, procs := P, disk := D, dwrites := W, lh_n := n, lh_block := l\<rparr>"
    and u: "u = t\<lparr>bufs := B', slocks := L', procs := P', disk := D', dwrites := W', lh_n := n', lh_block := l'\<rparr>"
    unfolding log_frame_def by blast
  have "u = s\<lparr>bufs := B', slocks := L', procs := P', disk := D', dwrites := W', lh_n := n', lh_block := l'\<rparr>"
    unfolding u t by simp
  then show ?thesis unfolding log_frame_def by blast
qed

lemma log_frame_pin: "blk_frame (s\<lparr>lh_block := l\<rparr>) t \<Longrightarrow> log_frame s (t\<lparr>lh_n := n\<rparr>)"
proof -
  assume "blk_frame (s\<lparr>lh_block := l\<rparr>) t"
  then obtain B L P D W where t: "t = s\<lparr>lh_block := l, bufs := B, slocks := L, procs := P, disk := D, dwrites := W\<rparr>"
    by (auto simp: blk_frame_def)
  have "t\<lparr>lh_n := n\<rparr> = s\<lparr>bufs := B, slocks := L, procs := P, disk := D, dwrites := W, lh_n := n, lh_block := l\<rparr>"
    unfolding t by simp
  then show ?thesis unfolding log_frame_def by blast
qed

lemma log_write_absorbed:
  assumes "bcache_free p s" "lock_free LkLog s" "room hs s" "lh_n s = int (length hs)"
    "take (length hs) (lh_block s) = hs" "b_blockno (bufs s b) \<in> set hs"
  shows "log_write b s = Ok () s"
  using assms log_index_in [OF assms(5,6)]
  by (simp add: log_write_def room_def getb_def bcache_free_cpu)

lemma log_write_new:
  assumes "bcache_free p s" "lock_free LkLog s" "room hs s" "lh_n s = int (length hs)"
    "take (length hs) (lh_block s) = hs" "b_blockno (bufs s b) \<notin> set hs"
  shows "log_write b s = bnd (bpin b) (\<lambda>_. modify (\<lambda>t. t\<lparr>lh_n := int (length hs) + 1\<rparr>))
    (s\<lparr>lh_block := (lh_block s)[length hs := b_blockno (bufs s b)]\<rparr>)"
  using assms log_index_notin [OF assms(5,6)]
  by (simp add: log_write_def room_def getb_def bcache_free_def upd_buf_def bpin_def)

lemma log_write_spec:
  assumes "cache_ok d p s" "lock_free LkLog s" "room hs s" "owns d n b p s" "length (lh_block s) = LOGSIZE"
    "trans_wf d st hs s" "cv_refs (cview d s) n + 1 < 2 ^ 32"
  shows "\<exists>t. log_write b s = Ok () t \<and> cache_ok d p t \<and> trans_wf d st (if n \<in> set hs then hs else hs @ [n]) t
    \<and> owns d n b p t \<and> log_frame s t \<and> log_outstanding t = log_outstanding s \<and> log_size t = log_size s
    \<and> log_committing t = log_committing s \<and> length (lh_block t) = LOGSIZE \<and> lock_free LkLog t
    \<and> cview d t = (if n \<in> set hs then cview d s
        else (cview d s)\<lparr>cv_refs := (cv_refs (cview d s))(n := cv_refs (cview d s) n + 1)\<rparr>)"
proof (cases "n \<in> set hs")
  case True
  then show ?thesis
    using log_write_absorbed [OF cache_okD(1) [OF assms(1)] assms(2,3), of b] assms
    by (auto simp: trans_wf_def owns_def hasblk_def log_frame_blk)
next
  case False
  let ?s = "s\<lparr>lh_block := (lh_block s)[length hs := n]\<rparr>"
  have n: "b_blockno (bufs s b) = n" using assms(4) by (simp add: owns_def hasblk_def)
  have w: "lh_n s = int (length hs)" "take (length hs) (lh_block s) = hs" "length hs < LOGSIZE"
    using assms(3,6) by (auto simp: trans_wf_def room_def)
  obtain t where t: "bpin b ?s = Ok () t" "cache_ok d p t" "blk_frame ?s t" "owns d n b p t"
    "cview d t = (cview d s)\<lparr>cv_refs := (cv_refs (cview d s))(n := cv_refs (cview d s) n + 1)\<rparr>"
    using bpin_spec [of d p ?s n b] assms(1,4,7) by auto
  note f = blk_frame_log [OF t(3)]
  let ?t = "t\<lparr>lh_n := int (length hs) + 1\<rparr>"
  have "log_write b s = Ok () ?t"
    using log_write_new [OF cache_okD(1) [OF assms(1)] assms(2,3) w(1,2)] False t(1) by (simp add: n)
  moreover have "take (Suc (length hs)) ((lh_block s)[length hs := n]) = hs @ [n]"
    using w(2,3) assms(5) by (simp add: take_Suc_conv_app_nth)
  then have "trans_wf d st (hs @ [n]) ?t"
    using assms(6) False f w(3) by (auto simp: trans_wf_def t(5))
  moreover have "log_frame s ?t" using t(3) by (rule log_frame_pin)
  ultimately show ?thesis using False t f assms(2,5) blk_frame_locks [OF t(3)] by (intro exI [of _ ?t]) simp
qed

section \<open>end_op\<close>

lemma end_op_not_last:
  assumes "procs_free s" "lock_free LkLog s" "\<not> log_committing s" "log_outstanding s \<noteq> 1"
  shows "end_op s = Ok () (s\<lparr>log_outstanding := log_outstanding s - 1, procs := wakes ChLog s\<rparr>)"
  using assms by (simp add: end_op_def wakeup_eq wakes_def)

lemma commit_effect:
  assumes "log_wf d p st s" "trans_wf d st hs s" "in_use (cview d s) < NBUF"
  shows "\<exists>t. commit s = Ok () t \<and> log_wf d p st t \<and> lh_n t = 0 \<and> log_outstanding t = log_outstanding s
    \<and> (\<forall>l. lock_free l t = lock_free l s) \<and> cv_refs (cview d t) = unpin False hs (cv_refs (cview d s))
    \<and> (\<forall>n. n \<noteq> of_int st \<and> (\<forall>i < LOGSIZE. n \<noteq> log_slot st i) \<longrightarrow> cv_blk (cview d t) n = cv_blk (cview d s) n \<and>
        disk t n = (if n \<in> set hs then cv_blk (cview d s) n else disk s n))"
proof (cases "hs = []")
  case True
  then have "commit s = Ok () s" using assms(2) by (simp add: commit_def trans_wf_def)
  then show ?thesis using True assms(1,2) by (simp add: unpin_def trans_wf_def)
next
  case False
  have w: "length hs \<le> LOGSIZE" "distinct hs" using assms(2) by (simp_all add: trans_wf_def)
  obtain t W where t: "commit s = Ok () t" "log_wf d p st t" "lh_n t = 0" "log_outstanding t = log_outstanding s"
    "\<forall>l. lock_free l t = lock_free l s" "cview d t = (stores W (cview d s))\<lparr>cv_refs := unpin False hs (cv_refs (cview d s))\<rparr>"
    "\<exists>h1 h0. W = commit_writes (of_int st) (log_slot st) hs (cv_blk (cview d s)) h1 h0"
    using commit_spec [OF assms False refl refl] by blast
  have a: "apply_writes W D n = (if n \<in> set hs then cv_blk (cview d s) n else D n)"
    if "n \<noteq> of_int st" "\<forall>i < LOGSIZE. n \<noteq> log_slot st i" for D n
    using t(7) redo.commit_result [OF w that(1)] that(2) by auto
  have "disk t = cv_disk (cview d t)" by simp
  then have "disk t = apply_writes W (disk s)" unfolding t(6) by simp
  then show ?thesis using t(1-5) a by (intro exI [of _ t]) (simp add: t(6))
qed

lemma end_op_last:
  assumes "log_wf d p st s" "trans_wf d st hs s" "in_use (cview d s) < NBUF" "lock_free LkLog s"
    "\<not> log_committing s" "log_outstanding s = 1"
  shows "\<exists>t. end_op s = Ok () t \<and> log_wf d p st t \<and> trans_wf d st [] t \<and> \<not> log_committing t \<and> log_outstanding t = 0
    \<and> lock_free LkLog t \<and> cv_refs (cview d t) = unpin False hs (cv_refs (cview d s))
    \<and> (\<forall>n. n \<noteq> of_int st \<and> (\<forall>i < LOGSIZE. n \<noteq> log_slot st i) \<longrightarrow> cv_blk (cview d t) n = cv_blk (cview d s) n \<and>
        disk t n = (if n \<in> set hs then cv_blk (cview d s) n else disk s n))"
proof -
  let ?s = "s\<lparr>log_outstanding := 0, log_committing := True\<rparr>"
  obtain t where t: "commit ?s = Ok () t" "log_wf d p st t" "lh_n t = 0" "log_outstanding t = 0"
    "\<And>l. lock_free l t = lock_free l ?s" "cv_refs (cview d t) = unpin False hs (cv_refs (cview d s))"
    "\<forall>n. n \<noteq> of_int st \<and> (\<forall>i < LOGSIZE. n \<noteq> log_slot st i) \<longrightarrow> cv_blk (cview d t) n = cv_blk (cview d s) n \<and>
        disk t n = (if n \<in> set hs then cv_blk (cview d s) n else disk s n)"
    using commit_effect [of d p st ?s hs] assms(1-3) by auto
  have p: "procs_free s" "procs_free t" using assms(1) t(2) by (auto simp: log_wf_def cache_ok_def bcache_free_def)
  let ?t = "t\<lparr>log_committing := False, procs := wakes ChLog t\<rparr>"
  have "end_op s = Ok () ?t"
    using assms(4-6) t(1,5) p by (simp add: end_op_def wakeup_eq wakes_def)
  then show ?thesis using t(2-7) assms(4)
    by (intro exI [of _ ?t]) (auto simp: trans_wf_def)
qed

section \<open>Reservation of log space\<close>

lemma sleep_not_Ok: "sleep ch l s \<noteq> Ok x t"
  by (simp add: sleep_def sched_def split: outcome.splits)

lemma begin_op_Ok:
  assumes "cpu_ok s" "lock_free LkLog s" "begin_op s = Ok () t"
  shows "\<not> log_committing s" "lh_n s + (log_outstanding s + 1) * int MAXOPBLOCKS \<le> int LOGSIZE"
    "t = s\<lparr>log_outstanding := log_outstanding s + 1\<rparr>"
  using assms by (auto simp: begin_op_def begin_op_pass_def sleep_not_Ok split: if_splits)

text \<open>
  \<open>tx d p st s us\<close>: the log can be in state \<open>s\<close> while operations are open that may still
  add \<open>us\<close> blocks each.  Every operation starts with the \<^verbatim>\<open>MAXOPBLOCKS\<close> blocks that
  \<^verbatim>\<open>begin_op\<close> reserves for it.
\<close>

inductive tx :: "uint32 \<Rightarrow> nat \<Rightarrow> int \<Rightarrow> 'a klog_scheme \<Rightarrow> nat list \<Rightarrow> bool" for d p st where
  start: "log_wf d p st s \<Longrightarrow> lh_n s = 0 \<Longrightarrow> log_outstanding s = 0 \<Longrightarrow> \<not> log_committing s \<Longrightarrow> lock_free LkLog s \<Longrightarrow> tx d p st s []"
| begin_op: "tx d p st s us \<Longrightarrow> begin_op s = Ok () t \<Longrightarrow> tx d p st t (MAXOPBLOCKS # us)"
| log_write: "tx d p st s us \<Longrightarrow> i < length us \<Longrightarrow> 0 < us ! i \<Longrightarrow> owns d n b p s \<Longrightarrow> cv_refs (cview d s) n + 1 < 2 ^ 32 \<Longrightarrow>
    log_write b s = Ok () t \<Longrightarrow> tx d p st t (us[i := us ! i - 1])"
| end_op: "tx d p st s us \<Longrightarrow> 1 < length us \<Longrightarrow> i < length us \<Longrightarrow> end_op s = Ok () t \<Longrightarrow>
    tx d p st t (take i us @ drop (Suc i) us)"
| end_last: "tx d p st s [u] \<Longrightarrow> log_wf d p st s \<Longrightarrow> in_use (cview d s) < NBUF \<Longrightarrow> end_op s = Ok () t \<Longrightarrow> tx d p st t []"
| cache: "tx d p st s us \<Longrightarrow> cache_step d p s op t \<Longrightarrow>
    \<forall>h \<in> set (take (nat (lh_n s)) (lh_block s)). 0 < cv_refs (cview d t) h \<Longrightarrow> tx d p st t us"

definition tx_inv :: "uint32 \<Rightarrow> nat \<Rightarrow> int \<Rightarrow> 'a klog_scheme \<Rightarrow> nat list \<Rightarrow> bool" where
  "tx_inv d p st s us \<longleftrightarrow> cache_ok d p s \<and> lock_free LkLog s \<and> length (lh_block s) = LOGSIZE \<and>
     (\<exists>hs. trans_wf d st hs s \<and> length hs + sum_list us \<le> LOGSIZE) \<and> log_outstanding s = int (length us) \<and>
     (\<forall>u \<in> set us. u \<le> MAXOPBLOCKS) \<and> \<not> log_committing s"

lemma sum_list_bound: "\<forall>u \<in> set us. u \<le> (m :: nat) \<Longrightarrow> sum_list us \<le> length us * m"
  by (induction us) (auto intro: add_mono)

lemma sum_list_dec: "i < length us \<Longrightarrow> 0 < us ! i \<Longrightarrow> sum_list (us[i := us ! i - 1]) = sum_list us - (1 :: nat)"
  by (simp add: sum_list_update)

lemma sum_list_drop: "i < length us \<Longrightarrow> sum_list (take i us @ drop (Suc i) us) \<le> (sum_list us :: nat)"
  by (metis Cons_nth_drop_Suc append_take_drop_id le_add2 sum_list.Cons sum_list_append add_le_cancel_left)

lemma log_write_Ok_room:
  assumes "cpu_ok s" "lock_free LkLog s" "log_write b s = Ok () t" "lh_n s = int (length hs)"
  shows "room hs s"
  using assms by (auto simp: log_write_def room_def split: if_splits)

lemma tx_invI:
  "cache_ok d p s \<Longrightarrow> lock_free LkLog s \<Longrightarrow> length (lh_block s) = LOGSIZE \<Longrightarrow> trans_wf d st hs s \<Longrightarrow>
    length hs + sum_list us \<le> LOGSIZE \<Longrightarrow> log_outstanding s = int (length us) \<Longrightarrow>
    (\<And>u. u \<in> set us \<Longrightarrow> u \<le> MAXOPBLOCKS) \<Longrightarrow> \<not> log_committing s \<Longrightarrow> tx_inv d p st s us"
  unfolding tx_inv_def by blast

lemma tx_invE:
  assumes "tx_inv d p st s us"
  obtains hs where "cache_ok d p s" "lock_free LkLog s" "length (lh_block s) = LOGSIZE" "trans_wf d st hs s"
    "length hs + sum_list us \<le> LOGSIZE" "log_outstanding s = int (length us)" "\<not> log_committing s"
    "cpu_ok s" "procs_free s" "\<And>u. u \<in> set us \<Longrightarrow> u \<le> MAXOPBLOCKS"
  using assms by (auto simp: tx_inv_def cache_ok_def bcache_free_def)

lemma tx_invariant: "tx d p st s us \<Longrightarrow> tx_inv d p st s us"
proof (induction rule: tx.induct)
  case (start s)
  then show ?case by (intro tx_invI [of _ _ _ _ "[]"]) (auto simp: trans_wf_def log_wf_def)
next
  case (begin_op s us t)
  from begin_op.IH show ?case
  proof (rule tx_invE)
    fix hs
    assume i: "cache_ok d p s" "lock_free LkLog s" "length (lh_block s) = LOGSIZE" "trans_wf d st hs s"
      "log_outstanding s = int (length us)" "\<not> log_committing s" "cpu_ok s" "\<And>u. u \<in> set us \<Longrightarrow> u \<le> MAXOPBLOCKS"
    note b = begin_op_Ok [OF i(7,2) begin_op.hyps(2)]
    have "int (length hs) + int (length us) * int MAXOPBLOCKS + int MAXOPBLOCKS \<le> int LOGSIZE"
      using b(2) i(4,5) by (simp add: trans_wf_def algebra_simps)
    then have "length hs + length us * MAXOPBLOCKS + MAXOPBLOCKS \<le> LOGSIZE"
      by (simp only: of_nat_add [symmetric] of_nat_mult [symmetric] of_nat_le_iff)
    moreover have "sum_list us \<le> length us * MAXOPBLOCKS" using sum_list_bound i(8) by blast
    ultimately show ?case using i by (intro tx_invI [of _ _ _ _ hs]) (auto simp: b(3))
  qed
next
  case (log_write s us i n b t)
  from log_write.IH show ?case
  proof (rule tx_invE)
    fix hs
    assume j: "cache_ok d p s" "lock_free LkLog s" "length (lh_block s) = LOGSIZE" "trans_wf d st hs s"
      "length hs + sum_list us \<le> LOGSIZE" "log_outstanding s = int (length us)" "\<not> log_committing s" "cpu_ok s"
      "\<And>u. u \<in> set us \<Longrightarrow> u \<le> MAXOPBLOCKS"
    have "room hs s" using log_write_Ok_room [OF j(8,2) log_write.hyps(6)] j(4) by (simp add: trans_wf_def)
    from log_write_spec [OF j(1,2) this log_write.hyps(4) j(3,4) log_write.hyps(5)] log_write.hyps(6)
    have t: "cache_ok d p t" "trans_wf d st (if n \<in> set hs then hs else hs @ [n]) t" "log_committing t = log_committing s"
      "log_outstanding t = log_outstanding s" "length (lh_block t) = LOGSIZE" "lock_free LkLog t" by auto
    have "us ! i \<le> sum_list us" using log_write.hyps(2) by (simp add: elem_le_sum_list)
    then have "length (if n \<in> set hs then hs else hs @ [n]) + sum_list (us[i := us ! i - 1]) \<le> LOGSIZE"
      using sum_list_dec [OF log_write.hyps(2,3)] log_write.hyps(3) j(5) by (simp, arith)
    moreover have "u \<le> MAXOPBLOCKS" if "u \<in> set (us[i := us ! i - 1])" for u
      using that j(9) [OF nth_mem [OF log_write.hyps(2)]] j(9) set_update_subset_insert [of us i] by fastforce
    ultimately show ?case using t j(6,7) by (intro tx_invI [of _ _ _ _ "if n \<in> set hs then hs else hs @ [n]"]) simp_all
  qed
next
  case (end_op s us i t)
  from end_op.IH show ?case
  proof (rule tx_invE)
    fix hs
    assume j: "cache_ok d p s" "lock_free LkLog s" "length (lh_block s) = LOGSIZE" "trans_wf d st hs s"
      "length hs + sum_list us \<le> LOGSIZE" "log_outstanding s = int (length us)" "\<not> log_committing s" "procs_free s"
      "\<And>u. u \<in> set us \<Longrightarrow> u \<le> MAXOPBLOCKS"
    have "t = s\<lparr>log_outstanding := log_outstanding s - 1, procs := wakes ChLog s\<rparr>"
      using end_op_not_last [OF j(8,2,7)] j(6) end_op.hyps by simp
    then show ?case using j sum_list_drop [OF end_op.hyps(3)] end_op.hyps
      by (intro tx_invI [of _ _ _ _ hs]) (auto dest: in_set_takeD in_set_dropD)
  qed
next
  case (end_last s u t)
  from end_last.IH show ?case
  proof (rule tx_invE)
    fix hs
    assume j: "lock_free LkLog s" "trans_wf d st hs s" "log_outstanding s = int (length [u])" "\<not> log_committing s"
    then show ?case using end_op_last [OF end_last.hyps(2) j(2) end_last.hyps(3) j(1,4)] end_last.hyps(4)
      by (intro tx_invI [of _ _ _ _ "[]"]) (auto simp: log_wf_def)
  qed
next
  case (cache s us op t)
  from cache.IH show ?case
  proof (rule tx_invE)
    fix hs
    assume j: "cache_ok d p s" "lock_free LkLog s" "length (lh_block s) = LOGSIZE" "trans_wf d st hs s"
      "length hs + sum_list us \<le> LOGSIZE" "log_outstanding s = int (length us)" "\<not> log_committing s"
      "\<And>u. u \<in> set us \<Longrightarrow> u \<le> MAXOPBLOCKS"
    have f: "blk_frame s t" using cache_step_sim [OF cache.hyps(2) j(1)] by blast
    note g = blk_frame_log [OF f] blk_frame_locks [OF f]
    have "trans_wf d st hs t" using j(4) cache.hyps(3) g by (auto simp: trans_wf_def)
    then show ?case using j cache_step_sim [OF cache.hyps(2) j(1)] g by (intro tx_invI [of _ _ _ _ hs]) auto
  qed
qed

section \<open>Properties\<close>

text \<open>
  C11.  A system call that stays within the \<^verbatim>\<open>MAXOPBLOCKS\<close> blocks \<^verbatim>\<open>begin_op\<close> reserved for it never
  overflows the log: whatever calls ran before and are running, \<^verbatim>\<open>log_write\<close> returns, the block
  then belongs to the transaction and is pinned in the cache.  This takes a log area of at
  least \<open>LOGSIZE + 1\<close> blocks, the header and \<^verbatim>\<open>LOGSIZE\<close> blocks.
\<close>

theorem log_write_never_overflows:
  assumes "tx d p st s us" "i < length us" "0 < us ! i" "owns d n b p s" "cv_refs (cview d s) n + 1 < 2 ^ 32"
    "int LOGSIZE + 1 \<le> log_size s"
  shows "wp (log_write b) (\<lambda>_ t. n \<in> set (take (nat (lh_n t)) (lh_block t)) \<and> lh_n t \<le> int LOGSIZE \<and>
    0 < cv_refs (cview d t) n) s"
  using tx_invariant [OF assms(1)]
proof (rule tx_invE)
  fix hs
  assume j: "cache_ok d p s" "lock_free LkLog s" "length (lh_block s) = LOGSIZE" "trans_wf d st hs s"
    "length hs + sum_list us \<le> LOGSIZE" "log_outstanding s = int (length us)"
  have "us ! i \<le> sum_list us" using assms(2) by (simp add: elem_le_sum_list)
  then have "room hs s" using assms(2,3,6) j(5,6) by (auto simp: room_def)
  from log_write_spec [OF j(1,2) this assms(4) j(3,4) assms(5)] obtain t where
    t: "log_write b s = Ok () t" "trans_wf d st (if n \<in> set hs then hs else hs @ [n]) t" by blast
  then have "n \<in> set (take (nat (lh_n t)) (lh_block t)) \<and> lh_n t \<le> int LOGSIZE \<and> 0 < cv_refs (cview d t) n"
    by (auto simp: trans_wf_def split: if_splits)
  then show ?thesis using t(1) by (simp add: wp_def)
qed

theorem log_write_never_overflows_witness:
  "\<exists>b s. tx 1 0 2 (s :: klog) [10] \<and> wp (log_write b) (\<lambda>_ t. 100 \<in> set (take (nat (lh_n t)) (lh_block t))) s"
proof -
  let ?s = "boot_klog\<lparr>log_outstanding := 1\<rparr>"
  have wf: "log_wf 1 0 2 boot_klog"
    using boot_cache_ok by (simp add: log_wf_def boot_view quiet_def)
  have "tx 1 0 2 boot_klog []" using wf by (intro tx.start) simp_all
  moreover have "begin_op boot_klog = Ok () ?s"
    using begin_op_eq [of boot_klog] by (simp add: LOGSIZE_eq MAXOPBLOCKS_def)
  ultimately have b: "tx 1 0 2 ?s [10]" using tx.begin_op [of 1 0 2 boot_klog "[]" ?s] by (simp add: MAXOPBLOCKS_def)
  have g: "cache_ok 1 0 ?s" "\<not> cv_locked (cview 1 ?s) 100" "cv_refs (cview 1 ?s) 100 + 1 < 2 ^ 32"
    "0 < cv_refs (cview 1 ?s) 100 \<or> in_use (cview 1 ?s) < NBUF"
    using boot_cache_ok by (simp_all add: boot_view in_use_def NBUF_def MAXOPBLOCKS_def)
  obtain x t where t: "bread 1 100 ?s = Ok x t" "owns 1 100 x 0 t" "blk_frame ?s t" "cv_refs (cview 1 t) 100 = 1"
    using bread_spec [OF g] by (auto simp: boot_view)
  have "tx 1 0 2 t [10]" using tx.cache [OF b cache_step.step [of 1 0 ?s 0 "Bread 100" x t]] g t(1) by simp
  moreover have "int LOGSIZE + 1 \<le> log_size t" using blk_frame_log [OF t(3)] by (simp add: LOGSIZE_eq)
  ultimately have "wp (log_write x) (\<lambda>_ t'. 100 \<in> set (take (nat (lh_n t')) (lh_block t')) \<and> lh_n t' \<le> int LOGSIZE \<and>
      0 < cv_refs (cview 1 t') 100) t"
    using log_write_never_overflows [of 1 0 2 t "[10]" 0 100 x] t(2,4) by simp
  then have "wp (log_write x) (\<lambda>_ t'. 100 \<in> set (take (nat (lh_n t')) (lh_block t'))) t" by (rule wp_mono) simp
  then show ?thesis using \<open>tx 1 0 2 t [10]\<close> by blast
qed

text \<open>
  C12.  The last \<^verbatim>\<open>end_op\<close> makes the transaction durable: it returns, and then every block of the
  transaction is on the disk in its newest contents, no other block outside the log has
  changed, the log is empty and the blocks are no longer pinned.
\<close>

theorem end_op_commits:
  assumes "log_wf d p st s" "trans_wf d st hs s" "in_use (cview d s) < NBUF" "lock_free LkLog s"
    "\<not> log_committing s" "log_outstanding s = 1"
  shows "wp end_op (\<lambda>_ t. lh_n t = 0 \<and> log_outstanding t = 0 \<and> \<not> log_committing t \<and>
    cv_refs (cview d t) = (\<lambda>n. if n \<in> set hs then cv_refs (cview d s) n - 1 else cv_refs (cview d s) n) \<and>
    (\<forall>n. n \<noteq> of_int st \<and> (\<forall>i < LOGSIZE. n \<noteq> log_slot st i) \<longrightarrow>
      disk t n = (if n \<in> set hs then cv_blk (cview d s) n else disk s n))) s"
  using end_op_last [OF assms] by (auto simp: wp_def trans_wf_def unpin_def)

theorem end_op_commits_witness:
  "wp end_op (\<lambda>_ t. lh_n t = 0 \<and> disk t 100 = replicate BSIZE 7) (one_klog\<lparr>log_outstanding := 1\<rparr>)"
proof -
  let ?s = "one_klog\<lparr>log_outstanding := 1\<rparr>"
  have n: "100 \<noteq> log_slot 2 i" if "i < LOGSIZE" for i using log_slot_free(2) [OF one_log_wf(1,2) that] by auto
  have "log_wf 1 0 2 ?s" "trans_wf 1 2 [100] ?s" "in_use (cview 1 ?s) < NBUF" "lock_free LkLog ?s" "\<not> log_committing ?s"
    "log_outstanding ?s = 1" using one_log_wf by simp_all
  from end_op_commits [OF this] show ?thesis by (rule wp_mono) (use n in \<open>auto simp: one_klog_view\<close>)
qed

end
