(* ===== verification/Log_Limit.thy ===== *)
theory Log_Limit
  imports Log_Ops
begin

text \<open>
  The limit of a transaction.  \<^verbatim>\<open>begin_op\<close> lets \<^verbatim>\<open>LOGSIZE\<close> blocks be reserved and \<^verbatim>\<open>log_write\<close>
  pins each of them, but \<^verbatim>\<open>kernel/param.h\<close> gives the cache no more than \<^verbatim>\<open>NBUF = LOGSIZE\<close>
  buffers, so that the commit of a full transaction finds no buffer for the log.
\<close>

lemma all_busy:
  assumes "cache_ok d p s" "NBUF \<le> in_use (cview d s)" "b < NBUF"
  shows "b_refcnt (bufs s b) \<noteq> 0"
proof
  assume z: "b_refcnt (bufs s b) = 0"
  have "{n. 0 < cv_refs (cview d s) n} \<subseteq> (\<lambda>c. b_blockno (bufs s c)) ` ({..<NBUF} - {b})"
  proof
    fix n assume n: "n \<in> {n. 0 < cv_refs (cview d s) n}"
    then obtain c where c: "hasblk d n c s" using cview_none(2) [of d n s] by fastforce
    then have "c \<noteq> b" using cview_holder(2) [OF cache_okD(3) [OF assms(1)] c] n z by auto
    then show "n \<in> (\<lambda>c. b_blockno (bufs s c)) ` ({..<NBUF} - {b})" using c by (auto simp: hasblk_def)
  qed
  then have "in_use (cview d s) \<le> card ({..<NBUF} - {b})" unfolding in_use_def by (rule surj_card_le [rotated]) simp
  then show False using assms(2,3) by simp
qed

lemma bread_no_buffers:
  assumes "cache_ok d p s" "\<And>b. b < NBUF \<Longrightarrow> b_refcnt (bufs s b) \<noteq> 0" "\<forall>b. \<not> hasblk d n b s"
  shows "bread d n s = Panic ''bget: no buffers''"
proof -
  let ?s = "acq LkBcache s"
  obtain xs where xs: "lru (bufs s) xs" and c: "bcache_free p s" using assms(1) by (auto simp: cache_ok_def)
  have "List.find (\<lambda>b. b_dev (bufs s b) = d \<and> b_blockno (bufs s b) = n) xs = None"
    using assms(3) xs by (auto simp: find_None_iff hasblk_def lru_def)
  then have h: "find_cached (Suc NBUF) d n (b_next (bufs s NBUF)) ?s = Ok None ?s"
    using xs lru_length [OF xs] find_cached_eq [of ?s NBUF xs "Suc NBUF" d n] by (simp add: lru_def)
  have "List.find (\<lambda>b. b_refcnt (bufs s b) = 0) (rev xs) = None"
    using assms(2) xs by (auto simp: find_None_iff lru_def)
  then have "find_lru (Suc NBUF) (b_prev (bufs s NBUF)) ?s = Ok None ?s"
    using xs lru_length [OF xs] find_lru_eq [of ?s xs NBUF "Suc NBUF"] by (simp add: lru_def)
  then show ?thesis using h c
    by (simp add: bread_def bget_def getb_def bcache_free_def del: find_cached.simps find_lru.simps)
qed

text \<open>
  C32.  A transaction of \<^verbatim>\<open>NBUF\<close> blocks, all pinned as \<^verbatim>\<open>log_write\<close> leaves them, cannot be
  committed: \<^verbatim>\<open>commit\<close> panics in \<^verbatim>\<open>bget\<close> before anything has been written.
\<close>

theorem full_transaction_panics:
  assumes "log_wf d p st s" "trans_wf d st hs s" "length hs = NBUF"
  shows "commit s = Panic ''bget: no buffers''"
proof -
  have w: "cache_ok d p s" "log_dev s = d" "log_start s = st" "length (lh_block s) = LOGSIZE"
    "cv_refs (cview d s) (log_slot st 0) = 0" "lh_n s = int NBUF" "distinct hs" "\<And>h. h \<in> set hs \<Longrightarrow> 0 < cv_refs (cview d s) h"
    using assms by (auto simp: log_wf_def trans_wf_def LOGSIZE_eq)
  have "set hs \<subseteq> {n. 0 < cv_refs (cview d s) n}" using w(8) by blast
  then have "card (set hs) \<le> in_use (cview d s)" unfolding in_use_def by (intro card_mono) simp_all
  then have full: "NBUF \<le> in_use (cview d s)" using distinct_card [OF w(7)] assms(3) by simp
  note busy = all_busy [OF w(1) full]
  have "\<not> hasblk d (log_slot st 0) b s" for b
    using cview_holder(2) [OF cache_okD(3) [OF w(1)], of "log_slot st 0" b] busy [of b] w(5)
    by (auto simp: hasblk_def unat_eq_0)
  then have b: "bread d (log_slot st 0) s = Panic ''bget: no buffers''" using bread_no_buffers [OF w(1) busy] by blast
  have "0 < NBUF" "0 < LOGSIZE" by (simp_all add: NBUF_def LOGSIZE_def MAXOPBLOCKS_def)
  then obtain k where k: "nat (lh_n s) = Suc k" using w(6) by (metis gr0_implies_Suc nat_int)
  have "write_log s = Panic ''bget: no buffers''"
    unfolding write_log_def k write_log_loop_Suc [OF w(2,3) HOL.refl, of 0, unfolded w(4), OF \<open>0 < LOGSIZE\<close>] by (simp add: b)
  then show ?thesis using w(6) \<open>0 < NBUF\<close> by (simp add: commit_def)
qed

section \<open>A full cache\<close>

definition full_klog :: klog where
  \<comment> \<open>every buffer holds a pinned block of the transaction\<close>
  "full_klog = boot_klog\<lparr>bufs := (\<lambda>i. if i < NBUF then (zero_buf i)\<lparr>b_valid := True, b_dev := 1,
     b_blockno := of_nat (100 + i), b_refcnt := 1\<rparr> else zero_buf i), lh_n := 30,
     lh_block := map (\<lambda>i. of_nat (100 + i)) [0..<LOGSIZE]\<rparr>"

lemma of_nat32_inj: "a < 2 ^ 32 \<Longrightarrow> b < 2 ^ 32 \<Longrightarrow> (of_nat a :: uint32) = of_nat b \<longleftrightarrow> a = b"
  by (metis unat_of_nat32)

lemma block_inj: "i < 30 \<Longrightarrow> j < 30 \<Longrightarrow> (of_nat (100 + i) :: uint32) = of_nat (100 + j) \<longleftrightarrow> i = j"
  by (subst of_nat32_inj) simp_all

lemma full_hasblk: "hasblk 1 n b full_klog \<longleftrightarrow> b < NBUF \<and> n = of_nat (100 + b)"
  by (auto simp: hasblk_def full_klog_def)

lemma NBUF_30: "NBUF = 30" by (simp add: NBUF_def MAXOPBLOCKS_def)

lemma full_cache_ok: "cache_ok 1 0 full_klog"
proof -
  have "lru (bufs full_klog) [0..<NBUF]" using zero_buf_lru by (subst lru_cong [of _ zero_buf]) (simp_all add: full_klog_def)
  moreover have "cached_once 1 full_klog" unfolding cached_once_def full_hasblk NBUF_30 using block_inj by blast
  moreover have "bcache_free 0 full_klog" using boot_klog_free(1) by (simp add: full_klog_def bcache_free_def)
  ultimately show ?thesis unfolding cache_ok_def by (auto simp: full_klog_def)
qed

lemma full_refs: "cv_refs (cview 1 full_klog) n = (if \<exists>b < NBUF. n = of_nat (100 + b) then 1 else 0)"
proof (cases "\<exists>b < NBUF. n = of_nat (100 + b)")
  case True
  then obtain b where b: "hasblk 1 n b full_klog" by (auto simp: full_hasblk)
  then have "b_refcnt (bufs full_klog b) = 1" by (simp add: full_klog_def hasblk_def split: if_splits)
  then show ?thesis using cview_holder(2) [OF cache_okD(3) [OF full_cache_ok] b] True by simp
next
  case False
  then have "\<forall>b. \<not> hasblk 1 n b full_klog" unfolding full_hasblk by blast
  from cview_none(2) [OF this] False show ?thesis by simp
qed

lemma full_locked: "\<not> cv_locked (cview 1 full_klog) n"
  by (simp add: cview_def full_klog_def split: option.split)

theorem full_transaction_panics_witness: "commit full_klog = Panic ''bget: no buffers''"
proof (rule full_transaction_panics)
  have "b < 30 \<Longrightarrow> (of_nat k :: uint32) \<noteq> of_nat (100 + b)" if "k < 100" for k b
    using that by (subst of_nat32_inj) simp_all
  then have z: "cv_refs (cview 1 full_klog) (of_nat k) = 0" if "k < 100" for k
    unfolding full_refs NBUF_30 using that by auto
  have "cv_refs (cview 1 full_klog) (log_slot 2 i) = 0" if "i < LOGSIZE" for i
    using z [of "i + 3"] that by (simp add: LOGSIZE_eq log_slot_def algebra_simps)
  moreover have "cv_refs (cview 1 full_klog) (of_int 2) = 0" using z [of 2] by simp
  moreover have "quiet (cview 1 full_klog)" by (simp add: quiet_def full_locked full_refs)
  moreover have "log_dev full_klog = 1" "log_start full_klog = 2" "length (lh_block full_klog) = LOGSIZE"
    "length (disk full_klog (of_int 2)) = BSIZE" by (simp_all add: full_klog_def)
  ultimately show "log_wf 1 0 2 full_klog" using full_cache_ok unfolding log_wf_def by blast
  let ?hs = "map (\<lambda>i. of_nat (100 + i)) [0..<NBUF] :: uint32 list"
  have "distinct ?hs" by (auto simp: distinct_map inj_on_def NBUF_30 block_inj simp del: of_nat_add)
  then show "trans_wf 1 2 ?hs full_klog"
    by (auto simp: trans_wf_def full_refs NBUF_30 LOGSIZE_eq) (simp_all add: full_klog_def LOGSIZE_eq)
  show "length ?hs = NBUF" by simp
qed

end
