(* ===== verification/Balloc.thy ===== *)
theory Balloc
  imports Log_Limit Sample_Files
begin

text \<open>
  Block allocation of \<^verbatim>\<open>kernel/fs.c\<close> inside a transaction: \<^verbatim>\<open>balloc\<close> never hands out a block that
  is in use.  The routines of the file system all change a block in the same way, with
  \<^verbatim>\<open>bread\<close>, a change of the data, \<^verbatim>\<open>log_write\<close> and \<^verbatim>\<open>brelse\<close>; \<open>change_block\<close> says what that does.
\<close>

section \<open>Changing a block in a transaction\<close>

definition ftx :: "uint32 \<Rightarrow> nat \<Rightarrow> int \<Rightarrow> uint32 list \<Rightarrow> 'a klog_scheme \<Rightarrow> bool" where
  \<comment> \<open>a transaction with the blocks \<open>hs\<close> is open, and apart from these no block is in use\<close>
  "ftx d p st hs s \<longleftrightarrow> cache_ok d p s \<and> lock_free LkLog s \<and> length (lh_block s) = LOGSIZE \<and> trans_wf d st hs s
     \<and> 1 \<le> log_outstanding s \<and> (\<forall>n. \<not> cv_locked (cview d s) n \<and> cv_refs (cview d s) n = (if n \<in> set hs then 1 else 0))"

definition with_block :: "uint32 \<Rightarrow> uint32 list \<Rightarrow> uint32 list" where
  "with_block n hs = (if n \<in> set hs then hs else hs @ [n])"

lemma ftx_in_use: "ftx d p st hs s \<Longrightarrow> in_use (cview d s) = length hs"
proof -
  assume a: "ftx d p st hs s"
  then have "{n. 0 < cv_refs (cview d s) n} = set hs" by (auto simp: ftx_def)
  then show ?thesis using a by (simp add: in_use_def ftx_def trans_wf_def distinct_card)
qed

lemma log_frame_fs:
  "log_frame s t \<Longrightarrow> fs_sb t = fs_sb s" "log_frame s t \<Longrightarrow> inodes t = inodes s" "log_frame s t \<Longrightarrow> log_size t = log_size s"
  by (auto simp: log_frame_def)

lemma bread_tx:
  assumes "ftx d p st hs s" "room hs s"
  obtains b t where "bread d n s = Ok b t" "cache_ok d p t" "owns d n b p t" "blk_frame s t"
    "b_data (bufs t b) = cv_blk (cview d s) n"
    "cview d t = (cview d s)\<lparr>cv_refs := (cv_refs (cview d s))(n := cv_refs (cview d s) n + 1),
        cv_locked := (cv_locked (cview d s))(n := True)\<rparr>"
proof -
  have "cache_ok d p s" "\<not> cv_locked (cview d s) n" "cv_refs (cview d s) n + 1 < 2 ^ 32"
    using assms(1) by (simp_all add: ftx_def)
  moreover have "0 < cv_refs (cview d s) n \<or> in_use (cview d s) < NBUF"
    using ftx_in_use [OF assms(1)] assms(2) by (simp add: room_def LOGSIZE_def NBUF_def)
  ultimately obtain b t where t: "bread d n s = Ok b t" "cache_ok d p t" "owns d n b p t" "blk_frame s t"
    "cview d t = (cview d s)\<lparr>cv_refs := (cv_refs (cview d s))(n := cv_refs (cview d s) n + 1),
        cv_locked := (cv_locked (cview d s))(n := True)\<rparr>"
    using bread_spec by blast
  have "b_data (bufs t b) = cv_blk (cview d s) n" using owns_refs(3) [OF t(2,3)] t(5) by simp
  then show thesis using that t by blast
qed

lemma look_block:
  assumes "ftx d p st hs s" "room hs s" "bread d n s = Ok b t" "cache_ok d p t" "owns d n b p t" "blk_frame s t"
    "cview d t = (cview d s)\<lparr>cv_refs := (cv_refs (cview d s))(n := cv_refs (cview d s) n + 1),
        cv_locked := (cv_locked (cview d s))(n := True)\<rparr>"
  shows "\<exists>u. brelse b t = Ok () u \<and> ftx d p st hs u \<and> log_frame s u \<and> cview d u = cview d s"
proof -
  have "cv_blk (cview d s) n = cv_disk (cview d s) n \<or> n \<in> set hs"
    using clean_block [of d p s n] assms(1) by (auto simp: ftx_def)
  then have "1 < cv_refs (cview d t) n \<or> cv_blk (cview d t) n = cv_disk (cview d t) n"
    using assms(1,7) by (auto simp: ftx_def)
  from brelse_spec [OF assms(4,5) this] obtain u where u: "brelse b t = Ok () u" "cache_ok d p u" "blk_frame t u"
    "cview d u = (cview d t)\<lparr>cv_refs := (cv_refs (cview d t))(n := cv_refs (cview d t) n - 1),
        cv_locked := (cv_locked (cview d t))(n := False)\<rparr>" by blast
  have v: "cview d u = cview d s" using assms(1) by (simp add: u(4) assms(7) ftx_def fun_upd_idem)
  note f = blk_frame_trans [OF assms(6) u(3)]
  have "ftx d p st hs u"
    using assms(1) u(2) blk_frame_log [OF f] blk_frame_locks [OF f] v by (simp add: ftx_def trans_wf_def)
  then show ?thesis using u(1) v log_frame_blk [OF f] by blast
qed

lemma change_block:
  assumes "ftx d p st hs s" "room hs s" "bread d n s = Ok b t" "cache_ok d p t" "owns d n b p t" "blk_frame s t"
    "cview d t = (cview d s)\<lparr>cv_refs := (cv_refs (cview d s))(n := cv_refs (cview d s) n + 1),
        cv_locked := (cv_locked (cview d s))(n := True)\<rparr>"
  shows "\<exists>u. bnd (upd_data b g) (\<lambda>_. bnd (log_write b) (\<lambda>_. brelse b)) t = Ok () u \<and> ftx d p st (with_block n hs) u
    \<and> log_frame s u \<and> cv_blk (cview d u) = (cv_blk (cview d s))(n := g (cv_blk (cview d s) n))"
proof -
  have r: "cv_refs (cview d s) m = (if m \<in> set hs then 1 else 0)" "\<not> cv_locked (cview d s) m" for m
    using assms(1) by (simp_all add: ftx_def)
  obtain t1 where t1: "upd_data b g t = Ok () t1" "cache_ok d p t1" "blk_frame t t1" "owns d n b p t1"
    "cview d t1 = (cview d t)\<lparr>cv_blk := (cv_blk (cview d t))(n := g (cv_blk (cview d t) n))\<rparr>"
    using set_data_spec [OF assms(4,5), of g] assms(5) by (auto simp: upd_data_def)
  note f1 = blk_frame_trans [OF assms(6) t1(3)]
  have w1: "lock_free LkLog t1" "room hs t1" "length (lh_block t1) = LOGSIZE" "trans_wf d st hs t1"
    using assms(1,2) blk_frame_log [OF f1] blk_frame_locks [OF f1] t1(5) assms(7)
    by (simp_all add: ftx_def room_def trans_wf_def r)
  have "cv_refs (cview d t1) n + 1 < 2 ^ 32" using r(1) [of n] by (simp add: t1(5) assms(7))
  from log_write_spec [OF t1(2) w1(1,2) t1(4) w1(3,4) this] obtain t2 where
    t2: "log_write b t1 = Ok () t2" "cache_ok d p t2" "trans_wf d st (with_block n hs) t2" "owns d n b p t2" "log_frame t1 t2"
    "log_outstanding t2 = log_outstanding t1" "length (lh_block t2) = LOGSIZE" "lock_free LkLog t2"
    "cview d t2 = (if n \<in> set hs then cview d t1
      else (cview d t1)\<lparr>cv_refs := (cv_refs (cview d t1))(n := cv_refs (cview d t1) n + 1)\<rparr>)"
    unfolding with_block_def by blast
  have "1 < cv_refs (cview d t2) n \<or> cv_blk (cview d t2) n = cv_disk (cview d t2) n"
    using r(1) [of n] by (simp add: t2(9) t1(5) assms(7))
  from brelse_spec [OF t2(2,4) this] obtain u where u: "brelse b t2 = Ok () u" "cache_ok d p u" "blk_frame t2 u"
    "cview d u = (cview d t2)\<lparr>cv_refs := (cv_refs (cview d t2))(n := cv_refs (cview d t2) n - 1),
        cv_locked := (cv_locked (cview d t2))(n := False)\<rparr>" by blast
  note f2 = blk_frame_log [OF u(3)] blk_frame_locks [OF u(3)]
  have refs: "cv_refs (cview d u) m = (if m \<in> set (with_block n hs) then 1 else 0)" for m
    using r(1) by (auto simp: u(4) t2(9) t1(5) assms(7) with_block_def)
  have "ftx d p st (with_block n hs) u"
    using u(2) t2(3,6-8) f2 refs r(2) assms(1) blk_frame_log [OF f1]
    by (auto simp: ftx_def trans_wf_def u(4) t2(9) t1(5) assms(7))
  moreover have "log_frame s u"
    using log_frame_trans [OF log_frame_blk [OF f1] log_frame_trans [OF t2(5) log_frame_blk [OF u(3)]]] .
  moreover have "cv_blk (cview d u) = (cv_blk (cview d s))(n := g (cv_blk (cview d s) n))"
    by (simp add: u(4) t2(9) t1(5) assms(7))
  ultimately show ?thesis using t1(1) t2(1) u(1) by auto
qed

lemma bzero_tx:
  assumes "ftx d p st hs s" "room hs s"
  shows "\<exists>u. bzero d n s = Ok () u \<and> ftx d p st (with_block n hs) u \<and> log_frame s u
    \<and> cv_blk (cview d u) = (cv_blk (cview d s))(n := replicate BSIZE 0)"
proof -
  from bread_tx [OF assms] obtain b t where t: "bread d n s = Ok b t" "cache_ok d p t" "owns d n b p t" "blk_frame s t"
    "cview d t = (cview d s)\<lparr>cv_refs := (cv_refs (cview d s))(n := cv_refs (cview d s) n + 1),
        cv_locked := (cv_locked (cview d s))(n := True)\<rparr>" by metis
  from change_block [OF assms t, of "\<lambda>_. replicate BSIZE 0"] show ?thesis using t(1) by (simp add: bzero_def)
qed

section \<open>Bits\<close>

lemma bit_used_iff: "bit_used x bi \<longleftrightarrow> bit (x ! (bi div 8)) (bi mod 8)"
proof -
  have "(w AND push_bit k 1 \<noteq> 0) = bit w k" if "k < 8" for w :: uint8 and k
    using that and_exp_eq_0_iff_not_bit [of w k] by (simp add: push_bit_eq_mult)
  then show ?thesis by (simp add: bit_used_def)
qed

lemma bit_used_mark:
  assumes "bi div 8 < length x"
  shows "bit_used (mark_bit x bi) bj \<longleftrightarrow> bj = bi \<or> bit_used x bj"
proof (cases "bj div 8 = bi div 8")
  case True
  then have "bj mod 8 = bi mod 8 \<longleftrightarrow> bj = bi" by (metis div_mult_mod_eq)
  then show ?thesis using True assms
    by (auto simp: bit_used_iff mark_bit_def bit_or_iff push_bit_eq_mult bit_exp_iff)
qed (auto simp: bit_used_iff mark_bit_def)

lemma length_mark_bit [simp]: "length (mark_bit x bi) = length x"
  by (simp add: mark_bit_def)

section \<open>The search\<close>

lemma find_append: "find P (xs @ ys) = (case find P xs of None \<Rightarrow> find P ys | Some x \<Rightarrow> Some x)"
  by (induction xs) simp_all

lemma find_upt_Some:
  assumes "a \<le> n" "n < c" "P n" "\<And>j. a \<le> j \<Longrightarrow> j < n \<Longrightarrow> \<not> P j"
  shows "find P [a..<c] = Some n"
proof -
  have "[a..<c] = [a..<n] @ n # [Suc n..<c]"
    using assms(1,2) by (metis less_imp_add_positive upt_add_eq_append upt_conv_Cons zero_less_diff less_imp_le_nat le_add_diff_inverse)
  moreover have "find P [a..<n] = None" using assms(4) by (simp add: find_None_iff)
  ultimately show ?thesis using assms(3) by (simp add: find_append)
qed

lemma find_upt_skip:
  assumes "a \<le> b" "\<And>j. a \<le> j \<Longrightarrow> j < b \<Longrightarrow> j < c \<Longrightarrow> \<not> P j"
  shows "find P [a..<c] = find P [b..<c]"
proof (cases "b \<le> c")
  case True
  then have "[a..<c] = [a..<b] @ [b..<c]" using assms(1) by (metis le_add_diff_inverse upt_add_eq_append)
  moreover have "find P [a..<b] = None" using assms True by (simp add: find_None_iff)
  ultimately show ?thesis by (simp add: find_append)
qed (use assms in \<open>simp add: find_None_iff\<close>)

definition block_used :: "superblock \<Rightarrow> (uint32 \<Rightarrow> uint8 list) \<Rightarrow> nat \<Rightarrow> bool" where
  \<comment> \<open>the bit of block \<open>n\<close> in the bitmap\<close>
  "block_used sb B n = bit_used (B (BBLOCK (of_nat n) sb)) (n mod BPB)"

definition bitmap_ok :: "superblock \<Rightarrow> (uint32 \<Rightarrow> uint8 list) \<Rightarrow> bool" where
  \<comment> \<open>the bitmap has whole blocks, and marks its own blocks as in use\<close>
  "bitmap_ok sb B \<longleftrightarrow> (\<forall>n<unat (sb_size sb). length (B (BBLOCK (of_nat n) sb)) = BSIZE \<and>
     (\<forall>m<unat (sb_size sb). BBLOCK (of_nat m) sb = of_nat n \<longrightarrow> block_used sb B n))"

lemma BPB_eq: "BPB = 8192"
  by (simp add: BPB_def BSIZE_def)

lemma BBLOCK_nat:
  assumes "n < 2 ^ 32"
  shows "BBLOCK (of_nat n) sb = of_nat (n div BPB) + sb_bmapstart sb"
proof -
  have "unat (of_nat n :: uint32) = n" using assms by (simp add: unat_of_nat take_bit_nat_eq_self)
  then have "unat (of_nat n div 8192 :: uint32) = n div 8192" by (simp add: unat_div)
  then have "(of_nat n div 8192 :: uint32) = of_nat (n div 8192)"
    by (metis of_nat_unat ucast_id)
  then show ?thesis by (simp add: BBLOCK_def BPB_eq)
qed

lemma BBLOCK_same:
  assumes "m < 2 ^ 32" "n < 2 ^ 32"
  shows "BBLOCK (of_nat m) sb = BBLOCK (of_nat n) sb \<longleftrightarrow> m div BPB = n div BPB"
proof -
  have "m div BPB < 2 ^ 32" "n div BPB < 2 ^ 32" using assms by (simp_all add: BPB_eq)
  then show ?thesis using assms by (simp add: BBLOCK_nat of_nat32_inj)
qed

lemma bblock_part:
  assumes "k * BPB + j < unat (sb_size sb)" "j < BPB"
  shows "BBLOCK (of_nat (k * BPB + j)) sb = BBLOCK (of_nat (k * BPB)) sb"
proof -
  have "k * BPB + j < 2 ^ 32" using assms(1) unsigned_less [of "sb_size sb", where 'a = nat] by simp
  then show ?thesis using assms(2) by (subst BBLOCK_same) (simp_all add: BPB_eq)
qed

lemma bitmap_bit:
  assumes "k * BPB + j < unat (sb_size sb)" "j < BPB"
  shows "block_used sb B (k * BPB + j) \<longleftrightarrow> bit_used (B (BBLOCK (of_nat (k * BPB)) sb)) j"
  using bblock_part [OF assms] assms(2) by (simp add: block_used_def del: of_nat_add of_nat_mult)

definition allocated :: "uint32 \<Rightarrow> nat \<Rightarrow> 'a kfs_scheme \<Rightarrow> 'a kfs_scheme \<Rightarrow> bool" where
  \<comment> \<open>from \<open>s\<close> to \<open>u\<close>, block \<open>n\<close> has become used and zero, and nothing else has changed\<close>
  "allocated d n s u \<longleftrightarrow> fs_sb u = fs_sb s \<and> cv_blk (cview d u) (of_nat n) = replicate BSIZE 0
     \<and> (\<forall>m<unat (sb_size (fs_sb s)). block_used (fs_sb s) (cv_blk (cview d u)) m \<longleftrightarrow>
          m = n \<or> block_used (fs_sb s) (cv_blk (cview d s)) m)
     \<and> (\<forall>k. k \<noteq> of_nat n \<longrightarrow> k \<noteq> BBLOCK (of_nat n) (fs_sb s) \<longrightarrow> cv_blk (cview d u) k = cv_blk (cview d s) k)"

lemma block_used_mark:
  assumes "bitmap_ok sb B" "n < unat (sb_size sb)" "\<not> block_used sb B n" "m < unat (sb_size sb)"
  shows "block_used sb ((B(BBLOCK (of_nat n) sb := mark_bit (B (BBLOCK (of_nat n) sb)) (n mod BPB)))(of_nat n := z)) m
    \<longleftrightarrow> m = n \<or> block_used sb B m"
proof -
  have b: "n < 2 ^ 32" "m < 2 ^ 32" using assms(2,4) unsigned_less [of "sb_size sb", where 'a = nat] by simp_all
  have "BBLOCK (of_nat m) sb \<noteq> of_nat n" "n mod BPB div 8 < length (B (BBLOCK (of_nat n) sb))"
    using assms by (auto simp: bitmap_ok_def BPB_eq BSIZE_def)
  moreover have "m div BPB = n div BPB \<Longrightarrow> m mod BPB = n mod BPB \<longleftrightarrow> m = n" by (metis div_mult_mod_eq)
  ultimately show ?thesis using BBLOCK_same [OF b(2,1), of sb]
    by (cases "m div BPB = n div BPB") (auto simp: block_used_def bit_used_mark)
qed

lemma with_block_length: "length (with_block n hs) \<le> Suc (length hs)"
  by (simp add: with_block_def)

lemma balloc_take:
  assumes "ftx d p st hs s" "room (n # hs) s" "bitmap_ok (fs_sb s) (cv_blk (cview d s))"
    "bread d (BBLOCK (of_nat n') (fs_sb s)) s = Ok b t" "cache_ok d p t" "owns d (BBLOCK (of_nat n') (fs_sb s)) b p t" "blk_frame s t"
    "cview d t = (cview d s)\<lparr>cv_refs := (cv_refs (cview d s))(BBLOCK (of_nat n') (fs_sb s) :=
        cv_refs (cview d s) (BBLOCK (of_nat n') (fs_sb s)) + 1),
      cv_locked := (cv_locked (cview d s))(BBLOCK (of_nat n') (fs_sb s) := True)\<rparr>"
    "n' < unat (sb_size (fs_sb s))" "\<not> block_used (fs_sb s) (cv_blk (cview d s)) n'"
  shows "\<exists>u. bnd (upd_data b (\<lambda>x. mark_bit x (n' mod BPB))) (\<lambda>_. bnd (log_write b) (\<lambda>_. bnd (brelse b) (\<lambda>_.
      bnd (bzero d (of_nat n')) (\<lambda>_. ret (of_nat n'))))) t = Ok (of_nat n' :: uint32) u
    \<and> ftx d p st (with_block (of_nat n') (with_block (BBLOCK (of_nat n') (fs_sb s)) hs)) u \<and> allocated d n' s u"
proof -
  let ?bb = "BBLOCK (of_nat n') (fs_sb s)"
  have "room hs s" using assms(2) by (simp add: room_def)
  from change_block [OF assms(1) this assms(4-8), of "\<lambda>x. mark_bit x (n' mod BPB)"] obtain v where
    v: "bnd (upd_data b (\<lambda>x. mark_bit x (n' mod BPB))) (\<lambda>_. bnd (log_write b) (\<lambda>_. brelse b)) t = Ok () v"
    "ftx d p st (with_block ?bb hs) v" "log_frame s v"
    "cv_blk (cview d v) = (cv_blk (cview d s))(?bb := mark_bit (cv_blk (cview d s) ?bb) (n' mod BPB))" by blast
  have "room (with_block ?bb hs) v"
    using v(2) assms(2) log_frame_fs(3) [OF v(3)] with_block_length [of ?bb hs] by (auto simp: room_def ftx_def)
  from bzero_tx [OF v(2) this, of "of_nat n'"] obtain u where
    u: "bzero d (of_nat n') v = Ok () u" "ftx d p st (with_block (of_nat n') (with_block ?bb hs)) u" "log_frame v u"
    "cv_blk (cview d u) = (cv_blk (cview d v))(of_nat n' := replicate BSIZE 0)" by blast
  have "allocated d n' s u"
    unfolding allocated_def u(4) v(4)
    using block_used_mark [OF assms(3,9,10)] log_frame_fs(1) [OF u(3)] log_frame_fs(1) [OF v(3)] by simp
  moreover have "bnd (upd_data b (\<lambda>x. mark_bit x (n' mod BPB))) (\<lambda>_. bnd (log_write b) (\<lambda>_. bnd (brelse b) (\<lambda>_.
      bnd (bzero d (of_nat n')) (\<lambda>_. ret (of_nat n'))))) t = Ok (of_nat n') u"
    using v(1) u(1) by (auto simp: bnd_def split: outcome.splits)
  ultimately show ?thesis using u(2) by blast
qed

lemma free_bit_Some:
  assumes "free_bit x b sz = Some j"
  shows "j < BPB" "b + j < sz" "\<not> bit_used x j" "\<And>i. i < j \<Longrightarrow> bit_used x i"
  using assms unfolding free_bit_def find_Some_iff by (auto simp: nth_upt)

lemma free_bit_None: "free_bit x b sz = None \<Longrightarrow> i < BPB \<Longrightarrow> b + i < sz \<Longrightarrow> bit_used x i"
  by (auto simp: free_bit_def find_None_iff)

lemma balloc_loop_spec:
  assumes "ftx d p st hs s" "room (n # hs) s" "bitmap_ok (fs_sb s) (cv_blk (cview d s))"
    "(k + c) * BPB \<ge> unat (sb_size (fs_sb s))"
  shows "case find (\<lambda>n. \<not> block_used (fs_sb s) (cv_blk (cview d s)) n) [k * BPB..<unat (sb_size (fs_sb s))] of
      None \<Rightarrow> balloc_loop d (map (\<lambda>k. k * BPB) [k..<k + c]) s = Panic ''balloc: out of blocks''
    | Some n \<Rightarrow> \<exists>u. balloc_loop d (map (\<lambda>k. k * BPB) [k..<k + c]) s = Ok (of_nat n) u
        \<and> ftx d p st (with_block (of_nat n) (with_block (BBLOCK (of_nat n) (fs_sb s)) hs)) u \<and> allocated d n s u"
  using assms
proof (induction c arbitrary: k s)
  case 0
  then show ?case by (simp add: panic_def)
next
  case (Suc c)
  let ?sb = "fs_sb s" and ?B = "cv_blk (cview d s)" and ?bb = "BBLOCK (of_nat (k * BPB)) (fs_sb s)"
  let ?sz = "unat (sb_size ?sb)"
  have r: "room hs s" using Suc.prems(2) by (simp add: room_def)
  have l: "[k..<k + Suc c] = k # [Suc k..<Suc k + c]" by (simp add: upt_conv_Cons)
  from bread_tx [OF Suc.prems(1) r, of ?bb] obtain b t where
    t: "bread d ?bb s = Ok b t" "cache_ok d p t" "owns d ?bb b p t" "blk_frame s t" and bd: "b_data (bufs t b) = ?B ?bb" and
    v: "cview d t = (cview d s)\<lparr>cv_refs := (cv_refs (cview d s))(?bb := cv_refs (cview d s) ?bb + 1),
        cv_locked := (cv_locked (cview d s))(?bb := True)\<rparr>" by blast
  show ?case
  proof (cases "free_bit (?B ?bb) (k * BPB) ?sz")
    case None
    have "find (\<lambda>n. \<not> block_used ?sb ?B n) [k * BPB..<?sz] = find (\<lambda>n. \<not> block_used ?sb ?B n) [Suc k * BPB..<?sz]"
    proof (rule find_upt_skip)
      fix j assume "k * BPB \<le> j" "j < Suc k * BPB" "j < ?sz"
      then show "\<not> \<not> block_used ?sb ?B j"
        using bitmap_bit [of k "j - k * BPB" ?sb ?B] free_bit_None [OF None, of "j - k * BPB"] by simp
    qed simp
    moreover obtain u where u: "brelse b t = Ok () u" "ftx d p st hs u" "log_frame s u" "cview d u = cview d s"
      using look_block [OF Suc.prems(1) r t v] by blast
    moreover have "room (n # hs) u" using Suc.prems(2) u(2) log_frame_fs(3) [OF u(3)] by (simp add: room_def ftx_def)
    moreover have "balloc_loop d (map (\<lambda>k. k * BPB) [k..<k + Suc c]) s = balloc_loop d (map (\<lambda>k. k * BPB) [Suc k..<Suc k + c]) u"
      unfolding l using t(1) bd None u(1) by (simp add: getb_def)
    moreover have "allocated d m s = allocated d m u" for m
      using u(4) log_frame_fs(1) [OF u(3)] by (simp add: allocated_def fun_eq_iff)
    ultimately show ?thesis
      using Suc.IH [of u "Suc k"] Suc.prems(3,4) log_frame_fs(1) [OF u(3)] by (simp del: upt_Suc split: option.splits)
  next
    case (Some j)
    note j = free_bit_Some [OF Some]
    have "find (\<lambda>n. \<not> block_used ?sb ?B n) [k * BPB..<?sz] = Some (k * BPB + j)"
    proof (rule find_upt_Some)
      fix i assume "k * BPB \<le> i" "i < k * BPB + j"
      then show "\<not> \<not> block_used ?sb ?B i" using bitmap_bit [of k "i - k * BPB" ?sb ?B] j by simp
    qed (use j bitmap_bit [of k j ?sb ?B] in simp_all)
    moreover have e: "BBLOCK (of_nat (k * BPB + j)) ?sb = ?bb" "(k * BPB + j) mod BPB = j"
      using j by (simp_all add: bblock_part del: of_nat_add of_nat_mult)
    moreover have "\<not> block_used ?sb ?B (k * BPB + j)" using bitmap_bit [of k j ?sb ?B] j by simp
    moreover have "balloc_loop d (map (\<lambda>k. k * BPB) [k..<k + Suc c]) s =
      bnd (upd_data b (\<lambda>x. mark_bit x j)) (\<lambda>_. bnd (log_write b) (\<lambda>_. bnd (brelse b) (\<lambda>_.
        bnd (bzero d (of_nat (k * BPB + j))) (\<lambda>_. ret (of_nat (k * BPB + j)))))) t"
      unfolding l using t(1) bd Some by (simp add: getb_def del: of_nat_add of_nat_mult)
    ultimately show ?thesis
      using balloc_take [OF Suc.prems(1-3), of "k * BPB + j" b t] t v j(2)
      by (simp del: upt_Suc of_nat_add of_nat_mult)
  qed
qed

section \<open>Freeing\<close>

lemma bit_used_clear:
  assumes "bi div 8 < length x"
  shows "bit_used (clear_bit x bi) bj \<longleftrightarrow> bj \<noteq> bi \<and> bit_used x bj"
proof (cases "bj div 8 = bi div 8")
  case True
  then have "bj mod 8 = bi mod 8 \<longleftrightarrow> bj = bi" by (metis div_mult_mod_eq)
  then show ?thesis using True assms
    by (auto simp: bit_used_iff clear_bit_def bit_and_iff bit_not_iff push_bit_eq_mult bit_exp_iff)
qed (auto simp: bit_used_iff clear_bit_def)

lemma block_used_clear:
  assumes "bitmap_ok sb B" "n < unat (sb_size sb)" "m < unat (sb_size sb)"
  shows "block_used sb (B(BBLOCK (of_nat n) sb := clear_bit (B (BBLOCK (of_nat n) sb)) (n mod BPB))) m
    \<longleftrightarrow> m \<noteq> n \<and> block_used sb B m"
proof -
  have b: "n < 2 ^ 32" "m < 2 ^ 32" using assms(2,3) unsigned_less [of "sb_size sb", where 'a = nat] by simp_all
  have "n mod BPB div 8 < length (B (BBLOCK (of_nat n) sb))"
    using assms by (auto simp: bitmap_ok_def BPB_eq BSIZE_def)
  moreover have "m div BPB = n div BPB \<Longrightarrow> m mod BPB = n mod BPB \<longleftrightarrow> m = n" by (metis div_mult_mod_eq)
  ultimately show ?thesis using BBLOCK_same [OF b(2,1), of sb]
    by (cases "m div BPB = n div BPB") (auto simp: block_used_def bit_used_clear)
qed

section \<open>A bitmap\<close>

definition one_bitmap :: "uint8 list" where
  \<comment> \<open>blocks 0 to 47 are in use\<close>
  "one_bitmap = replicate 6 (- 1) @ replicate (BSIZE - 6) 0"

definition disk_kfs :: kfs where
  "disk_kfs = one_kfs\<lparr>disk := (\<lambda>_. replicate BSIZE 0)(46 := one_bitmap), log_outstanding := 1\<rparr>"

lemma disk_kfs_fields:
  "bufs disk_kfs = zero_buf" "disk disk_kfs = (\<lambda>_. replicate BSIZE 0)(46 := one_bitmap)" "fs_sb disk_kfs = one_sb"
  "log_size disk_kfs = 31" "log_outstanding disk_kfs = 1" "lh_n disk_kfs = 0" "lh_block disk_kfs = replicate LOGSIZE 0"
  "\<not> sl_locked (slocks disk_kfs k)" "lock_free l disk_kfs" "bcache_free 0 disk_kfs"
  using one_kproc_simps
  by (simp_all add: disk_kfs_def one_kfile_defs one_klog_defs bcache_free_def procs_free_def cpu_ok_def lock_free_def
      intr_get_def mach_defs running_def)

lemma disk_kfs_view: "cv_blk (cview 1 disk_kfs) n = disk disk_kfs n" "cv_refs (cview 1 disk_kfs) n = 0"
  "\<not> cv_locked (cview 1 disk_kfs) n"
  using cview_none [of 1 n disk_kfs] by (simp_all add: hasblk_def zero_buf_def disk_kfs_fields(1))

lemma disk_kfs_ftx: "ftx 1 0 2 [] disk_kfs"
proof -
  have "cache_ok 1 0 disk_kfs"
    using zero_buf_lru disk_kfs_fields by (auto simp: cache_ok_def cached_once_def hasblk_def zero_buf_def)
  then show ?thesis by (simp add: ftx_def trans_wf_def disk_kfs_fields disk_kfs_view)
qed

lemma one_bitmap_bits: "n < 8192 \<Longrightarrow> bit_used one_bitmap n \<longleftrightarrow> n < 48"
  by (auto simp: bit_used_iff one_bitmap_def nth_append BSIZE_def)

lemma one_sb_BBLOCK: "n < 1000 \<Longrightarrow> BBLOCK (of_nat n) one_sb = 46"
  by (simp add: BBLOCK_nat BPB_eq one_sb_def)

lemma disk_kfs_used: "n < 1000 \<Longrightarrow> block_used one_sb (cv_blk (cview 1 disk_kfs)) n \<longleftrightarrow> n < 48"
  by (simp add: block_used_def one_sb_BBLOCK disk_kfs_view disk_kfs_fields(2) one_bitmap_bits BPB_eq)

lemma disk_kfs_bitmap: "bitmap_ok one_sb (cv_blk (cview 1 disk_kfs))"
proof -
  have k: "(of_nat n :: uint32) = 46 \<Longrightarrow> n < 1000 \<Longrightarrow> n = 46" for n using of_nat32_inj [of n 46] by simp
  have "unat (sb_size one_sb) = 1000" by (simp add: one_sb_def)
  then show ?thesis unfolding bitmap_ok_def
    by (auto simp: one_sb_BBLOCK disk_kfs_view disk_kfs_fields(2) disk_kfs_used one_bitmap_def BSIZE_def dest!: k sym [of 46])
qed

section \<open>Properties\<close>

text \<open>
  C5.  \<^verbatim>\<open>balloc\<close> never hands out a block in use.  Inside a transaction with room for two blocks it
  returns the first block that the bitmap does not mark, exactly that block has become marked,
  the block is zero, all other blocks but the bitmap's are untouched, the two changed blocks are
  part of the transaction, and no buffer is left locked; with no free block it panics.  The counters
  of the two loops are numbers without a bound, which is the \<^verbatim>\<open>int\<close> of the code on file systems
  of fewer than \<open>2 ^ 31\<close> blocks.
\<close>

theorem balloc_spec:
  assumes "ftx d p st hs s" "length hs + 2 \<le> LOGSIZE" "int (length hs) + 2 < log_size s"
    "bitmap_ok (fs_sb s) (cv_blk (cview d s))"
  shows "case find (\<lambda>n. \<not> block_used (fs_sb s) (cv_blk (cview d s)) n) [0..<unat (sb_size (fs_sb s))] of
      None \<Rightarrow> balloc d s = Panic ''balloc: out of blocks''
    | Some n \<Rightarrow> \<exists>u. balloc d s = Ok (of_nat n) u
        \<and> ftx d p st (with_block (of_nat n) (with_block (BBLOCK (of_nat n) (fs_sb s)) hs)) u \<and> allocated d n s u"
proof -
  let ?sz = "unat (sb_size (fs_sb s))"
  have "?sz \<le> (?sz + BPB - 1) div BPB * BPB"
    using div_mult_mod_eq [of "?sz + BPB - 1" BPB] mod_less_divisor [of BPB "?sz + BPB - 1"] by (simp add: BPB_eq)
  moreover have "room (0 # hs) s" using assms(1-3) by (simp add: room_def ftx_def)
  moreover have "balloc d s = balloc_loop d (map (\<lambda>k. k * BPB) [0..<0 + (?sz + BPB - 1) div BPB]) s"
    by (simp add: balloc_def)
  ultimately show ?thesis
    using balloc_loop_spec [OF assms(1) _ assms(4), of 0 0 "(?sz + BPB - 1) div BPB"]
    by (simp split: option.splits)
qed

theorem balloc_spec_witness: "\<exists>u. balloc 1 disk_kfs = Ok 48 u \<and> allocated 1 48 disk_kfs u"
proof -
  have sz: "unat (sb_size one_sb) = 1000" by (simp add: one_sb_def)
  have "find (\<lambda>n. \<not> block_used one_sb (cv_blk (cview 1 disk_kfs)) n) [0..<1000] = Some 48"
    by (rule find_upt_Some) (simp_all add: disk_kfs_used)
  then show ?thesis
    using balloc_spec [OF disk_kfs_ftx] disk_kfs_bitmap by (auto simp: disk_kfs_fields sz LOGSIZE_eq)
qed

text \<open>
  C24.  \<^verbatim>\<open>bfree\<close> frees exactly the given block: its bit is cleared, all other bits and all blocks but
  the bitmap's are untouched, and the block of the bitmap is part of the transaction.  Freeing a
  block that the bitmap does not mark is caught by a panic.
\<close>

theorem bfree_spec:
  assumes "ftx d p st hs s" "length hs < LOGSIZE" "int (length hs) + 1 < log_size s"
    "bitmap_ok (fs_sb s) (cv_blk (cview d s))" "n < unat (sb_size (fs_sb s))"
  shows "if block_used (fs_sb s) (cv_blk (cview d s)) n
    then \<exists>u. bfree d (of_nat n) s = Ok () u \<and> ftx d p st (with_block (BBLOCK (of_nat n) (fs_sb s)) hs) u
      \<and> (\<forall>m<unat (sb_size (fs_sb s)). block_used (fs_sb s) (cv_blk (cview d u)) m \<longleftrightarrow>
           m \<noteq> n \<and> block_used (fs_sb s) (cv_blk (cview d s)) m)
      \<and> (\<forall>k. k \<noteq> BBLOCK (of_nat n) (fs_sb s) \<longrightarrow> cv_blk (cview d u) k = cv_blk (cview d s) k)
    else bfree d (of_nat n) s = Panic ''freeing free block''"
proof -
  let ?bb = "BBLOCK (of_nat n) (fs_sb s)"
  have u: "unat (of_nat n :: uint32) = n"
    using assms(5) unsigned_less [of "sb_size (fs_sb s)", where 'a = nat] by (simp add: unat_of_nat take_bit_nat_eq_self)
  have r: "room hs s" using assms(1-3) by (simp add: room_def ftx_def)
  from bread_tx [OF assms(1) r, of ?bb] obtain b t where
    t: "bread d ?bb s = Ok b t" "cache_ok d p t" "owns d ?bb b p t" "blk_frame s t" and
    bd: "b_data (bufs t b) = cv_blk (cview d s) ?bb" and
    v: "cview d t = (cview d s)\<lparr>cv_refs := (cv_refs (cview d s))(?bb := cv_refs (cview d s) ?bb + 1),
        cv_locked := (cv_locked (cview d s))(?bb := True)\<rparr>" by blast
  have e: "bfree d (of_nat n) s = (if block_used (fs_sb s) (cv_blk (cview d s)) n
      then bnd (upd_data b (\<lambda>x. clear_bit x (n mod BPB))) (\<lambda>_. bnd (log_write b) (\<lambda>_. brelse b)) t
      else Panic ''freeing free block'')"
    using t(1) bd u by (simp add: bfree_def getb_def assert_or_def panic_def block_used_def Let_def bnd_def ret_def)
  from change_block [OF assms(1) r t v, of "\<lambda>x. clear_bit x (n mod BPB)"] obtain w where
    w: "bnd (upd_data b (\<lambda>x. clear_bit x (n mod BPB))) (\<lambda>_. bnd (log_write b) (\<lambda>_. brelse b)) t = Ok () w"
    "ftx d p st (with_block ?bb hs) w"
    "cv_blk (cview d w) = (cv_blk (cview d s))(?bb := clear_bit (cv_blk (cview d s) ?bb) (n mod BPB))" by blast
  show ?thesis unfolding e w(1) using w(2) block_used_clear [OF assms(4,5)] by (simp add: w(3))
qed

theorem bfree_spec_witness:
  "(\<exists>u. bfree 1 47 disk_kfs = Ok () u \<and> \<not> block_used one_sb (cv_blk (cview 1 u)) 47) \<and>
   bfree 1 48 disk_kfs = Panic ''freeing free block''"
proof -
  have sz: "unat (sb_size one_sb) = 1000" by (simp add: one_sb_def)
  have "int (length ([] :: uint32 list)) + 1 < log_size disk_kfs" "length ([] :: uint32 list) < LOGSIZE"
    by (simp_all add: disk_kfs_fields LOGSIZE_eq)
  note b = bfree_spec [OF disk_kfs_ftx this(2,1), unfolded disk_kfs_fields(3) sz, OF disk_kfs_bitmap]
  show ?thesis using b [of 47] b [of 48] by (auto simp: disk_kfs_used)
qed

end
