(* ===== verification/Spec2Isabelle.thy ===== *)
theory Spec2Isabelle
  imports Boot Scheduling Ubytes Pipe_Fifo Grep Shell_Print Trap_Regs Balloc
begin

text \<open>
  Verification of xv6-riscv (\<^verbatim>\<open>src/xv6-riscv\<close>): the kernel, and of the user side the library, the
  parser of the shell and \<^verbatim>\<open>grep\<close>.

  \<^bold>\<open>The program.\<close>  xv6 is a small Unix kernel for a multiprocessor RISC-V.  Spin locks and the page
  allocator are at the bottom; page tables and user memory, the process table and the scheduler
  stand on them; the drivers of UART, console and disk, the buffer cache and the redo log lead to
  the file system; open files, pipes, \<^verbatim>\<open>exec\<close> and the system calls use all of it, and traps bring
  user programs into the kernel and back.

  \<^bold>\<open>How the code is modelled.\<close>  A routine of the kernel is a value of \<open>('s, 'a) kmon\<close>
  (\<open>Xv6_Prelude\<close>), a function from the state to an outcome: it returns a value (\<open>Ok\<close>), calls
  \<^verbatim>\<open>panic\<close> (\<open>Panic\<close>), gives up the CPU in \<^verbatim>\<open>sched\<close> (\<open>Sched\<close>) or waits for ever on this CPU
  (\<open>Spin\<close>).  \<open>bnd\<close> is sequencing; \<open>wp m Q s\<close> says that \<open>m\<close> started in \<open>s\<close> returns and that \<open>Q\<close> holds
  then.  The state is a chain of extensible records, one per layer: \<open>mach\<close> (harts, per-CPU
  structures, spin locks), \<open>kmem\<close> (byte memory, free list), \<open>kproc\<close> (process table), \<open>kdev\<close>
  (devices), \<open>kslp\<close> (sleep locks), \<open>kblk\<close> (buffers, disk, and the writes to it in order), \<open>klog\<close>,
  \<open>kfs\<close>, \<open>kfile\<close>, \<open>kboot\<close>.  A routine is polymorphic in what lies above its own layer, so that all
  later layers can call it.  Integers are words of their width wherever they can wrap around;
  pointers into memory are 64-bit words, pointers into static tables are indices.  A routine that
  sleeps ends with \<open>Sched\<close>, and what follows the sleep is a definition of its own (\<open>sleep_resume\<close>,
  the \<open>_pass\<close> definitions), so other processes can run in between.  What the kernel reads from
  outside (registers of devices, symbols of the linker script, the number of the running hart)
  is a field of the state or an argument.

  \<^bold>\<open>The theories, from the bottom\<close> (file under \<^verbatim>\<open>kernel/\<close> unless stated):
  \<^item> \<open>Xv6_Prelude\<close>, \<open>Machine\<close>, \<open>Bytes\<close>: \<^verbatim>\<open>types.h\<close>, \<^verbatim>\<open>param.h\<close>, \<^verbatim>\<open>memlayout.h\<close> and \<^verbatim>\<open>riscv.h\<close>; the outcome
    monad with its \<open>wp\<close> rules; little-endian integers in byte memory.
  \<^item> \<open>Cstring\<close>: \<^verbatim>\<open>string.c\<close>.  \<^verbatim>\<open>memmove\<close> copies as if through a buffer; \<^verbatim>\<open>strncmp\<close> decides equality;
    \<^verbatim>\<open>safestrcpy\<close> always terminates its result.
  \<^item> \<open>Spinlock\<close>: \<^verbatim>\<open>spinlock.c\<close>.  The routines of one CPU, and an interleaving relation \<open>lstep\<close> of their
    atomic steps on all harts, for mutual exclusion by rule induction; \<open>acquire_steps\<close> links the two.
  \<^item> \<open>Kalloc\<close>: \<^verbatim>\<open>kalloc.c\<close>.  The free list is threaded through memory; the locale \<open>page_allocator\<close> is
    its contract, interpreted on \<^verbatim>\<open>kalloc\<close> and \<^verbatim>\<open>kfree\<close>, and shows that no page is given out twice.
  \<^item> \<open>Pagetable\<close>, \<open>Vm\<close>, \<open>Vm_Map\<close>, \<open>Vm_Space\<close>, \<open>Uaccess\<close>: \<^verbatim>\<open>vm.c\<close>.  Three-level tables in memory, their
    translation of addresses, growing and shrinking address spaces without losing a page, and the copies between user
    and kernel memory, which touch nothing but the user's own pages.
  \<^item> \<open>Proc\<close>, \<open>Process\<close>, \<open>Scheduling\<close>: \<^verbatim>\<open>proc.c\<close>, \<^verbatim>\<open>proc.h\<close>, \<^verbatim>\<open>swtch.S\<close>, \<^verbatim>\<open>exec.c\<close>, \<^verbatim>\<open>elf.h\<close>.  Sleeping and being
    woken, exactness of \<^verbatim>\<open>wakeup\<close> and \<^verbatim>\<open>kill\<close>, bounded waiting: \<^verbatim>\<open>scheduler\<close>,
    called back again and again from the processes it switches to, reaches every runnable one.
  \<^item> \<open>Uart\<close>, \<open>Printf\<close>, \<open>Console\<close>, \<open>Sleeplock\<close>, \<open>Virtio\<close>: \<^verbatim>\<open>uart.c\<close>, \<^verbatim>\<open>printf.c\<close>, \<^verbatim>\<open>console.c\<close>, \<^verbatim>\<open>sleeplock.c\<close>,
    \<^verbatim>\<open>virtio_disk.c\<close>, \<^verbatim>\<open>virtio.h\<close>.
  \<^item> \<open>Bio\<close>, \<open>Bcache\<close>, \<open>Cache_Refine\<close>: \<^verbatim>\<open>bio.c\<close>.  \<open>cview\<close> abstracts the linked list of buffers to newest
    contents, disk, references, locks and writes of blocks; every routine refines an operation
    on that view, the list stays a list of all buffers, and a miss recycles the least recently
    used one.  Every routine has its own operation on the view, so the refinement fixes the effect
    of each.
  \<^item> \<open>Log\<close>, \<open>Redo_Log\<close>, \<open>Log_Format\<close>, \<open>Log_Commit\<close>, \<open>Crash\<close>, \<open>Log_Ops\<close>, \<open>Log_Limit\<close>: \<^verbatim>\<open>log.c\<close>.  The locale
    \<open>redo_log\<close> is crash recovery on an abstract disk; \<open>Log_Format\<close> interprets it on the kernel's
    header format, \<open>Log_Commit\<close> and \<open>Crash\<close> show that the code makes exactly its writes, in its
    order.  \<open>Log_Ops\<close> counts the blocks of concurrent operations; \<open>Log_Limit\<close> shows where the limits
    of log and cache do not fit together.
  \<^item> \<open>Fs\<close>, \<open>Balloc\<close>: \<^verbatim>\<open>fs.c\<close>, \<^verbatim>\<open>fs.h\<close>, \<^verbatim>\<open>stat.h\<close>.  Block and inode allocation, contents, directories, paths;
    \<open>Balloc\<close> has the allocation and freeing of blocks inside a transaction.
  \<^item> \<open>File\<close>, \<open>Ring\<close>, \<open>Pipe_Fifo\<close>: \<^verbatim>\<open>file.c\<close>, \<^verbatim>\<open>file.h\<close>, \<^verbatim>\<open>pipe.c\<close>.  The locale \<open>fifo\<close> is a bounded queue,
    interpreted on pipes with their wrapping counters; what is written is read, in order.
  \<^item> \<open>Ubytes\<close>: the copies from and to user memory as values, used from \<open>File\<close> on, agree with those of
    \<open>Vm\<close> on addresses.
  \<^item> \<open>Sysfile\<close>: \<^verbatim>\<open>syscall.c\<close>, \<^verbatim>\<open>sysproc.c\<close>, \<^verbatim>\<open>sysfile.c\<close>, \<^verbatim>\<open>syscall.h\<close>, \<^verbatim>\<open>fcntl.h\<close>.
  \<^item> \<open>Trap\<close>, \<open>Trap_Regs\<close>: \<^verbatim>\<open>trap.c\<close>, \<^verbatim>\<open>plic.c\<close>, \<^verbatim>\<open>trampoline.S\<close>, \<^verbatim>\<open>kernelvec.S\<close>.  A trap gives every general
    register back its value.
  \<^item> \<open>Boot\<close>: \<^verbatim>\<open>start.c\<close>, \<^verbatim>\<open>main.c\<close>.
  \<^item> \<open>Ulib\<close>: \<^verbatim>\<open>user/ulib.c\<close>, \<^verbatim>\<open>user/printf.c\<close>.  \<^verbatim>\<open>atoi\<close> reads the non-negative numbers that \<^verbatim>\<open>printf\<close>
    prints, up to the point where it overflows, and the buffer of \<^verbatim>\<open>printint\<close> is large enough.
  \<^item> \<open>Grep\<close>: \<^verbatim>\<open>user/grep.c\<close>.  The matcher decides the language of its patterns, and the loop that refills
    the buffer prints the matching lines, up to a NUL or a line too long for the buffer, however
    \<^verbatim>\<open>read\<close> cuts the input.
  \<^item> \<open>Shell\<close>, \<open>Shell_Parse\<close>, \<open>Shell_Print\<close>: the parser of \<^verbatim>\<open>user/sh.c\<close>.  It is total, stays inside the line
    and its arrays, leaves every word as a C string, and inverts a printer of commands.  A word is never empty and has no blank or symbol in it.
  \<^item> \<open>Sample_Disk\<close>, \<open>Sample_Files\<close>: concrete states to which the theorems are applied.

  \<^bold>\<open>Bounds and fuel.\<close>  Most loops are structural recursion on a count that the code bounds, or have
  a termination proof.  Fuel is used where the code follows pointers or indices: the walks along
  the buffer list have \<open>NBUF + 1\<close> steps, and the lemmas on the list show that they never run out;
  \<^verbatim>\<open>freewalk\<close> descends the three levels of a page table; the loops over the rings of UART and disk
  have one step per entry.  Fuel that runs out is \<open>Spin\<close>, never a result, so no theorem with \<open>wp\<close> or
  \<open>Ok\<close> can rest on it.  The parser of the shell has fuel \<open>4 * length + 4\<close>; \<open>parsecmd_terminates\<close> shows
  that this is always enough.

  Signed integers of C whose overflow would be undefined are numbers without a bound where they
  only count (the depth \<open>noff\<close> of \<^verbatim>\<open>push_off\<close>, the counters of \<^verbatim>\<open>balloc\<close>); the model is the code as long as
  they stay below \<open>2 ^ 31\<close>.  Where the value is computed from input, in \<^verbatim>\<open>atoi\<close>, overflow is \<open>None\<close>.

  \<^bold>\<open>Hypotheses.\<close>  Theorems about one routine are about an execution that no other process
  interferes with while it holds its locks, with the locks it needs free; interleavings are
  treated where they are the point: spin locks, clients of the page allocator, operations of the
  log, the cache, and sleep with wakeup.  A disk request is the transfer that it makes
  when \<^verbatim>\<open>virtio_disk_rw\<close> returns.  A crash keeps the disk with any prefix of the writes made so far.

  \<^bold>\<open>Not modelled.\<close>  \<^verbatim>\<open>entry.S\<close> and \<^verbatim>\<open>kernel.ld\<close> set the stack pointer and lay out the image, below the level
  of the model; \<^verbatim>\<open>defs.h\<close>, \<^verbatim>\<open>date.h\<close> and \<^verbatim>\<open>user.h\<close> only declare; \<^verbatim>\<open>ramdisk.c\<close> is not linked into the kernel.
  Memory fences have no counterpart, since a step of the model is atomic.  The system call stubs
  are generated from \<^verbatim>\<open>usys.pl\<close>.  Of the user programs, those that only make system calls are left
  out, since the model has no user-mode machine that would run them (this includes \<^verbatim>\<open>runcmd\<close> of
  the shell), and so are the test programs \<^verbatim>\<open>usertests.c\<close>, \<^verbatim>\<open>forktest.c\<close>, \<^verbatim>\<open>stressfs.c\<close> and \<^verbatim>\<open>grind.c\<close>.
\<close>

end
